(* ===== verification/Prelude.thy ===== *)
theory Prelude
  imports Main "HOL-Library.Word" "HOL-Library.AList" "HOL-Library.Sublist"
begin

text \<open>
  What the components share: the names of the machine integer types, the Rust operations on
  them that the sources use (\<open>saturating_sub\<close>, \<open>saturating_add\<close>, \<open>checked_add\<close>), results as sums, byte strings
  and \<open>str::split\<close>, and hash maps.

  A Rust \<open>String\<close> is the list of its UTF-8 bytes (the type \<open>string\<close>, a list of 8-bit
  characters). The sources compare, split and measure strings by bytes or by ASCII
  characters only, so nothing depends on decoding: a byte of a multi-byte character is at
  least 128 and is never an ASCII letter, digit, slash, star or at sign.

  A \<open>HashMap\<close> is an association list with distinct keys. The order of the list stands for the
  iteration order, which Rust leaves open: every theorem holds for every order.
\<close>

section \<open>Machine integers\<close>

type_synonym u8 = "8 word"
type_synonym u16 = "16 word"
type_synonym u32 = "32 word"
type_synonym u64 = "64 word"
type_synonym bytes = "u8 list"

named_theorems u_arith

definition saturating_sub :: "'a::len word \<Rightarrow> 'a word \<Rightarrow> 'a word" where
  "saturating_sub a b = (if a < b then 0 else a - b)"

definition saturating_add :: "'a::len word \<Rightarrow> 'a word \<Rightarrow> 'a word" where
  "saturating_add a b = (if unat a + unat b < 2 ^ LENGTH('a) then a + b else - 1)"

definition checked_add :: "'a::len word \<Rightarrow> 'a word \<Rightarrow> 'a word option" where
  "checked_add a b = (if unat a + unat b < 2 ^ LENGTH('a) then Some (a + b) else None)"

lemma unat_saturating_sub [u_arith]:
  "unat (saturating_sub a b) = unat a - unat b"
  by (simp add: saturating_sub_def word_less_nat_alt unat_sub word_le_nat_alt not_less)

lemma saturating_sub_le: "saturating_sub a b \<le> a"
  by (simp add: word_le_nat_alt unat_saturating_sub)

lemma unat_saturating_add [u_arith]:
  "unat (saturating_add a b) = min (unat a + unat b) (2 ^ LENGTH('a) - 1)" for a b :: "'a::len word"
  by (auto simp: saturating_add_def unat_word_ariths unsigned_minus_1_eq_mask mask_eq_exp_minus_1)

lemma unat_checked_add [u_arith]:
  "checked_add a b = Some c \<Longrightarrow> unat c = unat a + unat b"
  by (auto simp: checked_add_def unat_word_ariths split: if_splits)

lemma unat_plus_one:
  fixes a :: "'a::len word"
  assumes "unat a + 1 < 2 ^ LENGTH('a)"
  shows "unat (a + 1) = unat a + 1"
  using assms by (simp add: unat_word_ariths)

lemma unat_of_nat_small:
  assumes "n < 2 ^ LENGTH('a::len)"
  shows "unat (of_nat n :: 'a word) = n"
  using assms by (simp add: unat_of_nat)

lemma of_nat_unat_id [simp]: "of_nat (unat w) = (w :: 'a::len word)"
  by (simp add: of_nat_unat)

lemma unat_u64_less: "unat (w :: u64) < 2 ^ 64"
  using unsigned_less [of w] by simp

lemma unat_u32_less: "unat (w :: u32) < 2 ^ 32"
  using unsigned_less [of w] by simp

lemma unat_eqD: "unat w = n \<Longrightarrow> w = of_nat n"
  by auto

lemma nth_list_update_if:
  "xs[i := x] ! j = (if i = j \<and> j < length xs then x else xs ! j)"
  by (induction xs arbitrary: i j) (auto simp: nth_Cons split: nat.splits)

section \<open>Results\<close>

text \<open>\<open>Result<T, E>\<close> is \<open>'e + 'a\<close>: \<open>Inl\<close> is \<open>Err\<close>, \<open>Inr\<close> is \<open>Ok\<close>. The \<open>?\<close> operator is
  \<open>rbind\<close>.\<close>

type_synonym ('e, 'a) result = "'e + 'a"

definition rbind :: "('e, 'a) result \<Rightarrow> ('a \<Rightarrow> ('e, 'b) result) \<Rightarrow> ('e, 'b) result" where
  "rbind r f = (case r of Inl e \<Rightarrow> Inl e | Inr a \<Rightarrow> f a)"

definition map_err :: "('e \<Rightarrow> 'f) \<Rightarrow> ('e, 'a) result \<Rightarrow> ('f, 'a) result" where
  "map_err f r = (case r of Inl e \<Rightarrow> Inl (f e) | Inr a \<Rightarrow> Inr a)"

lemma rbind_simps [simp]:
  "rbind (Inl e) f = Inl e"
  "rbind (Inr a) f = f a"
  by (simp_all add: rbind_def)

lemma rbind_Inr_iff: "rbind r f = Inr b \<longleftrightarrow> (\<exists>a. r = Inr a \<and> f a = Inr b)"
  by (cases r) simp_all

lemma map_err_simps [simp]:
  "map_err f (Inl e) = Inl (f e)"
  "map_err f (Inr a) = Inr a"
  by (simp_all add: map_err_def)

lemma map_err_Inr_iff: "map_err f r = Inr a \<longleftrightarrow> r = Inr a"
  by (cases r) simp_all

section \<open>Operations that change a state and may fail\<close>

text \<open>A method of \<open>&self\<close> that returns a \<open>Result\<close>: the state it leaves and what it returns. The
  \<open>?\<close> operator is \<open>sr_bind\<close>, which keeps the effects made before the error.\<close>

type_synonym ('s, 'e, 'a) state_result = "'s \<Rightarrow> 's \<times> ('e, 'a) result"

definition sr_return :: "'a \<Rightarrow> ('s, 'e, 'a) state_result" where
  "sr_return a = (\<lambda>s. (s, Inr a))"

definition sr_throw :: "'e \<Rightarrow> ('s, 'e, 'a) state_result" where
  "sr_throw e = (\<lambda>s. (s, Inl e))"

definition sr_lift :: "('e, 'a) result \<Rightarrow> ('s, 'e, 'a) state_result" where
  "sr_lift r = (\<lambda>s. (s, r))"

definition sr_bind :: "('s, 'e, 'a) state_result \<Rightarrow> ('a \<Rightarrow> ('s, 'e, 'b) state_result) \<Rightarrow> ('s, 'e, 'b) state_result" where
  "sr_bind m f = (\<lambda>s. case m s of (s', Inl e) \<Rightarrow> (s', Inl e) | (s', Inr a) \<Rightarrow> f a s')"

lemma sr_simps [simp]:
  "sr_return a s = (s, Inr a)"
  "sr_throw e s = (s, Inl e)"
  "sr_lift r s = (s, r)"
  by (simp_all add: sr_return_def sr_throw_def sr_lift_def)

lemma sr_bind_Inr: "m s = (s', Inr a) \<Longrightarrow> sr_bind m f s = f a s'"
  by (simp add: sr_bind_def)

lemma sr_bind_Inl: "m s = (s', Inl e) \<Longrightarrow> sr_bind m f s = (s', Inl e)"
  by (simp add: sr_bind_def)

lemma sr_bind_split:
  "P (sr_bind m f s) \<longleftrightarrow>
     (\<forall>s' e. m s = (s', Inl e) \<longrightarrow> P (s', Inl e)) \<and> (\<forall>s' a. m s = (s', Inr a) \<longrightarrow> P (f a s'))"
  by (auto simp: sr_bind_def split: prod.splits sum.splits)

section \<open>Trimming strings\<close>

text \<open>\<open>str::trim\<close> cuts white space off both ends: the UTF-8 encodings of the characters with the
  Unicode property \<open>White_Space\<close>.\<close>

definition white_space :: "string list" where
  "white_space =
     map (\<lambda>n. [char_of (n :: nat)]) [9, 10, 11, 12, 13, 32]
     @ [[CHR 0xC2, CHR 0x85], [CHR 0xC2, CHR 0xA0], [CHR 0xE1, CHR 0x9A, CHR 0x80]]
     @ map (\<lambda>n. [CHR 0xE2, CHR 0x80, char_of (n :: nat)])
         [128, 129, 130, 131, 132, 133, 134, 135, 136, 137, 138, 168, 169, 175]
     @ [[CHR 0xE2, CHR 0x81, CHR 0x9F], [CHR 0xE3, CHR 0x80, CHR 0x80]]"

function trim_start :: "string list \<Rightarrow> string \<Rightarrow> string" where
  "trim_start ws s =
     (case find (\<lambda>w. w \<noteq> [] \<and> prefix w s) ws of
        None \<Rightarrow> s
      | Some w \<Rightarrow> trim_start ws (drop (length w) s))"
  by pat_completeness auto

termination
  by (relation "measure (\<lambda>(ws, s). length s)") (auto simp: find_Some_iff prefix_def)

declare trim_start.simps [simp del]

definition trim :: "string \<Rightarrow> string" where
  "trim s = rev (trim_start (map rev white_space) (rev (trim_start white_space s)))"

section \<open>Splitting strings\<close>

text \<open>\<open>s.split(c)\<close>: the pieces between the separators, always at least one.\<close>

fun split_on :: "char \<Rightarrow> string \<Rightarrow> string list" where
  "split_on c [] = [[]]"
| "split_on c (x # xs) =
     (if x = c then [] # split_on c xs
      else (case split_on c xs of [] \<Rightarrow> [[x]] | p # ps \<Rightarrow> (x # p) # ps))"

fun join_on :: "char \<Rightarrow> string list \<Rightarrow> string" where
  "join_on c [] = []"
| "join_on c [p] = p"
| "join_on c (p # q # ps) = p @ c # join_on c (q # ps)"

lemma split_on_not_Nil [simp]: "split_on c s \<noteq> []"
  by (induction s) (auto split: list.splits)

lemma join_split_on [simp]: "join_on c (split_on c s) = s"
proof (induction s)
  case Nil
  then show ?case by simp
next
  case (Cons x xs)
  obtain p ps where p: "split_on c xs = p # ps"
    using split_on_not_Nil by (meson neq_Nil_conv)
  show ?case
  proof (cases "x = c")
    case True
    then show ?thesis using Cons.IH p by simp
  next
    case False
    then show ?thesis using Cons.IH p by (cases ps) simp_all
  qed
qed

lemma split_on_inj: "split_on c s = split_on c t \<Longrightarrow> s = t"
  by (metis join_split_on)

lemma split_on_no_sep: "c \<notin> set s \<Longrightarrow> split_on c s = [s]"
  by (induction s) auto

lemma split_on_append_sep:
  "split_on c (s @ c # t) = split_on c s @ split_on c t"
proof (induction s)
  case Nil
  then show ?case by simp
next
  case (Cons x xs)
  obtain p ps where "split_on c xs = p # ps"
    using split_on_not_Nil by (meson neq_Nil_conv)
  then show ?case using Cons.IH by simp
qed

lemma split_on_piece_no_sep: "p \<in> set (split_on c s) \<Longrightarrow> c \<notin> set p"
proof (induction s arbitrary: p)
  case Nil
  then show ?case by simp
next
  case (Cons x xs)
  obtain q qs where q: "split_on c xs = q # qs"
    using split_on_not_Nil by (meson neq_Nil_conv)
  from Cons.IH have "\<forall>r \<in> set (q # qs). c \<notin> set r" using q by auto
  then show ?case using Cons.prems q by (auto split: if_splits)
qed

lemma length_split_on: "length (split_on c s) = Suc (count_list s c)"
proof (induction s)
  case Nil
  then show ?case by simp
next
  case (Cons x xs)
  then show ?case by (cases "split_on c xs") (auto split: if_splits)
qed

section \<open>Decimal numerals\<close>

text \<open>\<open>format!("{}", n)\<close> on an unsigned integer.\<close>

definition digit_char :: "nat \<Rightarrow> char" where
  "digit_char d = char_of (48 + d)"

fun show_nat :: "nat \<Rightarrow> string" where
  "show_nat n = (if n < 10 then [digit_char n] else show_nat (n div 10) @ [digit_char (n mod 10)])"

declare show_nat.simps [simp del]

definition read_nat :: "string \<Rightarrow> nat" where
  "read_nat s = foldl (\<lambda>acc c. acc * 10 + (of_char c - 48)) 0 s"

lemma of_char_digit: "d < 10 \<Longrightarrow> (of_char (digit_char d) :: nat) = 48 + d"
  by (simp add: digit_char_def)

lemma read_show_nat [simp]: "read_nat (show_nat n) = n"
proof (induction n rule: show_nat.induct)
  case (1 n)
  show ?case
  proof (cases "n < 10")
    case True
    then show ?thesis by (simp add: show_nat.simps [of n] read_nat_def of_char_digit)
  next
    case False
    then have "read_nat (show_nat n) = read_nat (show_nat (n div 10)) * 10 + n mod 10"
      by (simp add: show_nat.simps [of n] read_nat_def of_char_digit)
    then show ?thesis using 1 False by simp
  qed
qed

lemma show_nat_inj: "show_nat m = show_nat n \<longleftrightarrow> m = n"
  by (metis read_show_nat)

lemma show_nat_not_Nil [simp]: "show_nat n \<noteq> []"
  by (subst show_nat.simps) simp

lemma show_nat_digits: "c \<in> set (show_nat n) \<Longrightarrow> 48 \<le> (of_char c :: nat) \<and> (of_char c :: nat) \<le> 57"
proof (induction n rule: show_nat.induct)
  case (1 n)
  then show ?case
    by (cases "n < 10") (auto simp: show_nat.simps [of n] of_char_digit)
qed

section \<open>Hash maps\<close>

type_synonym ('k, 'v) hmap = "('k \<times> 'v) list"

named_theorems hm_simps

definition hm_wf :: "('k, 'v) hmap \<Rightarrow> bool" where
  "hm_wf m = distinct (map fst m)"

definition hm_get :: "('k, 'v) hmap \<Rightarrow> 'k \<Rightarrow> 'v option" where
  "hm_get m k = map_of m k"

definition hm_insert :: "'k \<Rightarrow> 'v \<Rightarrow> ('k, 'v) hmap \<Rightarrow> ('k, 'v) hmap" where
  "hm_insert k v m = AList.update k v m"

definition hm_remove :: "'k \<Rightarrow> ('k, 'v) hmap \<Rightarrow> ('k, 'v) hmap" where
  "hm_remove k m = AList.delete k m"

definition hm_retain :: "('k \<Rightarrow> bool) \<Rightarrow> ('k, 'v) hmap \<Rightarrow> ('k, 'v) hmap" where
  "hm_retain P m = filter (\<lambda>(k, _). P k) m"

definition hm_keys :: "('k, 'v) hmap \<Rightarrow> 'k list" where
  "hm_keys m = map fst m"

definition hm_values :: "('k, 'v) hmap \<Rightarrow> 'v list" where
  "hm_values m = map snd m"

text \<open>The contract of the map operations: what a lookup returns after each operation and that
  each operation keeps the keys distinct.\<close>

locale hash_map =
  fixes wf :: "'m \<Rightarrow> bool"
    and get :: "'m \<Rightarrow> 'k \<Rightarrow> 'v option"
    and ins :: "'k \<Rightarrow> 'v \<Rightarrow> 'm \<Rightarrow> 'm"
    and rem :: "'k \<Rightarrow> 'm \<Rightarrow> 'm"
    and ret :: "('k \<Rightarrow> bool) \<Rightarrow> 'm \<Rightarrow> 'm"
    and empty :: 'm
  assumes get_empty: "get empty k = None"
    and get_ins: "get (ins k v m) k' = (if k' = k then Some v else get m k')"
    and get_rem: "wf m \<Longrightarrow> get (rem k m) k' = (if k' = k then None else get m k')"
    and get_ret: "wf m \<Longrightarrow> get (ret P m) k' = (if P k' then get m k' else None)"
    and wf_empty: "wf empty"
    and wf_ins: "wf m \<Longrightarrow> wf (ins k v m)"
    and wf_rem: "wf m \<Longrightarrow> wf (rem k m)"
    and wf_ret: "wf m \<Longrightarrow> wf (ret P m)"
begin

lemma get_rem_ins:
  assumes "wf m"
  shows "get (rem k (ins k v m)) k' = (if k' = k then None else get m k')"
  using assms by (simp add: get_rem get_ins wf_ins)

lemma get_ret_ret:
  assumes "wf m"
  shows "get (ret P (ret Q m)) k = get (ret (\<lambda>x. P x \<and> Q x) m) k"
  using assms by (simp add: get_ret wf_ret)

lemma ret_frame:
  assumes "wf m" and "P k"
  shows "get (ret P m) k = get m k"
  using assms by (simp add: get_ret)

end

lemma hm_get_retain:
  assumes "hm_wf m"
  shows "hm_get (hm_retain P m) k = (if P k then hm_get m k else None)"
  using assms
  by (induction m) (auto simp: hm_wf_def hm_get_def hm_retain_def map_of_eq_None_iff)

lemma hm_wf_retain: "hm_wf m \<Longrightarrow> hm_wf (hm_retain P m)"
  by (simp add: hm_wf_def hm_retain_def distinct_map_filter)

interpretation hm: hash_map hm_wf hm_get hm_insert hm_remove hm_retain "[]"
proof unfold_locales
  fix k k' :: 'a and v :: 'b and m :: "('a, 'b) hmap"
  show "hm_get (hm_insert k v m) k' = (if k' = k then Some v else hm_get m k')"
    by (simp add: hm_get_def hm_insert_def update_conv')
  show "hm_get (hm_remove k m) k' = (if k' = k then None else hm_get m k')"
    by (simp add: hm_get_def hm_remove_def delete_conv')
qed (simp_all add: hm_get_def hm_wf_def hm_insert_def hm_remove_def distinct_update
    distinct_delete hm_get_retain [unfolded hm_get_def hm_wf_def]
    hm_wf_retain [unfolded hm_wf_def])

lemmas hm_laws [hm_simps] = hm.get_empty hm.get_ins hm.get_rem hm.get_ret
  hm.wf_empty hm.wf_ins hm.wf_rem hm.wf_ret

lemma hm_get_Nil [simp]: "hm_get [] k = None"
  by (simp add: hm_get_def)

lemma hm_get_in_set:
  "hm_wf m \<Longrightarrow> hm_get m k = Some v \<longleftrightarrow> (k, v) \<in> set m"
  by (simp add: hm_wf_def hm_get_def)

lemma hm_get_None: "hm_get m k = None \<longleftrightarrow> k \<notin> set (hm_keys m)"
  by (simp add: hm_get_def hm_keys_def map_of_eq_None_iff)

lemma hm_get_map_values:
  "hm_get (map (\<lambda>(k, v). (k, f k v)) m) k = map_option (f k) (hm_get m k)"
  by (induction m) (auto simp: hm_get_def)

lemma hm_wf_map_values: "hm_wf (map (\<lambda>(k, v). (k, f k v)) m) = hm_wf m"
  by (simp add: hm_wf_def comp_def case_prod_beta)

text \<open>\<open>PartialEq\<close> of a \<open>HashMap\<close>: as many entries, and each entry of the first is one of the second.\<close>

definition hm_eq :: "('v \<Rightarrow> 'v \<Rightarrow> bool) \<Rightarrow> ('k, 'v) hmap \<Rightarrow> ('k, 'v) hmap \<Rightarrow> bool" where
  "hm_eq eq m m' \<longleftrightarrow> length m = length m'
     \<and> list_all (\<lambda>(k, v). case hm_get m' k of Some v' \<Rightarrow> eq v v' | None \<Rightarrow> False) m"

lemma hm_eq_refl:
  assumes "hm_wf m" and "\<And>v. v \<in> set (hm_values m) \<Longrightarrow> eq v v"
  shows "hm_eq eq m m"
proof -
  have "hm_get m k = Some v" if "(k, v) \<in> set m" for k v using assms(1) that by (simp add: hm_get_in_set)
  then show ?thesis using assms(2) by (fastforce simp: hm_eq_def list_all_iff hm_values_def)
qed

end
