(* ===== verification/Event_Pattern.thy ===== *)
theory Event_Pattern
  imports Prelude
begin

text \<open>
  Event identifiers and subscription patterns of the kernel event bus
  (\<^verbatim>\<open>kernel/buckyos-api/src/kevent_client.rs\<close>): validation, matching of an identifier
  against a pattern, containment of one pattern in another and normalisation of a pattern
  set. The meaning of a pattern is given separately as a language of segment lists,
  \<open>pattern_lang\<close>, and the executable matcher, the containment test and the normaliser are
  proved against it.
\<close>

section \<open>Errors and events\<close>

datatype kevent_error =
    InvalidEventId string
  | InvalidPattern string
  | DaemonUnavailable string
  | TimerInvalidTarget string
  | TimerNotFound string
  | NotSupported string
  | ReaderClosed string
  | Internal string

type_synonym 'a kevent_result = "(kevent_error, 'a) result"

fun code :: "kevent_error \<Rightarrow> string" where
  "code (InvalidEventId _) = ''INVALID_EVENTID''"
| "code (InvalidPattern _) = ''INVALID_PATTERN''"
| "code (DaemonUnavailable _) = ''DAEMON_UNAVAILABLE''"
| "code (TimerInvalidTarget _) = ''TIMER_INVALID_TARGET''"
| "code (TimerNotFound _) = ''TIMER_NOT_FOUND''"
| "code (NotSupported _) = ''NOT_SUPPORTED''"
| "code (ReaderClosed _) = ''READER_CLOSED''"
| "code (Internal _) = ''INTERNAL''"

text \<open>The payload of an event is a JSON value; nothing in the bus looks inside it, so its type
  is a parameter.\<close>

record 'd event =
  eventid :: string
  source_node :: string
  source_pid :: u32
  ingress_node :: "string option"
  timestamp :: u64
  data :: 'd

section \<open>Matching\<close>

definition is_global_eventid :: "string \<Rightarrow> bool" where
  "is_global_eventid e = (case e of [] \<Rightarrow> False | c # _ \<Rightarrow> c = CHR ''/'')"

definition is_global_pattern :: "string \<Rightarrow> bool" where
  "is_global_pattern p = (case p of [] \<Rightarrow> False | c # _ \<Rightarrow> c = CHR ''/'')"

text \<open>\<open>path.split('/').skip(1)\<close>\<close>

definition segments :: "string \<Rightarrow> string list" where
  "segments path = tl (split_on CHR ''/'' path)"

fun match_global_segments :: "string list \<Rightarrow> string list \<Rightarrow> bool" where
  "match_global_segments [] event = (event = [])"
| "match_global_segments (p # ps) event =
     (if p = ''**'' then
        (if match_global_segments ps event then True
         else (case event of [] \<Rightarrow> False | _ # es \<Rightarrow> match_global_segments (p # ps) es))
      else if p = ''*'' then
        (case event of [] \<Rightarrow> False | _ # es \<Rightarrow> match_global_segments ps es)
      else
        (case event of [] \<Rightarrow> False
         | e # es \<Rightarrow> (if p \<noteq> e then False else match_global_segments ps es)))"

definition match_global_pattern :: "string \<Rightarrow> string \<Rightarrow> bool" where
  "match_global_pattern pattern eid =
     (if \<not> is_global_pattern pattern \<or> \<not> is_global_eventid eid then False
      else match_global_segments (segments pattern) (segments eid))"

fun match_event_patterns :: "string list \<Rightarrow> string \<Rightarrow> bool" where
  "match_event_patterns [] eid = False"
| "match_event_patterns (pattern # patterns) eid =
     (if is_global_pattern pattern then
        (if is_global_eventid eid \<and> match_global_pattern pattern eid then True
         else match_event_patterns patterns eid)
      else if pattern = eid then True
      else match_event_patterns patterns eid)"

section \<open>Validation\<close>

definition is_valid_name_char :: "char \<Rightarrow> bool" where
  "is_valid_name_char ch =
     (let n = of_char ch :: nat in
      (48 \<le> n \<and> n \<le> 57) \<or> (65 \<le> n \<and> n \<le> 90) \<or> (97 \<le> n \<and> n \<le> 122)
      \<or> ch = CHR ''_'' \<or> ch = CHR ''-'' \<or> ch = CHR ''.'')"

fun validate_segments :: "bool \<Rightarrow> nat \<Rightarrow> string list \<Rightarrow> (string, unit) result" where
  "validate_segments allow_wildcard depth [] = Inr ()"
| "validate_segments allow_wildcard depth (seg # segs) =
     (if seg = [] then Inl ''global id/pattern contains empty segment''
      else if depth + 1 > 8 then Inl ''global id/pattern depth must be <= 8''
      else if allow_wildcard \<and> (seg = ''*'' \<or> seg = ''**'') then
        validate_segments allow_wildcard (depth + 1) segs
      else if CHR ''*'' \<in> set seg then
        Inl (''wildcard must be a full segment '' @ [CHR 0x27] @ ''*'' @ [CHR 0x27] @ '' or ''
             @ [CHR 0x27] @ ''**'' @ [CHR 0x27])
      else if \<not> list_all is_valid_name_char seg then
        Inl (''invalid segment '' @ [CHR 0x27] @ seg @ [CHR 0x27])
      else validate_segments allow_wildcard (depth + 1) segs)"

definition validate_global_path :: "string \<Rightarrow> bool \<Rightarrow> (string, unit) result" where
  "validate_global_path path allow_wildcard =
     (if \<not> is_global_pattern path then
        Inl (''global id/pattern must start with '' @ [CHR 0x27] @ ''/'' @ [CHR 0x27])
      else if length path > 256 then Inl ''global id/pattern length must be <= 256''
      else if path = ''/'' then
        Inl (''global id/pattern must not be '' @ [CHR 0x27] @ ''/'' @ [CHR 0x27])
      else validate_segments allow_wildcard 0 (segments path))"

definition validate_local_name :: "string \<Rightarrow> bool \<Rightarrow> (string, unit) result" where
  "validate_local_name name allow_wildcard =
     (if length name > 128 then Inl ''local id/pattern length must be <= 128''
      else if CHR ''/'' \<in> set name then
        Inl (''local id/pattern must not contain '' @ [CHR 0x27] @ ''/'' @ [CHR 0x27])
      else if \<not> list_all is_valid_name_char name then Inl ''local id/pattern has invalid char''
      else Inr ())"

definition validate_eventid :: "string \<Rightarrow> unit kevent_result" where
  "validate_eventid eid =
     (if eid = [] then Inl (InvalidEventId ''empty eventid'')
      else if is_global_eventid eid then map_err InvalidEventId (validate_global_path eid False)
      else map_err InvalidEventId (validate_local_name eid False))"

definition validate_pattern :: "string \<Rightarrow> unit kevent_result" where
  "validate_pattern pattern =
     (if pattern = [] then Inl (InvalidPattern ''empty pattern'')
      else if is_global_pattern pattern then
        map_err InvalidPattern (validate_global_path pattern True)
      else
        rbind (map_err InvalidPattern (validate_local_name pattern True)) (\<lambda>_.
          if CHR ''*'' \<in> set pattern then
            Inl (InvalidPattern ''local pattern does not support wildcard'')
          else Inr ()))"

section \<open>Containment and normalisation\<close>

fun pattern_subsumes_segments :: "string list \<Rightarrow> string list \<Rightarrow> bool" where
  "pattern_subsumes_segments [] [] = True"
| "pattern_subsumes_segments [] (n # ns) = False"
| "pattern_subsumes_segments (b # bs) [] = list_all (\<lambda>s. s = ''**'') (b # bs)"
| "pattern_subsumes_segments (b # bs) (n # ns) =
     (if b = ''**'' \<and> n = ''**'' then pattern_subsumes_segments (b # bs) ns
      else if b = ''**'' then
        (if pattern_subsumes_segments bs (n # ns) then True
         else pattern_subsumes_segments (b # bs) ns)
      else if n = ''**'' then False
      else if b = ''*'' then pattern_subsumes_segments bs ns
      else if n = ''*'' then False
      else if b \<noteq> n then False
      else pattern_subsumes_segments bs ns)"

definition pattern_subsumes :: "string \<Rightarrow> string \<Rightarrow> bool" where
  "pattern_subsumes broad narrow =
     (if broad = narrow then True
      else if is_global_pattern broad \<noteq> is_global_pattern narrow then False
      else if \<not> is_global_pattern broad then False
      else pattern_subsumes_segments (segments broad) (segments narrow))"

definition normalize_step :: "string list \<Rightarrow> string \<Rightarrow> string list" where
  "normalize_step out p =
     (if list_ex (\<lambda>kept. pattern_subsumes kept p) out then out
      else filter (\<lambda>kept. \<not> pattern_subsumes p kept) out @ [p])"

definition normalize_patterns :: "string list \<Rightarrow> string list" where
  "normalize_patterns patterns = foldl normalize_step [] patterns"

section \<open>The language of a pattern\<close>

definition segment_lang :: "string \<Rightarrow> string list set" where
  "segment_lang p =
     (if p = ''**'' then UNIV else if p = ''*'' then {[x] | x. True} else {[p]})"

definition lang_conc :: "'a list set \<Rightarrow> 'a list set \<Rightarrow> 'a list set" where
  "lang_conc A B = {xs @ ys | xs ys. xs \<in> A \<and> ys \<in> B}"

fun pattern_lang :: "string list \<Rightarrow> string list set" where
  "pattern_lang [] = {[]}"
| "pattern_lang (p # ps) = lang_conc (segment_lang p) (pattern_lang ps)"

lemma lang_conc_mono: "A \<subseteq> A' \<Longrightarrow> B \<subseteq> B' \<Longrightarrow> lang_conc A B \<subseteq> lang_conc A' B'"
  by (auto simp: lang_conc_def)

lemma lang_conc_UNIV_UNIV: "lang_conc UNIV (lang_conc UNIV B) = lang_conc UNIV B"
proof
  show "lang_conc UNIV (lang_conc UNIV B) \<subseteq> lang_conc UNIV B"
    by (auto simp: lang_conc_def) (metis append.assoc)
  show "lang_conc UNIV B \<subseteq> lang_conc UNIV (lang_conc UNIV B)"
    by (auto simp: lang_conc_def)
qed

lemma lang_conc_UNIV_Cons:
  "e # es \<in> lang_conc UNIV B \<longleftrightarrow> e # es \<in> B \<or> es \<in> lang_conc UNIV B"
  by (auto simp: lang_conc_def Cons_eq_append_conv)

lemma lang_conc_UNIV_absorb: "B \<subseteq> lang_conc UNIV B"
  by (auto simp: lang_conc_def)

lemma lang_conc_UNIV_Nil: "[] \<in> lang_conc UNIV B \<longleftrightarrow> [] \<in> B"
  by (simp add: lang_conc_def)

lemma pattern_lang_star: "pattern_lang (''*'' # ps) = {x # ys | x ys. ys \<in> pattern_lang ps}"
  by (auto simp: lang_conc_def segment_lang_def) (metis append_Cons append_Nil)

lemma pattern_lang_globstar: "pattern_lang (''**'' # ps) = lang_conc UNIV (pattern_lang ps)"
  by (simp add: segment_lang_def)

lemma pattern_lang_literal:
  "p \<noteq> ''*'' \<Longrightarrow> p \<noteq> ''**'' \<Longrightarrow> pattern_lang (p # ps) = {p # ys | ys. ys \<in> pattern_lang ps}"
  by (auto simp: lang_conc_def segment_lang_def)

lemmas pattern_lang_cases = pattern_lang_star pattern_lang_globstar pattern_lang_literal

lemma match_global_segments_lang:
  "match_global_segments ps es \<longleftrightarrow> es \<in> pattern_lang ps"
proof (induction ps es rule: match_global_segments.induct)
  case (1 event)
  then show ?case by simp
next
  case (2 p ps event)
  consider (glob) "p = ''**''" | (star) "p = ''*''" | (lit) "p \<noteq> ''*''" "p \<noteq> ''**''" by blast
  then show ?case
  proof cases
    case glob
    then show ?thesis
      using 2 by (cases event)
        (auto simp: pattern_lang_globstar lang_conc_UNIV_Cons lang_conc_UNIV_Nil
          simp del: pattern_lang.simps(2))
  next
    case star
    then show ?thesis
      using 2 by (cases event) (auto simp: pattern_lang_star simp del: pattern_lang.simps(2))
  next
    case lit
    then show ?thesis
      using 2 by (cases event) (auto simp: pattern_lang_literal simp del: pattern_lang.simps(2))
  qed
qed

lemma match_global_segments_Nil:
  "match_global_segments bs [] = list_all (\<lambda>s. s = ''**'') bs"
  by (induction bs) simp_all

lemma pattern_subsumes_segments_sound:
  "pattern_subsumes_segments bs ns \<Longrightarrow> pattern_lang ns \<subseteq> pattern_lang bs"
proof (induction bs ns rule: pattern_subsumes_segments.induct)
  case (3 b bs)
  then have "[] \<in> pattern_lang (b # bs)"
    using match_global_segments_Nil [of "b # bs"] by (simp only: match_global_segments_lang) simp
  then show ?case by simp
next
  case (4 b bs n ns)
  consider (both) "b = ''**''" "n = ''**''" | (glob) "b = ''**''" "n \<noteq> ''**''"
    | (star) "b = ''*''" "n \<noteq> ''**''" | (lit) "b \<noteq> ''**''" "b \<noteq> ''*''" "n = b"
    using "4.prems" by (auto split: if_splits)
  then show ?case
  proof cases
    case both
    then have "pattern_lang ns \<subseteq> lang_conc UNIV (pattern_lang bs)"
      using 4 by (simp add: segment_lang_def)
    then have "lang_conc UNIV (pattern_lang ns) \<subseteq> lang_conc UNIV (lang_conc UNIV (pattern_lang bs))"
      by (rule lang_conc_mono [OF subset_refl])
    then show ?thesis
      using both by (simp add: segment_lang_def lang_conc_UNIV_UNIV)
  next
    case glob
    show ?thesis
    proof (cases "pattern_subsumes_segments bs (n # ns)")
      case True
      then have "pattern_lang (n # ns) \<subseteq> pattern_lang bs" using "4.IH"(2) glob by blast
      also have "\<dots> \<subseteq> pattern_lang (b # bs)"
        unfolding glob(1) pattern_lang_globstar by (rule lang_conc_UNIV_absorb)
      finally show ?thesis .
    next
      case False
      then have "pattern_subsumes_segments (b # bs) ns" using "4.prems" glob by simp
      then have "pattern_lang ns \<subseteq> pattern_lang (b # bs)" using "4.IH"(3) glob False by blast
      moreover have "pattern_lang (n # ns) \<subseteq> {x # ys | x ys. ys \<in> pattern_lang ns}"
        using glob(2) by (cases "n = ''*''") (auto simp: pattern_lang_cases simp del: pattern_lang.simps(2))
      ultimately have "pattern_lang (n # ns) \<subseteq> {x # ys | x ys. ys \<in> lang_conc UNIV (pattern_lang bs)}"
        unfolding glob(1) pattern_lang_globstar by blast
      also have "\<dots> \<subseteq> pattern_lang (b # bs)"
        unfolding glob(1) pattern_lang_globstar by (auto simp: lang_conc_UNIV_Cons)
      finally show ?thesis .
    qed
  next
    case star
    then have "pattern_lang ns \<subseteq> pattern_lang bs" using "4.IH"(4) "4.prems" by simp
    then show ?thesis using star
      by (cases "n = ''*''") (auto simp: pattern_lang_cases simp del: pattern_lang.simps(2))
  next
    case lit
    then have "pattern_lang ns \<subseteq> pattern_lang bs"
      using "4.IH"(5) "4.prems" by (simp split: if_splits)
    then show ?thesis using lit
      by (auto simp: pattern_lang_cases simp del: pattern_lang.simps(2))
  qed
qed simp_all

text \<open>The containment test is exact on a narrow pattern without \<open>**\<close>: replace each \<open>*\<close> by
  a segment that the broad pattern does not mention, and the test is the matcher.\<close>

definition fill_stars :: "string \<Rightarrow> string list \<Rightarrow> string list" where
  "fill_stars x ns = map (\<lambda>s. if s = ''*'' then x else s) ns"

lemma fill_stars_in_lang:
  "''**'' \<notin> set ns \<Longrightarrow> fill_stars x ns \<in> pattern_lang ns"
proof (induction ns)
  case (Cons n ns)
  then show ?case
    by (cases "n = ''*''")
      (auto simp: fill_stars_def pattern_lang_cases simp del: pattern_lang.simps(2))
qed (simp add: fill_stars_def)

lemma match_fill_stars:
  assumes "''**'' \<notin> set ns" and "x \<notin> set bs"
  shows "match_global_segments bs (fill_stars x ns) = pattern_subsumes_segments bs ns"
  using assms
proof (induction bs ns rule: pattern_subsumes_segments.induct)
  case (3 b bs)
  show ?case by (simp only: fill_stars_def list.map match_global_segments_Nil pattern_subsumes_segments.simps)
qed (auto simp: fill_stars_def)

lemma fresh_segment: "\<exists>x :: string. x \<notin> set bs"
  using infinite_UNIV_listI ex_new_if_finite by blast

lemma pattern_subsumes_segments_complete:
  assumes "''**'' \<notin> set ns" and "pattern_lang ns \<subseteq> pattern_lang bs"
  shows "pattern_subsumes_segments bs ns"
proof -
  obtain x :: string where x: "x \<notin> set bs" using fresh_segment by blast
  have "match_global_segments bs (fill_stars x ns)"
    using fill_stars_in_lang [OF assms(1)] assms(2) by (auto simp: match_global_segments_lang)
  then show ?thesis using match_fill_stars [OF assms(1) x] by simp
qed

section \<open>Paths\<close>

definition path_of :: "string list \<Rightarrow> string" where
  "path_of segs = concat (map (\<lambda>s. CHR ''/'' # s) segs)"

lemma is_global_eventid_pattern: "is_global_eventid = is_global_pattern"
  by (simp add: is_global_eventid_def is_global_pattern_def fun_eq_iff)

lemma global_Cons: "is_global_pattern p \<longleftrightarrow> (\<exists>r. p = CHR ''/'' # r)"
  by (auto simp: is_global_pattern_def split: list.splits)

lemma segments_Cons: "segments (CHR ''/'' # r) = split_on CHR ''/'' r"
  by (simp add: segments_def)

lemma segments_not_Nil: "is_global_pattern p \<Longrightarrow> segments p \<noteq> []"
  by (auto simp: global_Cons segments_Cons)

lemma path_of_split: "CHR ''/'' # s = path_of (split_on CHR ''/'' s)"
proof (induction s)
  case Nil
  then show ?case by (simp add: path_of_def)
next
  case (Cons x xs)
  obtain p ps where p: "split_on CHR ''/'' xs = p # ps"
    using split_on_not_Nil by (meson neq_Nil_conv)
  have "xs = p @ path_of ps" using Cons.IH p by (simp add: path_of_def)
  then show ?case using p by (simp add: path_of_def)
qed

lemma path_of_segments: "is_global_pattern p \<Longrightarrow> path_of (segments p) = p"
  by (auto simp: global_Cons segments_Cons path_of_split [symmetric])

lemma segments_path_of:
  assumes "segs \<noteq> []" and "\<forall>s \<in> set segs. CHR ''/'' \<notin> set s"
  shows "segments (path_of segs) = segs"
  using assms
proof (induction segs rule: list_nonempty_induct)
  case (single x)
  then show ?case by (simp add: path_of_def segments_Cons split_on_no_sep)
next
  case (cons x xs)
  then obtain y ys where xs: "xs = y # ys" by (meson neq_Nil_conv)
  have "split_on CHR ''/'' (x @ path_of xs) = split_on CHR ''/'' x @ segments (path_of xs)"
    using xs by (simp add: path_of_def segments_Cons split_on_append_sep)
  then show ?case using cons
    by (simp add: path_of_def segments_Cons split_on_no_sep)
qed

lemma segments_inj:
  "is_global_pattern p \<Longrightarrow> is_global_pattern q \<Longrightarrow> segments p = segments q \<Longrightarrow> p = q"
  by (metis path_of_segments)

lemma is_global_path_of: "segs \<noteq> [] \<Longrightarrow> is_global_pattern (path_of segs)"
  by (cases segs) (simp_all add: path_of_def is_global_pattern_def)

section \<open>What validation accepts\<close>

definition valid_name :: "string \<Rightarrow> bool" where
  "valid_name s \<longleftrightarrow> s \<noteq> [] \<and> list_all is_valid_name_char s"

definition valid_global_eventid :: "string \<Rightarrow> bool" where
  "valid_global_eventid e \<longleftrightarrow>
     (\<exists>segs. e = path_of segs \<and> segs \<noteq> [] \<and> length segs \<le> 8 \<and> list_all valid_name segs)
     \<and> length e \<le> 256"

definition valid_global_pattern :: "string \<Rightarrow> bool" where
  "valid_global_pattern p \<longleftrightarrow>
     (\<exists>segs. p = path_of segs \<and> segs \<noteq> [] \<and> length segs \<le> 8
        \<and> list_all (\<lambda>s. s = ''*'' \<or> s = ''**'' \<or> valid_name s) segs)
     \<and> length p \<le> 256"

definition valid_local_eventid :: "string \<Rightarrow> bool" where
  "valid_local_eventid e \<longleftrightarrow> valid_name e \<and> length e \<le> 128"

lemma valid_char_not_special:
  "is_valid_name_char ch \<Longrightarrow> ch \<noteq> CHR ''*'' \<and> ch \<noteq> CHR ''/''"
  by (auto simp: is_valid_name_char_def)

lemma valid_name_no_special:
  "list_all is_valid_name_char s \<Longrightarrow> CHR ''*'' \<notin> set s \<and> CHR ''/'' \<notin> set s"
  using valid_char_not_special by (fastforce simp: list_all_iff)

lemma valid_name_not_wildcard: "valid_name s \<Longrightarrow> s \<noteq> ''*'' \<and> s \<noteq> ''**''"
  using valid_name_no_special [of s] by (auto simp: valid_name_def)

lemma validate_segments_Cons_iff:
  "validate_segments w d (seg # segs) = Inr () \<longleftrightarrow>
     d < 8 \<and> ((w \<and> (seg = ''*'' \<or> seg = ''**'')) \<or> valid_name seg)
     \<and> validate_segments w (Suc d) segs = Inr ()"
  using valid_name_no_special [of seg] valid_name_not_wildcard [of seg]
  by (auto simp: valid_name_def)

lemma validate_segments_iff:
  "validate_segments w d segs = Inr () \<longleftrightarrow>
     (segs = [] \<or> d + length segs \<le> 8)
     \<and> list_all (\<lambda>s. (w \<and> (s = ''*'' \<or> s = ''**'')) \<or> valid_name s) segs"
proof (induction segs arbitrary: d)
  case (Cons seg segs)
  show ?case
    unfolding validate_segments_Cons_iff Cons.IH by (cases segs) auto
qed simp

lemma validate_global_path_iff:
  "validate_global_path p w = Inr () \<longleftrightarrow>
     is_global_pattern p \<and> length p \<le> 256 \<and> length (segments p) \<le> 8
     \<and> list_all (\<lambda>s. (w \<and> (s = ''*'' \<or> s = ''**'')) \<or> valid_name s) (segments p)"
proof (cases "p = ''/''")
  case True
  then show ?thesis
    by (simp add: validate_global_path_def segments_def valid_name_def)
next
  case False
  then show ?thesis
    by (auto simp: validate_global_path_def validate_segments_iff dest: segments_not_Nil)
qed

lemma path_shape_iff:
  assumes "\<And>s. P s \<Longrightarrow> CHR ''/'' \<notin> set s"
  shows "(\<exists>segs. p = path_of segs \<and> segs \<noteq> [] \<and> length segs \<le> 8 \<and> list_all P segs) \<longleftrightarrow>
     is_global_pattern p \<and> length (segments p) \<le> 8 \<and> list_all P (segments p)" (is "?L \<longleftrightarrow> ?R")
proof
  assume ?L
  then obtain segs where segs: "p = path_of segs" "segs \<noteq> []" "length segs \<le> 8" "list_all P segs"
    by blast
  then have "segments p = segs"
    using assms by (simp add: segments_path_of list_all_iff)
  then show ?R using segs is_global_path_of by simp
next
  assume ?R
  then show ?L using path_of_segments segments_not_Nil by metis
qed

lemma valid_global_eventid_iff:
  "valid_global_eventid e \<longleftrightarrow> validate_global_path e False = Inr ()"
proof -
  have "CHR ''/'' \<notin> set s" if "valid_name s" for s
    using that valid_name_no_special by (auto simp: valid_name_def)
  from path_shape_iff [of valid_name e, OF this] show ?thesis
    by (auto simp: valid_global_eventid_def validate_global_path_iff)
qed

lemma valid_global_pattern_iff:
  "valid_global_pattern p \<longleftrightarrow> validate_global_path p True = Inr ()"
proof -
  have "CHR ''/'' \<notin> set s" if "s = ''*'' \<or> s = ''**'' \<or> valid_name s" for s
    using that valid_name_no_special by (auto simp: valid_name_def)
  from path_shape_iff [of "\<lambda>s. s = ''*'' \<or> s = ''**'' \<or> valid_name s" p, OF this] show ?thesis
    by (auto simp: valid_global_pattern_def validate_global_path_iff)
qed

lemma validate_local_name_iff:
  "n \<noteq> [] \<Longrightarrow> validate_local_name n w = Inr () \<longleftrightarrow> valid_local_eventid n"
  using valid_name_no_special [of n]
  by (auto simp: validate_local_name_def valid_local_eventid_def valid_name_def)

lemma valid_local_not_global: "valid_local_eventid e \<Longrightarrow> \<not> is_global_pattern e"
  using valid_name_no_special [of e]
  by (auto simp: valid_local_eventid_def valid_name_def global_Cons)

lemma validate_eventid_cases:
  "validate_eventid e = Inr () \<longleftrightarrow> valid_global_eventid e \<or> valid_local_eventid e"
proof (cases "is_global_pattern e")
  case True
  then show ?thesis
    using valid_local_not_global [of e]
    by (auto simp: validate_eventid_def is_global_eventid_pattern map_err_Inr_iff
        valid_global_eventid_iff is_global_pattern_def)
next
  case False
  then have "\<not> valid_global_eventid e"
    by (auto simp: valid_global_eventid_iff validate_global_path_iff)
  then show ?thesis
    using False validate_local_name_iff [of e]
    by (auto simp: validate_eventid_def is_global_eventid_pattern map_err_Inr_iff
        valid_local_eventid_def valid_name_def)
qed

lemma validate_pattern_cases:
  "validate_pattern p = Inr () \<longleftrightarrow> valid_global_pattern p \<or> valid_local_eventid p"
proof (cases "is_global_pattern p")
  case True
  then show ?thesis
    using valid_local_not_global [of p]
    by (auto simp: validate_pattern_def map_err_Inr_iff valid_global_pattern_iff
        is_global_pattern_def)
next
  case False
  then have "\<not> valid_global_pattern p"
    by (auto simp: valid_global_pattern_iff validate_global_path_iff)
  then show ?thesis
    using False validate_local_name_iff [of p] valid_name_no_special [of p]
    by (auto simp: validate_pattern_def map_err_Inr_iff rbind_Inr_iff
        valid_local_eventid_def valid_name_def)
qed

section \<open>Pattern sets\<close>

text \<open>What one pattern matches, and the reading of \<open>match_event_patterns\<close> as a disjunction.\<close>

definition pattern_matches :: "string \<Rightarrow> string \<Rightarrow> bool" where
  "pattern_matches p e =
     (if is_global_pattern p then is_global_eventid e \<and> segments e \<in> pattern_lang (segments p)
      else p = e)"

lemma match_event_patterns_eq:
  "match_event_patterns ps e = list_ex (\<lambda>p. pattern_matches p e) ps"
  by (induction ps)
    (auto simp: pattern_matches_def match_global_pattern_def match_global_segments_lang)

text \<open>The contract the normaliser needs of a containment test, and what it gives then: the
  matched events stay the same, no survivor contains another, and a set without containment
  is left alone.\<close>

locale containment =
  fixes sub :: "'p \<Rightarrow> 'p \<Rightarrow> bool"
    and matches :: "'p \<Rightarrow> 'e \<Rightarrow> bool"
  assumes sub_refl: "sub p p"
    and sub_sound: "sub a b \<Longrightarrow> matches b e \<Longrightarrow> matches a e"
begin

lemma step_matches:
  "list_ex (\<lambda>p. matches p e)
     (if list_ex (\<lambda>k. sub k p) out then out else filter (\<lambda>k. \<not> sub p k) out @ [p])
   \<longleftrightarrow> list_ex (\<lambda>p. matches p e) out \<or> matches p e"
  using sub_sound by (auto simp: list_ex_iff)

lemma step_antichain:
  assumes "sorted_wrt (\<lambda>a b. \<not> sub a b \<and> \<not> sub b a) out"
  shows "sorted_wrt (\<lambda>a b. \<not> sub a b \<and> \<not> sub b a)
     (if list_ex (\<lambda>k. sub k p) out then out else filter (\<lambda>k. \<not> sub p k) out @ [p])"
  using assms by (auto simp: list_ex_iff sorted_wrt_append sorted_wrt_filter)

lemma step_fresh:
  assumes "sorted_wrt (\<lambda>a b. \<not> sub a b \<and> \<not> sub b a) (out @ [p])"
  shows "(if list_ex (\<lambda>k. sub k p) out then out else filter (\<lambda>k. \<not> sub p k) out @ [p])
    = out @ [p]"
  using assms by (auto simp: list_ex_iff sorted_wrt_append filter_id_conv)

lemma antichain_distinct:
  assumes "sorted_wrt (\<lambda>a b. \<not> sub a b \<and> \<not> sub b a) out"
  shows "distinct out"
  using assms sub_refl by (induction out) auto

end

lemma pattern_subsumes_sound:
  assumes "pattern_subsumes broad narrow" and "pattern_matches narrow e"
  shows "pattern_matches broad e"
  using assms pattern_subsumes_segments_sound
  by (auto simp: pattern_subsumes_def pattern_matches_def split: if_splits)

interpretation subsume: containment pattern_subsumes pattern_matches
  by unfold_locales (simp_all add: pattern_subsumes_def pattern_subsumes_sound)

abbreviation antichain :: "string list \<Rightarrow> bool" where
  "antichain \<equiv> sorted_wrt (\<lambda>a b. \<not> pattern_subsumes a b \<and> \<not> pattern_subsumes b a)"

lemma foldl_normalize_matches:
  "list_ex (\<lambda>p. pattern_matches p e) (foldl normalize_step out ps)
   \<longleftrightarrow> list_ex (\<lambda>p. pattern_matches p e) out \<or> list_ex (\<lambda>p. pattern_matches p e) ps"
  by (induction ps arbitrary: out)
    (auto simp: normalize_step_def subsume.step_matches simp del: list_ex_append)

lemma foldl_normalize_antichain:
  "antichain out \<Longrightarrow> antichain (foldl normalize_step out ps)"
  using subsume.step_antichain
  by (induction ps arbitrary: out) (simp_all add: normalize_step_def)

lemma foldl_normalize_id:
  "antichain (out @ ps) \<Longrightarrow> foldl normalize_step out ps = out @ ps"
proof (induction ps arbitrary: out)
  case (Cons p ps)
  then have "antichain ((out @ [p]) @ ps)" by simp
  moreover have "normalize_step out p = out @ [p]"
    using Cons.prems subsume.step_fresh [of out p]
    by (simp add: normalize_step_def sorted_wrt_append)
  ultimately show ?case using Cons.IH [of "out @ [p]"] by simp
qed simp

lemma set_foldl_normalize: "set (foldl normalize_step out ps) \<subseteq> set out \<union> set ps"
  by (induction ps arbitrary: out) (force simp: normalize_step_def split: if_splits)+

lemma foldl_normalize_not_Nil:
  "out \<noteq> [] \<or> ps \<noteq> [] \<Longrightarrow> foldl normalize_step out ps \<noteq> []"
proof (induction ps arbitrary: out)
  case (Cons p ps)
  have "normalize_step out p \<noteq> []"
    by (cases out) (auto simp: normalize_step_def)
  then show ?case using Cons.IH by simp
qed simp

lemma normalize_patterns_not_Nil: "ps \<noteq> [] \<Longrightarrow> normalize_patterns ps \<noteq> []"
  by (simp add: normalize_patterns_def foldl_normalize_not_Nil)

lemma set_normalize_patterns: "set (normalize_patterns ps) \<subseteq> set ps"
  using set_foldl_normalize [of "[]" ps] by (simp add: normalize_patterns_def)

lemma normalize_patterns_antichain: "antichain (normalize_patterns ps)"
  by (simp add: normalize_patterns_def foldl_normalize_antichain)

lemma match_normalize_patterns:
  "match_event_patterns (normalize_patterns ps) e = match_event_patterns ps e"
  by (simp add: match_event_patterns_eq normalize_patterns_def foldl_normalize_matches)

lemma fresh_name: "\<exists>x :: string. x \<notin> set bs \<and> CHR ''/'' \<notin> set x"
proof -
  have "inj (\<lambda>n. replicate n CHR ''a'')"
    by (rule injI) (metis length_replicate)
  then have "infinite (range (\<lambda>n. replicate n CHR ''a''))"
    by (simp add: finite_image_iff)
  then obtain x where x: "x \<in> range (\<lambda>n. replicate n CHR ''a'')" "x \<notin> set bs"
    by (meson List.finite_set finite_subset subsetI)
  then show ?thesis by auto
qed

lemma pattern_subsumes_exact:
  assumes "is_global_pattern broad" and "is_global_pattern narrow"
    and "''**'' \<notin> set (segments narrow)"
    and all: "\<And>e. pattern_matches narrow e \<Longrightarrow> pattern_matches broad e"
  shows "pattern_subsumes broad narrow"
proof -
  obtain x where x: "x \<notin> set (segments broad)" "CHR ''/'' \<notin> set x"
    using fresh_name by blast
  let ?w = "fill_stars x (segments narrow)"
  have "\<forall>s \<in> set (segments narrow). CHR ''/'' \<notin> set s"
    using split_on_piece_no_sep by (auto simp: segments_def dest: list.set_sel(2) [rotated])
  then have "\<forall>s \<in> set ?w. CHR ''/'' \<notin> set s"
    using x(2) by (auto simp: fill_stars_def)
  then have w: "segments (path_of ?w) = ?w"
    using segments_not_Nil [OF assms(2)] by (simp add: segments_path_of fill_stars_def)
  have "is_global_eventid (path_of ?w)"
    using segments_not_Nil [OF assms(2)]
    by (simp add: is_global_eventid_pattern is_global_path_of fill_stars_def)
  then have "pattern_matches narrow (path_of ?w)"
    using assms(2) fill_stars_in_lang [OF assms(3)] w by (simp add: pattern_matches_def)
  then have "?w \<in> pattern_lang (segments broad)"
    using all [of "path_of ?w"] assms(1) w by (simp add: pattern_matches_def)
  then show ?thesis
    using match_fill_stars [OF assms(3) x(1)] assms(1,2)
    by (simp add: pattern_subsumes_def match_global_segments_lang)
qed

lemma pattern_lang_literals:
  "list_all valid_name ps \<Longrightarrow> pattern_lang ps = {ps}"
  by (induction ps)
    (auto simp: pattern_lang_cases valid_name_not_wildcard simp del: pattern_lang.simps(2))

section \<open>Properties\<close>

text \<open>C12. The recursive matcher decides the language of the pattern: \<open>match_global_pattern\<close>
  accepts an identifier exactly when both strings start with a slash and the identifier's
  segments are in the language of the pattern's segments, where \<open>*\<close> is one segment and
  \<open>**\<close> any number of segments, none included.\<close>

theorem match_global_pattern_correct:
  "match_global_pattern p e \<longleftrightarrow>
     is_global_pattern p \<and> is_global_eventid e \<and> segments e \<in> pattern_lang (segments p)"
  by (auto simp: match_global_pattern_def match_global_segments_lang)

text \<open>C20. \<open>pattern_subsumes\<close> never claims too much, and is exact on narrow patterns
  without \<open>**\<close>: when it answers true every event the narrow pattern delivers is delivered by
  the broad one; and for global patterns whose narrow side has no \<open>**\<close> it answers true
  whenever that inclusion holds.\<close>

theorem pattern_subsumes_correct:
  "(pattern_subsumes broad narrow \<longrightarrow>
      (\<forall>e. match_event_patterns [narrow] e \<longrightarrow> match_event_patterns [broad] e))
   \<and> (is_global_pattern broad \<and> is_global_pattern narrow \<and> ''**'' \<notin> set (segments narrow)
      \<and> (\<forall>e. match_event_patterns [narrow] e \<longrightarrow> match_event_patterns [broad] e)
      \<longrightarrow> pattern_subsumes broad narrow)"
  using pattern_subsumes_sound pattern_subsumes_exact
  by (auto simp: match_event_patterns_eq)

theorem pattern_subsumes_correct_witness:
  "pattern_subsumes ''/a/**'' ''/a/*/c'' \<and> match_event_patterns [''/a/*/c''] ''/a/b/c''
   \<and> match_event_patterns [''/a/**''] ''/a/b/c''"
proof -
  have h: "pattern_subsumes ''/a/**'' ''/a/*/c''" by code_simp
  have m: "match_event_patterns [''/a/*/c''] ''/a/b/c''" by code_simp
  show ?thesis
    using h m pattern_subsumes_correct [of "''/a/**''" "''/a/*/c''"] by blast
qed

text \<open>C21. Normalising a subscription changes nothing a reader can observe and leaves
  nothing redundant: \<open>normalize_patterns\<close> matches exactly the same identifiers, keeps only
  patterns that were given, leaves no pattern that another one subsumes (in particular no
  duplicate), never empties a non-empty set, and is idempotent.\<close>

theorem normalize_patterns_correct:
  "match_event_patterns (normalize_patterns ps) e = match_event_patterns ps e
   \<and> set (normalize_patterns ps) \<subseteq> set ps
   \<and> distinct (normalize_patterns ps)
   \<and> (\<forall>i < length (normalize_patterns ps). \<forall>j < length (normalize_patterns ps).
        i \<noteq> j \<longrightarrow> \<not> pattern_subsumes (normalize_patterns ps ! i) (normalize_patterns ps ! j))
   \<and> (ps \<noteq> [] \<longrightarrow> normalize_patterns ps \<noteq> [])
   \<and> normalize_patterns (normalize_patterns ps) = normalize_patterns ps"
proof -
  let ?n = "normalize_patterns ps"
  note anti = normalize_patterns_antichain [of ps]
  have "\<not> pattern_subsumes (?n ! i) (?n ! j)"
    if "i < length ?n" "j < length ?n" "i \<noteq> j" for i j
    using anti that by (cases "i < j") (auto simp: sorted_wrt_iff_nth_less)
  moreover have "normalize_patterns ?n = ?n"
    using foldl_normalize_id [of "[]" ?n] anti by (simp add: normalize_patterns_def)
  ultimately show ?thesis
    using subsume.antichain_distinct [OF anti] normalize_patterns_not_Nil
    by (auto simp: match_normalize_patterns dest: set_normalize_patterns [THEN subsetD])
qed

theorem normalize_patterns_correct_witness:
  "normalize_patterns [''/sys/a'', ''/sys/**'', ''/sys/b'', ''tick'', ''tick'']
     = [''/sys/**'', ''tick'']
   \<and> match_event_patterns [''/sys/**'', ''tick''] ''/sys/b''
       = match_event_patterns [''/sys/a'', ''/sys/**'', ''/sys/b'', ''tick'', ''tick''] ''/sys/b''"
proof -
  have n: "normalize_patterns [''/sys/a'', ''/sys/**'', ''/sys/b'', ''tick'', ''tick'']
     = [''/sys/**'', ''tick'']" by code_simp
  show ?thesis
    using n normalize_patterns_correct
      [of "[''/sys/a'', ''/sys/**'', ''/sys/b'', ''tick'', ''tick'']" "''/sys/b''"] by simp
qed

text \<open>C22. Validation accepts exactly the documented grammar. An event identifier is
  accepted iff it is a path of one to eight names of at most 256 bytes, or a single name of at
  most 128 bytes; a pattern is accepted iff it is such a path where a segment may also be
  \<open>*\<close> or \<open>**\<close>, or a single name. A name is a non-empty string of ASCII letters, digits,
  underscore, dash and dot.\<close>

theorem validation_grammar:
  "(validate_eventid e = Inr () \<longleftrightarrow> valid_global_eventid e \<or> valid_local_eventid e)
   \<and> (validate_pattern p = Inr () \<longleftrightarrow> valid_global_pattern p \<or> valid_local_eventid p)"
  by (simp add: validate_eventid_cases validate_pattern_cases)

text \<open>A valid event identifier is also a valid pattern, and as a pattern it selects
  that one identifier and no other.\<close>

theorem eventid_as_pattern:
  assumes "validate_eventid e = Inr ()"
  shows "validate_pattern e = Inr () \<and> (\<forall>e'. match_event_patterns [e] e' \<longleftrightarrow> e' = e)"
proof (cases "is_global_pattern e")
  case True
  then have v: "valid_global_eventid e"
    using assms valid_local_not_global by (auto simp: validate_eventid_cases)
  then have "list_all valid_name (segments e)"
    by (simp add: valid_global_eventid_iff validate_global_path_iff)
  then have "pattern_lang (segments e) = {segments e}" by (rule pattern_lang_literals)
  moreover have "valid_global_pattern e"
    using v by (fastforce simp: valid_global_pattern_def valid_global_eventid_def list_all_iff)
  ultimately show ?thesis
    using True segments_inj [of _ e]
    by (auto simp: validate_pattern_cases match_event_patterns_eq pattern_matches_def
        is_global_eventid_pattern)
next
  case False
  then have "valid_local_eventid e"
    using assms by (auto simp: validate_eventid_cases valid_global_eventid_iff
        validate_global_path_iff)
  then show ?thesis
    using False by (auto simp: validate_pattern_cases match_event_patterns_eq pattern_matches_def)
qed

theorem eventid_as_pattern_witness:
  "validate_eventid ''/taskmgr/new/task_001'' = Inr ()
   \<and> validate_pattern ''/taskmgr/new/task_001'' = Inr ()
   \<and> (match_event_patterns [''/taskmgr/new/task_001''] ''/taskmgr/new''
        \<longleftrightarrow> ''/taskmgr/new'' = ''/taskmgr/new/task_001'')"
proof -
  have v: "validate_eventid ''/taskmgr/new/task_001'' = Inr ()" by code_simp
  note r = eventid_as_pattern [OF v]
  show ?thesis by (intro conjI v r [THEN conjunct1] r [THEN conjunct2, THEN spec])
qed

end
