(* ===== verification/Event_Ring.thy ===== *)
theory Event_Ring
  imports Prelude
begin

unbundle bit_operations_syntax

text \<open>
  The shared-memory ring buffer of the event bus
  (\<^verbatim>\<open>kernel/buckyos-api/src/kevent_ringbuffer.rs\<close>). A region mapped by every process of the
  host holds a header, a directory of sixteen entries and sixteen rings of 512 slots; each
  process owns one ring, is its only writer, and reads the rings of the others with a cursor
  per ring.

  The region, the directory entries, the rings and the slots are records over words of the
  source's widths; arrays are lists of the source's lengths. One call is one step on the
  region here; \<open>Event_Ring_Seqlock\<close> splits publishing and reading into their single loads
  and stores. The refinement relation \<open>ring_rep\<close> reads a ring as the list of all payloads
  published to it since it was activated.

  What the operating system supplies is a parameter: the mapped file, the clock
  (\<open>now_millis\<close>), the process table (\<open>is_process_alive\<close>) and, while \<open>initialize_region\<close>
  spins, what other processes do to the region. Futex waits only delay a caller and are not
  modelled.
\<close>

section \<open>Layout\<close>

definition SHM_MAGIC :: u64 where "SHM_MAGIC = 0x4255434B594F534B"
definition SHM_VERSION :: u32 where "SHM_VERSION = 2"
definition ENTRY_FREE :: u8 where "ENTRY_FREE = 0"
definition ENTRY_INIT :: u8 where "ENTRY_INIT = 1"
definition ENTRY_READY :: u8 where "ENTRY_READY = 2"
definition MAX_RINGS :: nat where "MAX_RINGS = 16"
definition RING_CAPACITY :: nat where "RING_CAPACITY = 512"
definition SLOT_DATA_SIZE :: nat where "SLOT_DATA_SIZE = 2048"
definition DIRTY_WORDS :: nat where "DIRTY_WORDS = (MAX_RINGS + 63) div 64"

lemmas ring_consts = MAX_RINGS_def RING_CAPACITY_def SLOT_DATA_SIZE_def DIRTY_WORDS_def
lemmas entry_consts = ENTRY_FREE_def ENTRY_INIT_def ENTRY_READY_def

record shared_header =
  magic :: u64
  version :: u32
  max_rings :: u32
  ring_capacity :: u32
  slot_data_size :: u32
  init_lock :: u8
  epoch :: u64
  notify_seq :: u64
  dirty_mask :: "u64 list"

record ring_directory_entry =
  entry_state :: u8
  owner_pid :: u32
  generation :: u64
  last_heartbeat_ms :: u64
  ring_offset :: u32
  ring_bytes :: u32

record ring_slot =
  slot_seq :: u64
  slot_len :: u32
  slot_payload :: bytes

record publish_ring =
  head_seq :: u64
  slots :: "ring_slot list"

record shared_region =
  header :: shared_header
  directory :: "ring_directory_entry list"
  rings :: "publish_ring list"

record ring_cursor =
  cur_generation :: u64
  read_seq :: u64

record publish_inner =
  pub_ring_id :: nat
  pub_poisoned :: bool

record consume_inner =
  con_ring_id :: nat
  cursors :: "(nat, ring_cursor) hmap"
  primed_existing_rings :: bool
  con_poisoned :: bool

record shared_ring_buffer =
  publish :: publish_inner
  consume :: consume_inner

text \<open>\<open>size_of\<close> under \<open>repr(C, align(64))\<close>: the fields in order, rounded up to 64.\<close>

definition align64 :: "nat \<Rightarrow> nat" where
  "align64 n = (n + 63) div 64 * 64"

definition size_of_header :: nat where
  "size_of_header = align64 (8 + 4 + 4 + 4 + 4 + 1 + 7 + 8 + 8 + 8 * DIRTY_WORDS)"

definition size_of_entry :: nat where
  "size_of_entry = align64 (1 + 3 + 4 + 8 + 8 + 4 + 4)"

definition size_of_slot :: nat where
  "size_of_slot = align64 (8 + 4 + 4 + SLOT_DATA_SIZE)"

definition size_of_ring :: nat where
  "size_of_ring = align64 (8 + 56 + RING_CAPACITY * size_of_slot)"

definition size_of_region :: nat where
  "size_of_region = size_of_header + MAX_RINGS * size_of_entry + MAX_RINGS * size_of_ring"

lemmas size_defs = size_of_region_def size_of_ring_def size_of_slot_def size_of_entry_def
  size_of_header_def align64_def ring_consts

section \<open>Initialisation\<close>

definition header_matches :: "shared_region \<Rightarrow> bool" where
  "header_matches region =
     (magic (header region) = SHM_MAGIC
      \<and> version (header region) = SHM_VERSION
      \<and> max_rings (header region) = of_nat MAX_RINGS
      \<and> ring_capacity (header region) = of_nat RING_CAPACITY
      \<and> slot_data_size (header region) = of_nat SLOT_DATA_SIZE)"

definition zero_slot :: ring_slot where
  "zero_slot = \<lparr>slot_seq = 0, slot_len = 0, slot_payload = replicate SLOT_DATA_SIZE 0\<rparr>"

definition zero_ring :: publish_ring where
  "zero_ring = \<lparr>head_seq = 0, slots = replicate RING_CAPACITY zero_slot\<rparr>"

definition zero_entry :: ring_directory_entry where
  "zero_entry = \<lparr>entry_state = 0, owner_pid = 0, generation = 0, last_heartbeat_ms = 0,
     ring_offset = 0, ring_bytes = 0\<rparr>"

definition zero_header :: shared_header where
  "zero_header = \<lparr>magic = 0, version = 0, max_rings = 0, ring_capacity = 0, slot_data_size = 0,
     init_lock = 0, epoch = 0, notify_seq = 0, dirty_mask = replicate DIRTY_WORDS 0\<rparr>"

definition zero_region :: shared_region where
  "zero_region = \<lparr>header = zero_header, directory = replicate MAX_RINGS zero_entry,
     rings = replicate MAX_RINGS zero_ring\<rparr>"

definition reset_entry :: "nat \<Rightarrow> ring_directory_entry \<Rightarrow> ring_directory_entry" where
  "reset_entry idx e = e\<lparr>entry_state := ENTRY_FREE, owner_pid := 0, generation := 0,
     last_heartbeat_ms := 0,
     ring_offset := of_nat (size_of_header + MAX_RINGS * size_of_entry + idx * size_of_ring),
     ring_bytes := of_nat size_of_ring\<rparr>"

definition reset_region :: "shared_region \<Rightarrow> shared_region" where
  "reset_region region =
     (let z = zero_region in
      z\<lparr>header := (header z)\<lparr>magic := SHM_MAGIC, version := SHM_VERSION,
            max_rings := of_nat MAX_RINGS, ring_capacity := of_nat RING_CAPACITY,
            slot_data_size := of_nat SLOT_DATA_SIZE, epoch := 1, notify_seq := 0\<rparr>,
        directory := map (\<lambda>(i, e). reset_entry i e) (enumerate 0 (directory z))\<rparr>)"

text \<open>The spin loop: after each yield the region is what the environment left (\<open>env i\<close> is the
  effect of the other processes during the \<open>i\<close>-th yield).\<close>

fun spin_until_ready :: "(nat \<Rightarrow> shared_region \<Rightarrow> shared_region) \<Rightarrow> nat \<Rightarrow> nat
    \<Rightarrow> shared_region \<Rightarrow> shared_region \<times> bool" where
  "spin_until_ready env 0 i region = (region, False)"
| "spin_until_ready env (Suc n) i region =
     (let region = env i region in
      if header_matches region then (region, True)
      else spin_until_ready env n (Suc i) region)"

definition unlock_init :: "shared_region \<Rightarrow> shared_region" where
  "unlock_init region = region\<lparr>header := (header region)\<lparr>init_lock := 0\<rparr>\<rparr>"

definition initialize_region_if_needed ::
    "(nat \<Rightarrow> shared_region \<Rightarrow> shared_region) \<Rightarrow> shared_region \<Rightarrow> shared_region" where
  "initialize_region_if_needed env region =
     (if header_matches region then region
      else if init_lock (header region) = 0 then
        (let region = region\<lparr>header := (header region)\<lparr>init_lock := 1\<rparr>\<rparr>
         in unlock_init (reset_region region))
      else
        (case spin_until_ready env 2000 0 region of
           (region, True) \<Rightarrow> region
         | (region, False) \<Rightarrow> unlock_init (reset_region region)))"

section \<open>Ring allocation\<close>

definition activate_entry :: "u64 \<Rightarrow> u32 \<Rightarrow> ring_directory_entry \<Rightarrow> ring_directory_entry" where
  "activate_entry now pid e = e\<lparr>owner_pid := pid, last_heartbeat_ms := now,
     generation := generation e + 1, entry_state := ENTRY_READY\<rparr>"

definition clear_slot :: "ring_slot \<Rightarrow> ring_slot" where
  "clear_slot s = s\<lparr>slot_seq := 0, slot_len := 0\<rparr>"

definition clear_ring :: "publish_ring \<Rightarrow> publish_ring" where
  "clear_ring r = r\<lparr>head_seq := 0, slots := map clear_slot (slots r)\<rparr>"

definition activate_ring :: "u64 \<Rightarrow> shared_region \<Rightarrow> nat \<Rightarrow> u32 \<Rightarrow> shared_region" where
  "activate_ring now region ring_id pid =
     region\<lparr>rings := (rings region)[ring_id := clear_ring (rings region ! ring_id)],
            directory := (directory region)
              [ring_id := activate_entry now pid (directory region ! ring_id)]\<rparr>"

text \<open>\<open>compare_exchange\<close> on the state of a directory entry.\<close>

definition cas_entry_state :: "nat \<Rightarrow> u8 \<Rightarrow> u8 \<Rightarrow> shared_region \<Rightarrow> shared_region option" where
  "cas_entry_state i expected new region =
     (if entry_state (directory region ! i) = expected
      then Some (region\<lparr>directory := (directory region)
             [i := (directory region ! i)\<lparr>entry_state := new\<rparr>]\<rparr>)
      else None)"

fun allocate_free :: "u64 \<Rightarrow> u32 \<Rightarrow> nat list \<Rightarrow> shared_region
    \<Rightarrow> (shared_region \<times> nat) option" where
  "allocate_free now pid [] region = None"
| "allocate_free now pid (i # is) region =
     (case cas_entry_state i ENTRY_FREE ENTRY_INIT region of
        Some region' \<Rightarrow> Some (activate_ring now region' i pid, i)
      | None \<Rightarrow> allocate_free now pid is region)"

fun allocate_reclaim :: "(u32 \<Rightarrow> bool) \<Rightarrow> u64 \<Rightarrow> u32 \<Rightarrow> nat list \<Rightarrow> shared_region
    \<Rightarrow> (shared_region \<times> nat) option" where
  "allocate_reclaim is_process_alive now pid [] region = None"
| "allocate_reclaim is_process_alive now pid (i # is) region =
     (let entry = directory region ! i; state = entry_state entry; owner = owner_pid entry in
      if state \<noteq> ENTRY_READY \<and> state \<noteq> ENTRY_INIT then
        allocate_reclaim is_process_alive now pid is region
      else if owner \<noteq> 0 \<and> owner \<noteq> pid \<and> is_process_alive owner then
        allocate_reclaim is_process_alive now pid is region
      else
        (case cas_entry_state i state ENTRY_INIT region of
           Some region' \<Rightarrow> Some (activate_ring now region' i pid, i)
         | None \<Rightarrow> allocate_reclaim is_process_alive now pid is region))"

fun allocate_own :: "u64 \<Rightarrow> u32 \<Rightarrow> nat list \<Rightarrow> shared_region
    \<Rightarrow> (shared_region \<times> nat) option" where
  "allocate_own now pid [] region = None"
| "allocate_own now pid (i # is) region =
     (if entry_state (directory region ! i) = ENTRY_READY
         \<and> owner_pid (directory region ! i) = pid then
        (case cas_entry_state i ENTRY_READY ENTRY_INIT region of
           Some region' \<Rightarrow> Some (activate_ring now region' i pid, i)
         | None \<Rightarrow> allocate_own now pid is region)
      else allocate_own now pid is region)"

definition allocate_ring :: "(u32 \<Rightarrow> bool) \<Rightarrow> u64 \<Rightarrow> shared_region \<Rightarrow> u32
    \<Rightarrow> (shared_region \<times> nat) option" where
  "allocate_ring is_process_alive now region pid =
     (case allocate_free now pid [0..<MAX_RINGS] region of
        Some r \<Rightarrow> Some r
      | None \<Rightarrow>
          (case allocate_reclaim is_process_alive now pid [0..<MAX_RINGS] region of
             Some r \<Rightarrow> Some r
           | None \<Rightarrow> allocate_own now pid [0..<MAX_RINGS] region))"

text \<open>The reclaim pass of one process, a shared access at a time, for runs in which several processes
  reclaim at once: where the loop is, and what it has seen of the entry it looks at. The stores of
  \<open>activate_ring\<close> are one step.\<close>

datatype reclaim_pc =
    Looking nat
  | SawState nat u8
  | OwnerGone nat u8
  | Swapped nat
  | Claimed nat
  | NoRing

fun reclaim_step :: "(u32 \<Rightarrow> bool) \<Rightarrow> u64 \<Rightarrow> u32 \<Rightarrow> shared_region \<times> reclaim_pc \<Rightarrow> shared_region \<times> reclaim_pc" where
  "reclaim_step is_process_alive now pid (region, Looking i) =
     (if i \<ge> MAX_RINGS then (region, NoRing)
      else
        (let state = entry_state (directory region ! i) in
         if state \<noteq> ENTRY_READY \<and> state \<noteq> ENTRY_INIT then (region, Looking (Suc i)) else (region, SawState i state)))"
| "reclaim_step is_process_alive now pid (region, SawState i state) =
     (let owner = owner_pid (directory region ! i) in
      if owner \<noteq> 0 \<and> owner \<noteq> pid \<and> is_process_alive owner then (region, Looking (Suc i)) else (region, OwnerGone i state))"
| "reclaim_step is_process_alive now pid (region, OwnerGone i state) =
     (case cas_entry_state i state ENTRY_INIT region of
        Some region' \<Rightarrow> (region', Swapped i)
      | None \<Rightarrow> (region, Looking (Suc i)))"
| "reclaim_step is_process_alive now pid (region, Swapped i) = (activate_ring now region i pid, Claimed i)"
| "reclaim_step is_process_alive now pid (region, Claimed i) = (region, Claimed i)"
| "reclaim_step is_process_alive now pid (region, NoRing) = (region, NoRing)"

text \<open>Two processes, in the order that the schedule gives: \<open>True\<close> for a step of the first.\<close>

fun race_step :: "(u32 \<Rightarrow> bool) \<Rightarrow> u64 \<times> u32 \<Rightarrow> u64 \<times> u32 \<Rightarrow> bool
    \<Rightarrow> shared_region \<times> reclaim_pc \<times> reclaim_pc \<Rightarrow> shared_region \<times> reclaim_pc \<times> reclaim_pc" where
  "race_step is_process_alive (nowA, pidA) (nowB, pidB) first (region, a, b) =
     (if first
      then (case reclaim_step is_process_alive nowA pidA (region, a) of (region', a') \<Rightarrow> (region', a', b))
      else (case reclaim_step is_process_alive nowB pidB (region, b) of (region', b') \<Rightarrow> (region', a, b')))"

definition race :: "(u32 \<Rightarrow> bool) \<Rightarrow> u64 \<times> u32 \<Rightarrow> u64 \<times> u32 \<Rightarrow> bool list
    \<Rightarrow> shared_region \<times> reclaim_pc \<times> reclaim_pc \<Rightarrow> shared_region \<times> reclaim_pc \<times> reclaim_pc" where
  "race is_process_alive A B schedule s = fold (race_step is_process_alive A B) schedule s"

text \<open>\<open>open\<close>: \<open>mapped\<close> is what creating, sizing and mapping the file gave, an error message or
  the contents of the region.\<close>

definition open_ring_buffer :: "string \<Rightarrow> (string, shared_region) result
    \<Rightarrow> (nat \<Rightarrow> shared_region \<Rightarrow> shared_region) \<Rightarrow> (u32 \<Rightarrow> bool) \<Rightarrow> u64 \<Rightarrow> u32
    \<Rightarrow> (string, shared_region \<times> shared_ring_buffer) result" where
  "open_ring_buffer path mapped env is_process_alive now pid =
     rbind mapped (\<lambda>region.
       case allocate_ring is_process_alive now (initialize_region_if_needed env region) pid of
         None \<Rightarrow> Inl (''no free ring entry in '' @ path)
       | Some (region', my_ring_id) \<Rightarrow>
           Inr (region',
             \<lparr>publish = \<lparr>pub_ring_id = my_ring_id, pub_poisoned = False\<rparr>,
              consume = \<lparr>con_ring_id = my_ring_id, cursors = [],
                primed_existing_rings = False, con_poisoned = False\<rparr>\<rparr>))"

section \<open>Publishing\<close>

text \<open>\<open>(seq as usize) & (RING_CAPACITY - 1)\<close>\<close>

definition slot_index :: "u64 \<Rightarrow> nat" where
  "slot_index seq = unat (seq AND (of_nat RING_CAPACITY - 1))"

definition upd_slot :: "nat \<Rightarrow> (ring_slot \<Rightarrow> ring_slot) \<Rightarrow> publish_ring \<Rightarrow> publish_ring" where
  "upd_slot i f r = r\<lparr>slots := (slots r)[i := f (slots r ! i)]\<rparr>"

text \<open>The stores of one publication, in program order.\<close>

definition store_invalid :: "ring_slot \<Rightarrow> ring_slot" where
  "store_invalid s = s\<lparr>slot_seq := 0\<rparr>"

definition store_payload :: "bytes \<Rightarrow> ring_slot \<Rightarrow> ring_slot" where
  "store_payload payload s = s\<lparr>slot_payload := payload @ drop (length payload) (slot_payload s)\<rparr>"

definition store_len :: "nat \<Rightarrow> ring_slot \<Rightarrow> ring_slot" where
  "store_len n s = s\<lparr>slot_len := of_nat n\<rparr>"

definition store_commit :: "u64 \<Rightarrow> ring_slot \<Rightarrow> ring_slot" where
  "store_commit seq s = s\<lparr>slot_seq := seq\<rparr>"

definition store_head :: "u64 \<Rightarrow> publish_ring \<Rightarrow> publish_ring" where
  "store_head seq r = r\<lparr>head_seq := seq\<rparr>"

definition publish_to_ring :: "bytes \<Rightarrow> publish_ring \<Rightarrow> publish_ring" where
  "publish_to_ring payload r =
     (let seq = head_seq r + 1; idx = slot_index seq;
          r = upd_slot idx store_invalid r;
          r = upd_slot idx (store_payload payload) r;
          r = upd_slot idx (store_len (length payload)) r;
          r = upd_slot idx (store_commit seq) r
      in store_head seq r)"

definition heartbeat :: "u64 \<Rightarrow> nat \<Rightarrow> shared_region \<Rightarrow> shared_region" where
  "heartbeat now i region = region\<lparr>directory := (directory region)
     [i := (directory region ! i)\<lparr>last_heartbeat_ms := now\<rparr>]\<rparr>"

definition mark_dirty_notify :: "nat \<Rightarrow> shared_region \<Rightarrow> shared_region" where
  "mark_dirty_notify i region =
     (let h = header region; w = i div 64; bit = push_bit (i mod 64) 1 in
      region\<lparr>header := h\<lparr>dirty_mask := (dirty_mask h)[w := (dirty_mask h ! w) OR bit],
                          notify_seq := notify_seq h + 1\<rparr>\<rparr>)"

definition publish_payload :: "u64 \<Rightarrow> publish_inner \<Rightarrow> bytes \<Rightarrow> shared_region
    \<Rightarrow> shared_region \<times> (string, unit) result" where
  "publish_payload now inner payload region =
     (if payload = [] then (region, Inr ())
      else if length payload > SLOT_DATA_SIZE then
        (region, Inl (''payload too large: '' @ show_nat (length payload) @ '' > ''
           @ show_nat SLOT_DATA_SIZE))
      else if pub_poisoned inner then (region, Inl ''publish lock poisoned'')
      else
        (let i = pub_ring_id inner;
             region = region\<lparr>rings := (rings region)
               [i := publish_to_ring payload (rings region ! i)]\<rparr>;
             region = heartbeat now i region
         in (mark_dirty_notify i region, Inr ())))"

text \<open>\<open>to_vec\<close> is the JSON encoder.\<close>

definition publish_event :: "('e \<Rightarrow> (string, bytes) result) \<Rightarrow> u64 \<Rightarrow> publish_inner \<Rightarrow> 'e
    \<Rightarrow> shared_region \<Rightarrow> shared_region \<times> (string, unit) result" where
  "publish_event to_vec now inner event region =
     (case to_vec event of
        Inl e \<Rightarrow> (region, Inl (''encode event failed: '' @ e))
      | Inr payload \<Rightarrow> publish_payload now inner payload region)"

definition bump_epoch :: "shared_region \<Rightarrow> shared_region" where
  "bump_epoch region = region\<lparr>header := (header region)\<lparr>epoch := epoch (header region) + 1\<rparr>\<rparr>"

section \<open>Reading\<close>

text \<open>\<open>consume_one_payload\<close> as a function of the values its loads return: the head, the slot's
  sequence number before the copy, its length, its payload, and the sequence number after the
  copy. A concurrent writer may change the slot between the loads.\<close>

definition consume_loaded :: "u64 \<Rightarrow> (nat \<Rightarrow> u64) \<Rightarrow> (nat \<Rightarrow> u32) \<Rightarrow> (nat \<Rightarrow> bytes)
    \<Rightarrow> (nat \<Rightarrow> u64) \<Rightarrow> ring_cursor \<Rightarrow> ring_cursor \<times> bytes option" where
  "consume_loaded head seq1 len payload seq2 cursor =
     (if read_seq cursor = head then (cursor, None)
      else
        (let cursor = (if head - read_seq cursor > of_nat RING_CAPACITY
                       then cursor\<lparr>read_seq := head - of_nat RING_CAPACITY\<rparr> else cursor);
             target = read_seq cursor + 1;
             idx = slot_index target;
             s1 = seq1 idx
         in if s1 \<noteq> target then
              (if s1 > target then (cursor\<lparr>read_seq := s1 - 1\<rparr>, None) else (cursor, None))
            else
              (let l = unat (len idx) in
               if l = 0 \<or> l > SLOT_DATA_SIZE then (cursor\<lparr>read_seq := target\<rparr>, None)
               else
                 (let p = take l (payload idx); s2 = seq2 idx in
                  if s2 \<noteq> target then
                    (if s2 > target then (cursor\<lparr>read_seq := s2 - 1\<rparr>, None) else (cursor, None))
                  else (cursor\<lparr>read_seq := target\<rparr>, Some p)))))"

definition consume_one_payload :: "publish_ring \<Rightarrow> ring_cursor \<Rightarrow> ring_cursor \<times> bytes option" where
  "consume_one_payload ring cursor =
     consume_loaded (head_seq ring) (\<lambda>i. slot_seq (slots ring ! i)) (\<lambda>i. slot_len (slots ring ! i))
       (\<lambda>i. slot_payload (slots ring ! i)) (\<lambda>i. slot_seq (slots ring ! i)) cursor"

definition initial_read_seq :: "u64 \<Rightarrow> bool \<Rightarrow> u64" where
  "initial_read_seq head primed = (if primed then saturating_sub head 1 else head)"

text \<open>The inner loop of \<open>drain_payloads\<close>; the first argument is \<open>max_events - out.len()\<close>.\<close>

fun drain_ring :: "nat \<Rightarrow> publish_ring \<Rightarrow> ring_cursor \<Rightarrow> ring_cursor \<times> bytes list" where
  "drain_ring 0 ring cursor = (cursor, [])"
| "drain_ring (Suc n) ring cursor =
     (case consume_one_payload ring cursor of
        (cursor', None) \<Rightarrow> (cursor', [])
      | (cursor', Some p) \<Rightarrow>
          (case drain_ring n ring cursor' of (cursor'', ps) \<Rightarrow> (cursor'', p # ps)))"

text \<open>The cursor a drain starts from: the stored one if it belongs to the ring's current
  generation, a fresh one otherwise.\<close>

definition start_cursor :: "bool \<Rightarrow> u64 \<Rightarrow> u64 \<Rightarrow> ring_cursor option \<Rightarrow> ring_cursor" where
  "start_cursor primed gen head c =
     (case c of
        None \<Rightarrow> \<lparr>cur_generation = gen, read_seq = initial_read_seq head primed\<rparr>
      | Some c \<Rightarrow> (if cur_generation c \<noteq> gen
                   then \<lparr>cur_generation = gen, read_seq = initial_read_seq head primed\<rparr>
                   else c))"

definition drain_step :: "nat \<Rightarrow> shared_region \<Rightarrow> consume_inner \<times> bytes list \<Rightarrow> nat
    \<Rightarrow> consume_inner \<times> bytes list" where
  "drain_step max_events region st ring_id =
     (case st of (inner, out) \<Rightarrow>
        if length out \<ge> max_events then (inner, out)
        else if ring_id = con_ring_id inner then (inner, out)
        else if entry_state (directory region ! ring_id) \<noteq> ENTRY_READY then (inner, out)
        else
          (let gen = generation (directory region ! ring_id);
               ring = rings region ! ring_id;
               cursor = start_cursor (primed_existing_rings inner) gen (head_seq ring)
                          (hm_get (cursors inner) ring_id)
           in case drain_ring (max_events - length out) ring cursor of
                (cursor', ps) \<Rightarrow>
                  (inner\<lparr>cursors := hm_insert ring_id cursor' (cursors inner)\<rparr>, out @ ps)))"

definition drain_payloads :: "u64 \<Rightarrow> nat \<Rightarrow> consume_inner \<Rightarrow> shared_region
    \<Rightarrow> consume_inner \<times> shared_region \<times> bytes list" where
  "drain_payloads now max_events inner region =
     (if max_events = 0 then (inner, region, [])
      else if con_poisoned inner then (inner, region, [])
      else
        (case foldl (drain_step max_events region) (inner, []) [0..<MAX_RINGS] of
           (inner', out) \<Rightarrow> (inner', heartbeat now (con_ring_id inner) region, out)))"

text \<open>\<open>from_slice\<close> is the JSON decoder; a payload it cannot decode is dropped.\<close>

definition drain_events :: "(bytes \<Rightarrow> 'e option) \<Rightarrow> u64 \<Rightarrow> nat \<Rightarrow> consume_inner \<Rightarrow> shared_region
    \<Rightarrow> consume_inner \<times> shared_region \<times> 'e list" where
  "drain_events from_slice now max_events inner region =
     (case drain_payloads now max_events inner region of
        (inner', region', payloads) \<Rightarrow> (inner', region', List.map_filter from_slice payloads))"

definition prime_step :: "shared_region \<Rightarrow> consume_inner \<Rightarrow> nat \<Rightarrow> consume_inner" where
  "prime_step region inner ring_id =
     (if ring_id = con_ring_id inner then inner
      else if entry_state (directory region ! ring_id) \<noteq> ENTRY_READY then inner
      else
        (case hm_get (cursors inner) ring_id of
           Some _ \<Rightarrow> inner
         | None \<Rightarrow> inner\<lparr>cursors := hm_insert ring_id
               \<lparr>cur_generation = generation (directory region ! ring_id),
                read_seq = head_seq (rings region ! ring_id)\<rparr> (cursors inner)\<rparr>))"

definition prime_cursors :: "u64 \<Rightarrow> consume_inner \<Rightarrow> shared_region
    \<Rightarrow> consume_inner \<times> shared_region" where
  "prime_cursors now inner region =
     (if con_poisoned inner then (inner, region)
      else
        (let inner' = foldl (prime_step region) inner [0..<MAX_RINGS]
         in (inner'\<lparr>primed_existing_rings := True\<rparr>, heartbeat now (con_ring_id inner) region)))"

definition load_notify_seq :: "consume_inner \<Rightarrow> shared_region \<Rightarrow> u64" where
  "load_notify_seq inner region = (if con_poisoned inner then 0 else notify_seq (header region))"

end
