(* ===== verification/Event_Ring_Log.thy ===== *)
theory Event_Ring_Log
  imports Event_Ring
begin

text \<open>
  One ring read as a log: the refinement relation \<open>ring_rep\<close> between a ring and the list of
  all payloads published to it since it was activated, the proofs that publishing appends and
  that reading returns the entry at the cursor or the oldest one kept, and the contract
  \<open>lossy_log\<close> these give, from which the result of the draining loop follows.
\<close>

section \<open>A ring as the list of what was published to it\<close>

definition slot_holds :: "ring_slot \<Rightarrow> nat \<Rightarrow> bytes \<Rightarrow> bool" where
  "slot_holds s k p \<longleftrightarrow> unat (slot_seq s) = k \<and> unat (slot_len s) = length p
     \<and> take (length p) (slot_payload s) = p"

definition payload_ok :: "bytes \<Rightarrow> bool" where
  "payload_ok p \<longleftrightarrow> p \<noteq> [] \<and> length p \<le> SLOT_DATA_SIZE"

definition ring_wf :: "publish_ring \<Rightarrow> bool" where
  "ring_wf r \<longleftrightarrow> length (slots r) = RING_CAPACITY
     \<and> list_all (\<lambda>s. length (slot_payload s) = SLOT_DATA_SIZE) (slots r)"

definition ring_rep :: "publish_ring \<Rightarrow> bytes list \<Rightarrow> bool" where
  "ring_rep r h \<longleftrightarrow> ring_wf r \<and> unat (head_seq r) = length h \<and> list_all payload_ok h
     \<and> (\<forall>k. 0 < k \<and> k \<le> length h \<and> length h < k + RING_CAPACITY
          \<longrightarrow> slot_holds (slots r ! (k mod RING_CAPACITY)) k (h ! (k - 1)))"

lemma slot_index_mod: "slot_index seq = unat seq mod RING_CAPACITY"
proof -
  have "(of_nat RING_CAPACITY - 1 :: u64) = mask 9"
    by (simp add: RING_CAPACITY_def mask_eq_exp_minus_1)
  then have "slot_index seq = unat (take_bit 9 seq)"
    by (simp add: slot_index_def take_bit_eq_mask)
  also have "\<dots> = unat seq mod RING_CAPACITY"
    by (simp add: unsigned_take_bit_eq RING_CAPACITY_def) (simp add: take_bit_eq_mod)
  finally show ?thesis .
qed

lemma slot_index_less: "slot_index seq < RING_CAPACITY"
  by (simp add: slot_index_mod RING_CAPACITY_def)

lemma upd_slot_upd_slot:
  "i < length (slots r) \<Longrightarrow> upd_slot i f (upd_slot i g r) = upd_slot i (\<lambda>s. f (g s)) r"
  by (simp add: upd_slot_def)

definition published_slot :: "u64 \<Rightarrow> bytes \<Rightarrow> ring_slot \<Rightarrow> ring_slot" where
  "published_slot seq p s = \<lparr>slot_seq = seq, slot_len = of_nat (length p),
     slot_payload = p @ drop (length p) (slot_payload s)\<rparr>"

lemma store_all:
  "store_commit seq (store_len (length p) (store_payload p (store_invalid s)))
   = published_slot seq p s"
  by (simp add: store_commit_def store_len_def store_payload_def store_invalid_def
      published_slot_def)

lemma publish_to_ring_eq:
  assumes "ring_wf r"
  shows "publish_to_ring p r = \<lparr>head_seq = head_seq r + 1,
     slots = (slots r)[slot_index (head_seq r + 1) :=
        published_slot (head_seq r + 1) p (slots r ! slot_index (head_seq r + 1))]\<rparr>"
proof -
  have i: "slot_index x < length (slots r)" for x
    using assms slot_index_less by (simp add: ring_wf_def)
  show ?thesis
    using i by (simp add: publish_to_ring_def Let_def upd_slot_def store_all store_head_def)
qed

lemma slot_holds_published:
  assumes "payload_ok p" and "unat seq = k"
  shows "slot_holds (published_slot seq p s) k p"
proof -
  have "unat (of_nat (length p) :: u32) = length p"
    using assms(1) by (intro unat_of_nat_small) (simp add: payload_ok_def SLOT_DATA_SIZE_def)
  then show ?thesis using assms(2) by (simp add: slot_holds_def published_slot_def)
qed

lemma ring_wf_publish:
  assumes "ring_wf r" and "payload_ok p"
  shows "ring_wf (publish_to_ring p r)"
proof -
  have "length (slot_payload (published_slot q p (slots r ! i))) = SLOT_DATA_SIZE"
    if "i < length (slots r)" for q i
    using assms that by (auto simp: published_slot_def payload_ok_def ring_wf_def list_all_length)
  then show ?thesis
    using assms(1) slot_index_less
    by (auto simp: publish_to_ring_eq ring_wf_def list_all_length nth_list_update)
qed

lemma window_index_distinct:
  assumes "0 < k" "k \<le> n" "Suc n < k + RING_CAPACITY"
  shows "k mod RING_CAPACITY \<noteq> Suc n mod RING_CAPACITY"
proof
  assume "k mod RING_CAPACITY = Suc n mod RING_CAPACITY"
  then have "RING_CAPACITY dvd Suc n - k"
    using assms(2) mod_eq_dvd_iff_nat [of k "Suc n" RING_CAPACITY] by simp
  then show False using assms by (auto dest!: dvd_imp_le)
qed

lemma ring_rep_publish:
  assumes rep: "ring_rep r h" and ok: "payload_ok p" and bound: "Suc (length h) < 2 ^ 64"
  shows "ring_rep (publish_to_ring p r) (h @ [p])"
proof -
  let ?n = "length h" and ?seq = "head_seq r + 1"
  have wf: "ring_wf r" and head: "unat (head_seq r) = ?n" using rep by (auto simp: ring_rep_def)
  have seq: "unat ?seq = Suc ?n"
    using unat_plus_one [of "head_seq r"] head bound by simp
  then have idx: "slot_index ?seq = Suc ?n mod RING_CAPACITY" by (simp add: slot_index_mod)
  have holds: "slot_holds (slots (publish_to_ring p r) ! (k mod RING_CAPACITY)) k ((h @ [p]) ! (k - 1))"
    if k: "0 < k" "k \<le> Suc ?n" "Suc ?n < k + RING_CAPACITY" for k
  proof (cases "k = Suc ?n")
    case True
    then show ?thesis
      using wf idx slot_index_less [of ?seq] slot_holds_published [OF ok seq]
      by (simp add: publish_to_ring_eq ring_wf_def)
  next
    case False
    then have "k mod RING_CAPACITY \<noteq> slot_index ?seq"
      using k idx window_index_distinct [of k ?n] by simp
    moreover have "slot_holds (slots r ! (k mod RING_CAPACITY)) k (h ! (k - 1))"
      using rep k False by (simp add: ring_rep_def)
    ultimately show ?thesis
      using wf False k by (auto simp: publish_to_ring_eq nth_append)
  qed
  show ?thesis
    using ring_wf_publish [OF wf ok] wf seq holds rep ok
    by (simp add: ring_rep_def publish_to_ring_eq [OF wf])
qed

text \<open>The position a read really starts from: the reader's own, or the oldest payload still in
  the ring.\<close>

definition oldest_available :: "nat \<Rightarrow> nat \<Rightarrow> nat" where
  "oldest_available n pos = max pos (n - RING_CAPACITY)"

lemma consume_at_head:
  "read_seq c = head_seq r \<Longrightarrow> consume_one_payload r c = (c, None)"
  by (simp add: consume_one_payload_def consume_loaded_def)

lemma unat_diff_le: "b \<le> a \<Longrightarrow> unat (a - b) = unat a - unat (b :: 'a::len word)"
  by (simp add: unat_sub)

lemma consume_behind:
  assumes rep: "ring_rep r h" and pos: "unat (read_seq c) < length h"
  shows "consume_one_payload r c =
    (c\<lparr>read_seq := of_nat (Suc (oldest_available (length h) (unat (read_seq c))))\<rparr>,
     Some (h ! oldest_available (length h) (unat (read_seq c))))"
proof -
  let ?n = "length h" and ?c = "unat (read_seq c)"
  let ?o = "oldest_available ?n ?c"
  have head: "unat (head_seq r) = ?n" using rep by (simp add: ring_rep_def)
  have nbound: "?n < 2 ^ 64" unfolding head [symmetric] using unsigned_less [of "head_seq r"] by simp
  have le: "read_seq c \<le> head_seq r" using pos head by (simp add: word_le_nat_alt)
  have lag: "unat (head_seq r - read_seq c) = ?n - ?c"
    using unat_diff_le [OF le] head by simp
  let ?c' = "if head_seq r - read_seq c > of_nat RING_CAPACITY
      then c\<lparr>read_seq := head_seq r - of_nat RING_CAPACITY\<rparr> else c"
  have cap: "unat (of_nat RING_CAPACITY :: u64) = RING_CAPACITY"
    by (simp add: RING_CAPACITY_def)
  have gt: "head_seq r - read_seq c > of_nat RING_CAPACITY \<longleftrightarrow> ?n - ?c > RING_CAPACITY"
    by (simp add: word_less_nat_alt lag cap)
  have start: "unat (read_seq ?c') = ?o"
  proof (cases "?n - ?c > RING_CAPACITY")
    case True
    then have "(of_nat RING_CAPACITY :: u64) \<le> head_seq r"
      using head cap by (simp add: word_le_nat_alt)
    then have "unat (head_seq r - of_nat RING_CAPACITY) = ?n - RING_CAPACITY"
      using unat_diff_le head cap by metis
    then show ?thesis using True gt by (simp add: oldest_available_def)
  next
    case False
    then show ?thesis using gt by (simp add: oldest_available_def)
  qed
  have o: "?o < ?n" using pos by (auto simp: oldest_available_def RING_CAPACITY_def)
  let ?t = "read_seq ?c' + 1"
  have t: "unat ?t = Suc ?o"
    using unat_plus_one [of "read_seq ?c'"] start o nbound by simp
  then have tw: "?t = of_nat (Suc ?o)" by (rule unat_eqD)
  have "?n < Suc ?o + RING_CAPACITY" by (auto simp: oldest_available_def)
  then have "slot_holds (slots r ! (Suc ?o mod RING_CAPACITY)) (Suc ?o) (h ! (Suc ?o - 1))"
    using rep o unfolding ring_rep_def by (meson Suc_leI zero_less_Suc)
  then have held: "slot_holds (slots r ! slot_index ?t) (Suc ?o) (h ! ?o)"
    using t by (simp add: slot_index_mod)
  have ok: "payload_ok (h ! ?o)" using rep o by (simp add: ring_rep_def list_all_length)
  have ne: "read_seq c \<noteq> head_seq r" using pos head by auto
  have s: "slot_seq (slots r ! slot_index ?t) = ?t"
    using held t by (simp add: slot_holds_def word_unat_eq_iff)
  have l: "unat (slot_len (slots r ! slot_index ?t)) = length (h ! ?o)"
    and p: "take (length (h ! ?o)) (slot_payload (slots r ! slot_index ?t)) = h ! ?o"
    using held by (auto simp: slot_holds_def)
  have upd: "?c'\<lparr>read_seq := x\<rparr> = c\<lparr>read_seq := x\<rparr>" for x by simp
  have "consume_one_payload r c = (?c'\<lparr>read_seq := ?t\<rparr>, Some (h ! ?o))"
    unfolding consume_one_payload_def consume_loaded_def Let_def
    using ne s l p ok by (simp add: payload_ok_def)
  then show ?thesis unfolding upd tw .
qed

text \<open>The contract of a lossy log: publishing appends; a reader behind the end gets the entry at
  its position, or the oldest one kept, and moves past it; a reader at the end gets nothing.
  Draining in a loop then returns exactly the pending entries, in order.\<close>

locale lossy_log =
  fixes rep :: "'r \<Rightarrow> 'p list \<Rightarrow> bool"
    and ok :: "'p \<Rightarrow> bool"
    and limit cap :: nat
    and pub :: "'p \<Rightarrow> 'r \<Rightarrow> 'r"
    and pos :: "'c \<Rightarrow> nat"
    and "next" :: "'r \<Rightarrow> 'c \<Rightarrow> 'c \<times> 'p option"
    and drain :: "nat \<Rightarrow> 'r \<Rightarrow> 'c \<Rightarrow> 'c \<times> 'p list"
  assumes rep_pub: "rep r h \<Longrightarrow> ok p \<Longrightarrow> Suc (length h) < limit \<Longrightarrow> rep (pub p r) (h @ [p])"
    and next_end: "rep r h \<Longrightarrow> pos c = length h \<Longrightarrow> next r c = (c, None)"
    and next_behind: "rep r h \<Longrightarrow> pos c < length h \<Longrightarrow>
      \<exists>c'. next r c = (c', Some (h ! max (pos c) (length h - cap)))
         \<and> pos c' = Suc (max (pos c) (length h - cap))"
    and drain_0: "drain 0 r c = (c, [])"
    and drain_Suc: "drain (Suc n) r c =
      (case next r c of (c', None) \<Rightarrow> (c', [])
       | (c', Some p) \<Rightarrow> (case drain n r c' of (c'', ps) \<Rightarrow> (c'', p # ps)))"
begin

lemma rep_pub_all:
  assumes "rep r h" and "list_all ok ps" and "length h + length ps < limit"
  shows "rep (fold pub ps r) (h @ ps)"
  using assms
proof (induction ps arbitrary: r h)
  case (Cons p ps)
  then have "rep (pub p r) (h @ [p])" by (simp add: rep_pub)
  then show ?case using Cons.IH [of "pub p r" "h @ [p]"] Cons.prems by simp
qed simp

lemma drain_in_window:
  assumes "rep r h" and "pos c \<le> length h" and "length h - cap \<le> pos c"
  shows "snd (drain n r c) = take n (drop (pos c) h)
    \<and> pos (fst (drain n r c)) = min (length h) (pos c + n)"
  using assms
proof (induction n arbitrary: c)
  case 0
  then show ?case by (simp add: drain_0)
next
  case (Suc n)
  show ?case
  proof (cases "pos c < length h")
    case False
    then show ?thesis using Suc.prems next_end by (simp add: drain_Suc)
  next
    case True
    obtain c' where c': "next r c = (c', Some (h ! pos c))" "pos c' = Suc (pos c)"
      using next_behind [OF Suc.prems(1) True] Suc.prems(3) by (auto simp: max_def split: if_splits)
    have "snd (drain n r c') = take n (drop (pos c') h)
      \<and> pos (fst (drain n r c')) = min (length h) (pos c' + n)"
      using Suc.IH [of c'] Suc.prems c' True by simp
    then show ?thesis
      using c' True by (auto simp: drain_Suc Cons_nth_drop_Suc [symmetric] split: prod.splits)
  qed
qed

lemma drain_pending:
  assumes "rep r h" and "pos c \<le> length h" and "0 < cap"
  shows "snd (drain n r c) = take n (drop (max (pos c) (length h - cap)) h)"
proof (cases n)
  case (Suc m)
  show ?thesis
  proof (cases "pos c < length h")
    case True
    let ?o = "max (pos c) (length h - cap)"
    obtain c' where c': "next r c = (c', Some (h ! ?o))" "pos c' = Suc ?o"
      using next_behind [OF assms(1) True] by blast
    have o: "?o < length h" using True assms(3) by auto
    have "snd (drain m r c') = take m (drop (Suc ?o) h)"
      using drain_in_window [OF assms(1), of c' m] c' o by auto
    then show ?thesis
      using Suc c'(1) o by (auto simp: drain_Suc Cons_nth_drop_Suc [symmetric] split: prod.splits)
  qed (use assms next_end Suc in \<open>simp add: drain_Suc\<close>)
qed (simp add: drain_0)

lemma drain_position:
  assumes "rep r h" and "pos c \<le> length h" and "0 < cap" and "n \<noteq> 0"
  shows "pos (fst (drain n r c)) = min (length h) (max (pos c) (length h - cap) + n)"
proof (cases n)
  case (Suc m)
  show ?thesis
  proof (cases "pos c < length h")
    case True
    let ?o = "max (pos c) (length h - cap)"
    obtain c' where c': "next r c = (c', Some (h ! ?o))" "pos c' = Suc ?o"
      using next_behind [OF assms(1) True] by blast
    have o: "?o < length h" using True assms(3) by auto
    have "pos (fst (drain m r c')) = min (length h) (pos c' + m)"
      using drain_in_window [OF assms(1), of c' m] c' o by auto
    then show ?thesis
      using Suc c' by (auto simp: drain_Suc split: prod.splits)
  qed (use assms next_end Suc in \<open>simp add: drain_Suc\<close>)
qed (use assms(4) in simp)

end

abbreviation cursor_pos :: "ring_cursor \<Rightarrow> nat" where
  "cursor_pos c \<equiv> unat (read_seq c)"

lemma consume_at_end:
  "ring_rep r h \<Longrightarrow> cursor_pos c = length h \<Longrightarrow> consume_one_payload r c = (c, None)"
  by (simp add: consume_at_head ring_rep_def word_unat_eq_iff)

interpretation ringlog: lossy_log ring_rep payload_ok "2 ^ 64" RING_CAPACITY publish_to_ring
  cursor_pos consume_one_payload drain_ring
proof unfold_locales
  fix r h and c :: ring_cursor
  assume rep: "ring_rep r h" and lt: "cursor_pos c < length h"
  have "unat (head_seq r) = length h" using rep by (simp add: ring_rep_def)
  then have "length h < 2 ^ 64"
    using unat_u64_less [of "head_seq r"] by simp
  moreover have "oldest_available (length h) (cursor_pos c) < length h"
    using lt by (auto simp: oldest_available_def RING_CAPACITY_def)
  ultimately have "unat (of_nat (Suc (oldest_available (length h) (cursor_pos c))) :: u64)
      = Suc (oldest_available (length h) (cursor_pos c))"
    by (intro unat_of_nat_small) simp
  then show "\<exists>c'. consume_one_payload r c
      = (c', Some (h ! max (cursor_pos c) (length h - RING_CAPACITY)))
      \<and> cursor_pos c' = Suc (max (cursor_pos c) (length h - RING_CAPACITY))"
    using consume_behind [OF rep lt] by (auto simp: oldest_available_def)
qed (use ring_rep_publish consume_at_end in \<open>simp_all split: prod.splits option.splits\<close>)

end
