(* ===== verification/Event_Ring_Region.thy ===== *)
theory Event_Ring_Region
  imports Event_Ring_Log
begin

unbundle bit_operations_syntax

text \<open>
  The whole shared region: its well-formedness and that every operation keeps it, what
  publishing does to the region, what a consumer has pending and that draining returns
  exactly that, who may be given a ring, and the layout of the mapped file.
\<close>

section \<open>The region\<close>

definition region_wf :: "shared_region \<Rightarrow> bool" where
  "region_wf region \<longleftrightarrow> length (directory region) = MAX_RINGS \<and> length (rings region) = MAX_RINGS
     \<and> list_all ring_wf (rings region) \<and> length (dirty_mask (header region)) = DIRTY_WORDS"

abbreviation ready :: "shared_region \<Rightarrow> nat \<Rightarrow> bool" where
  "ready region i \<equiv> entry_state (directory region ! i) = ENTRY_READY"

text \<open>Every ring in use holds what its owner published to it; \<open>H i\<close> is that list for ring \<open>i\<close>.\<close>

definition region_rep :: "shared_region \<Rightarrow> (nat \<Rightarrow> bytes list) \<Rightarrow> bool" where
  "region_rep region H \<longleftrightarrow> region_wf region
     \<and> (\<forall>i < MAX_RINGS. ready region i \<longrightarrow> ring_rep (rings region ! i) (H i))"

lemma ring_wf_nth: "region_wf region \<Longrightarrow> i < MAX_RINGS \<Longrightarrow> ring_wf (rings region ! i)"
  by (simp add: region_wf_def list_all_length)

lemma ring_wf_clear: "ring_wf r \<Longrightarrow> ring_wf (clear_ring r)"
  by (simp add: ring_wf_def clear_ring_def clear_slot_def list_all_iff)

lemma ring_rep_clear: "ring_wf r \<Longrightarrow> ring_rep (clear_ring r) []"
  by (simp add: ring_rep_def ring_wf_clear) (simp add: clear_ring_def)

lemma region_wf_heartbeat [simp]: "region_wf (heartbeat now i region) = region_wf region"
  by (simp add: region_wf_def heartbeat_def)

lemma region_wf_mark [simp]: "region_wf (mark_dirty_notify i region) = region_wf region"
  by (simp add: region_wf_def mark_dirty_notify_def Let_def)

lemma region_wf_set_ring:
  "region_wf region \<Longrightarrow> ring_wf r \<Longrightarrow> region_wf (region\<lparr>rings := (rings region)[i := r]\<rparr>)"
  by (auto simp: region_wf_def list_all_length nth_list_update_if)

lemma region_wf_publish:
  assumes "region_wf region" and "pub_ring_id inner < MAX_RINGS"
  shows "region_wf (fst (publish_payload now inner payload region))"
proof -
  have "ring_wf (publish_to_ring payload (rings region ! pub_ring_id inner))"
    if "payload \<noteq> []" "length payload \<le> SLOT_DATA_SIZE"
    using that assms ring_wf_nth ring_wf_publish by (simp add: payload_ok_def)
  then show ?thesis
    using assms by (auto simp: publish_payload_def Let_def region_wf_set_ring)
qed

lemma region_wf_activate:
  "region_wf region \<Longrightarrow> i < MAX_RINGS \<Longrightarrow> region_wf (activate_ring now region i pid)"
  using ring_wf_clear [OF ring_wf_nth]
  by (auto simp: activate_ring_def region_wf_def list_all_length nth_list_update)

lemma region_wf_zero: "region_wf zero_region"
  by (simp add: region_wf_def zero_region_def zero_header_def ring_wf_def zero_ring_def
      zero_slot_def list_all_length)

lemma region_wf_reset: "region_wf (reset_region region)"
  using region_wf_zero by (simp add: region_wf_def reset_region_def Let_def)

lemma region_wf_unlock [simp]: "region_wf (unlock_init region) = region_wf region"
  by (simp add: region_wf_def unlock_init_def)

lemma header_matches_reset: "header_matches (reset_region region)"
  by (simp add: header_matches_def reset_region_def Let_def)

lemma header_matches_unlock [simp]: "header_matches (unlock_init region) = header_matches region"
  by (simp add: header_matches_def unlock_init_def)

lemma spin_until_ready_wf:
  assumes "region_wf region" and "\<And>i r. region_wf r \<Longrightarrow> region_wf (env i r)"
  shows "region_wf (fst (spin_until_ready env n i region))"
  using assms by (induction env n i region rule: spin_until_ready.induct) (auto simp: Let_def)

lemma spin_until_ready_matches:
  "snd (spin_until_ready env n i region) \<Longrightarrow> header_matches (fst (spin_until_ready env n i region))"
  by (induction env n i region rule: spin_until_ready.induct) (auto simp: Let_def split: if_splits)

lemma initialize_region_matches: "header_matches (initialize_region_if_needed env region)"
  using spin_until_ready_matches [of env 2000 0 region]
  by (auto simp: initialize_region_if_needed_def Let_def header_matches_reset
      split: prod.splits bool.splits)

lemma initialize_region_wf:
  assumes "region_wf region" and "\<And>i r. region_wf r \<Longrightarrow> region_wf (env i r)"
  shows "region_wf (initialize_region_if_needed env region)"
  using assms(1) spin_until_ready_wf [of region env 2000 0, OF assms]
  by (auto simp: initialize_region_if_needed_def Let_def region_wf_reset
      split: prod.splits bool.splits)

subsection \<open>Publishing into the region\<close>

lemma publish_payload_rings:
  assumes "payload_ok p" and "\<not> pub_poisoned inner"
  shows "rings (fst (publish_payload now inner p region)) = (rings region)
      [pub_ring_id inner := publish_to_ring p (rings region ! pub_ring_id inner)]"
    and "snd (publish_payload now inner p region) = Inr ()"
    and "notify_seq (header (fst (publish_payload now inner p region)))
      = notify_seq (header region) + 1"
  using assms by (simp_all add: publish_payload_def payload_ok_def Let_def heartbeat_def
      mark_dirty_notify_def)

lemma heartbeat_entry [simp]:
  "entry_state (directory (heartbeat now j region) ! i) = entry_state (directory region ! i)"
  "generation (directory (heartbeat now j region) ! i) = generation (directory region ! i)"
  "owner_pid (directory (heartbeat now j region) ! i) = owner_pid (directory region ! i)"
  "rings (heartbeat now j region) = rings region"
  by (simp_all add: heartbeat_def nth_list_update_if)

lemma publish_payload_entry [simp]:
  "entry_state (directory (fst (publish_payload now inner p region)) ! i)
     = entry_state (directory region ! i)"
  "generation (directory (fst (publish_payload now inner p region)) ! i)
     = generation (directory region ! i)"
  by (simp_all add: publish_payload_def Let_def mark_dirty_notify_def heartbeat_def
      nth_list_update_if)

lemma region_rep_publish:
  assumes rep: "region_rep region H" and i: "pub_ring_id inner < MAX_RINGS"
    and r: "ready region (pub_ring_id inner)" and ok: "payload_ok p" and np: "\<not> pub_poisoned inner"
    and bound: "Suc (length (H (pub_ring_id inner))) < 2 ^ 64"
  shows "region_rep (fst (publish_payload now inner p region))
    (H(pub_ring_id inner := H (pub_ring_id inner) @ [p]))"
proof -
  let ?i = "pub_ring_id inner" and ?region' = "fst (publish_payload now inner p region)"
  have wf: "region_wf region" using rep by (simp add: region_rep_def)
  have "ring_rep (rings region ! ?i) (H ?i)" using rep i r by (simp add: region_rep_def)
  then have new: "ring_rep (publish_to_ring p (rings region ! ?i)) (H ?i @ [p])"
    using ok bound by (rule ring_rep_publish)
  have "length (rings region) = MAX_RINGS" using wf by (simp add: region_wf_def)
  then show ?thesis
    using rep new i region_wf_publish [OF wf i, of now p]
    by (auto simp: region_rep_def publish_payload_rings(1) [OF ok np] nth_list_update)
qed

definition publish_all :: "u64 \<Rightarrow> publish_inner \<Rightarrow> bytes list \<Rightarrow> shared_region \<Rightarrow> shared_region" where
  "publish_all now inner ps region = fold (\<lambda>p r. fst (publish_payload now inner p r)) ps region"

lemma publish_all_entry [simp]:
  "entry_state (directory (publish_all now inner ps region) ! i) = entry_state (directory region ! i)"
  "generation (directory (publish_all now inner ps region) ! i) = generation (directory region ! i)"
  unfolding publish_all_def by (induction ps arbitrary: region) simp_all

lemma region_rep_publish_all:
  assumes "region_rep region H" and "pub_ring_id inner < MAX_RINGS"
    and "ready region (pub_ring_id inner)" and "list_all payload_ok ps" and "\<not> pub_poisoned inner"
    and "length (H (pub_ring_id inner)) + length ps < 2 ^ 64"
  shows "region_rep (publish_all now inner ps region)
    (H(pub_ring_id inner := H (pub_ring_id inner) @ ps))"
  using assms unfolding publish_all_def
proof (induction ps arbitrary: region H)
  case (Cons p ps)
  let ?i = "pub_ring_id inner" and ?r = "fst (publish_payload now inner p region)"
  have "region_rep ?r (H(?i := H ?i @ [p]))"
    using Cons.prems by (intro region_rep_publish) simp_all
  then have "region_rep (fold (\<lambda>p r. fst (publish_payload now inner p r)) ps ?r)
      ((H(?i := H ?i @ [p]))(?i := (H(?i := H ?i @ [p])) ?i @ ps))"
    by (rule Cons.IH) (use Cons.prems in simp_all)
  moreover have "(H(?i := H ?i @ [p]))(?i := (H(?i := H ?i @ [p])) ?i @ ps) = H(?i := H ?i @ p # ps)"
    by (simp only: fun_upd_upd fun_upd_same append_assoc append_Cons append_Nil)
  ultimately show ?case by (simp only: fold_Cons comp_apply)
qed simp

subsection \<open>Draining the region\<close>

text \<open>What a consumer has still to see of ring \<open>i\<close>.\<close>

definition pending :: "shared_region \<Rightarrow> consume_inner \<Rightarrow> (nat \<Rightarrow> bytes list) \<Rightarrow> nat \<Rightarrow> bytes list" where
  "pending region inner H i =
     (if i = con_ring_id inner \<or> \<not> ready region i then []
      else drop (oldest_available (length (H i))
        (cursor_pos (start_cursor (primed_existing_rings inner) (generation (directory region ! i))
           (head_seq (rings region ! i)) (hm_get (cursors inner) i)))) (H i))"

text \<open>A stored cursor of the current generation is not ahead of its ring, for the rings \<open>I\<close>.\<close>

definition cursors_ok :: "nat set \<Rightarrow> consume_inner \<Rightarrow> shared_region \<Rightarrow> bool" where
  "cursors_ok I inner region \<longleftrightarrow>
     (\<forall>i \<in> I. \<forall>c. hm_get (cursors inner) i = Some c
        \<and> cur_generation c = generation (directory region ! i)
        \<longrightarrow> read_seq c \<le> head_seq (rings region ! i))"

lemma start_cursor_le:
  "(\<And>c'. c = Some c' \<Longrightarrow> cur_generation c' = gen \<Longrightarrow> read_seq c' \<le> head)
   \<Longrightarrow> read_seq (start_cursor primed gen head c) \<le> head"
  by (auto simp: start_cursor_def initial_read_seq_def saturating_sub_le split: option.splits)

lemma drain_step_skip:
  assumes "length out \<ge> n \<or> i = con_ring_id inner \<or> \<not> ready region i"
  shows "drain_step n region (inner, out) i = (inner, out)"
  using assms by (auto simp: drain_step_def)

lemma consume_generation:
  "cur_generation (fst (consume_one_payload r c)) = cur_generation c"
  by (simp add: consume_one_payload_def consume_loaded_def Let_def)

lemma drain_generation: "cur_generation (fst (drain_ring n r c)) = cur_generation c"
proof (induction n r c rule: drain_ring.induct)
  case (2 n r c)
  then show ?case
    using consume_generation [of r c] by (auto split: prod.splits option.splits)
qed simp

lemma start_cursor_generation: "cur_generation (start_cursor primed gen head c) = gen"
  by (auto simp: start_cursor_def split: option.splits)

lemma start_cursor_same: "cur_generation c = gen \<Longrightarrow> start_cursor primed gen head (Some c) = c"
  by (simp add: start_cursor_def)

lemma drop_oldest_min:
  "drop (oldest_available (length xs) (min (length xs) (oldest_available (length xs) p + m))) xs
   = drop m (drop (oldest_available (length xs) p) xs)"
proof -
  let ?o = "oldest_available (length xs) p"
  have "length xs - RING_CAPACITY \<le> ?o" by (simp add: oldest_available_def)
  then have "oldest_available (length xs) (min (length xs) (?o + m)) = min (length xs) (?o + m)"
    unfolding oldest_available_def [of _ "min _ _"] by linarith
  then show ?thesis by (cases "length xs \<le> ?o + m") (auto simp: add.commute)
qed

lemma drain_step_out:
  assumes rep: "region_rep region H" and cur: "cursors_ok {i} inner region" and i: "i < MAX_RINGS"
    and len: "length out \<le> n"
  shows "snd (drain_step n region (inner, out) i) = take n (out @ pending region inner H i)"
    and "length out < n \<Longrightarrow> pending region (fst (drain_step n region (inner, out) i)) H i
      = drop (n - length out) (pending region inner H i)"
proof -
  let ?c = "start_cursor (primed_existing_rings inner) (generation (directory region ! i))
    (head_seq (rings region ! i)) (hm_get (cursors inner) i)"
  let ?m = "n - length out" and ?skip = "i = con_ring_id inner \<or> \<not> ready region i"
  let ?o = "oldest_available (length (H i)) (cursor_pos ?c)"
  have drained: "snd (drain_ring ?m (rings region ! i) ?c) = take ?m (drop ?o (H i))"
      "length out < n \<Longrightarrow>
        cursor_pos (fst (drain_ring ?m (rings region ! i) ?c)) = min (length (H i)) (?o + ?m)"
    if "\<not> ?skip"
  proof -
    have r: "ring_rep (rings region ! i) (H i)" using rep i that by (simp add: region_rep_def)
    have "read_seq ?c \<le> head_seq (rings region ! i)"
      using cur by (intro start_cursor_le) (auto simp: cursors_ok_def)
    then have le: "cursor_pos ?c \<le> length (H i)"
      using r by (simp add: ring_rep_def word_le_nat_alt)
    show "snd (drain_ring ?m (rings region ! i) ?c) = take ?m (drop ?o (H i))"
      using ringlog.drain_pending [OF r le] by (simp add: oldest_available_def RING_CAPACITY_def)
    show "cursor_pos (fst (drain_ring ?m (rings region ! i) ?c)) = min (length (H i)) (?o + ?m)"
      if "length out < n"
      using ringlog.drain_position [OF r le] that
      by (simp add: oldest_available_def RING_CAPACITY_def)
  qed
  show "snd (drain_step n region (inner, out) i) = take n (out @ pending region inner H i)"
    using drained len by (auto simp: drain_step_def Let_def pending_def split: prod.splits)
  assume lt: "length out < n"
  show "pending region (fst (drain_step n region (inner, out) i)) H i
      = drop ?m (pending region inner H i)"
  proof (cases ?skip)
    case False
    obtain c' ps where d: "drain_ring ?m (rings region ! i) ?c = (c', ps)" by fastforce
    have gen: "cur_generation c' = generation (directory region ! i)"
      using drain_generation [of ?m "rings region ! i" ?c] d
      by (simp add: start_cursor_generation)
    have pos: "cursor_pos c' = min (length (H i)) (?o + ?m)"
      using drained(2) [OF False lt] d by simp
    have "pending region (fst (drain_step n region (inner, out) i)) H i
        = drop (oldest_available (length (H i)) (cursor_pos c')) (H i)"
      using False lt d gen
      by (auto simp: drain_step_def pending_def hm_simps start_cursor_same)
    also have "\<dots> = drop ?m (drop ?o (H i))"
      unfolding pos by (rule drop_oldest_min)
    finally show ?thesis using False by (simp add: pending_def)
  qed (auto simp: drain_step_skip pending_def)
qed

lemma drain_step_frame:
  "con_ring_id (fst (drain_step n region (inner, out) i)) = con_ring_id inner
   \<and> primed_existing_rings (fst (drain_step n region (inner, out) i)) = primed_existing_rings inner
   \<and> (\<forall>k. k \<noteq> i \<longrightarrow> hm_get (cursors (fst (drain_step n region (inner, out) i))) k
        = hm_get (cursors inner) k)"
  by (auto simp: drain_step_def Let_def hm_simps split: prod.splits)

lemma pending_cong:
  assumes "con_ring_id inner' = con_ring_id inner"
    and "primed_existing_rings inner' = primed_existing_rings inner"
    and "hm_get (cursors inner') i = hm_get (cursors inner) i"
  shows "pending region inner' H i = pending region inner H i"
  using assms by (simp add: pending_def)

lemma cursors_ok_drain_step:
  assumes "cursors_ok I inner region" and "i \<notin> I"
  shows "cursors_ok I (fst (drain_step n region (inner, out) i)) region"
  using assms drain_step_frame [of n region inner out i] by (metis cursors_ok_def)

lemma drain_fold_skip:
  "length out \<ge> n \<Longrightarrow> foldl (drain_step n region) (inner, out) is = (inner, out)"
  by (induction "is") (simp_all add: drain_step_skip)

lemma drain_fold:
  assumes "region_rep region H" and "cursors_ok (set is) inner region" and "distinct is"
    and "\<forall>i \<in> set is. i < MAX_RINGS" and "length out \<le> n"
  shows "snd (foldl (drain_step n region) (inner, out) is)
      = take n (out @ concat (map (pending region inner H) is))
    \<and> snd (foldl (drain_step n region) (inner, out) is)
        @ concat (map (pending region (fst (foldl (drain_step n region) (inner, out) is)) H) is)
      = out @ concat (map (pending region inner H) is)
    \<and> con_ring_id (fst (foldl (drain_step n region) (inner, out) is)) = con_ring_id inner
    \<and> primed_existing_rings (fst (foldl (drain_step n region) (inner, out) is))
      = primed_existing_rings inner
    \<and> (\<forall>k. k \<notin> set is \<longrightarrow> hm_get (cursors (fst (foldl (drain_step n region) (inner, out) is))) k
        = hm_get (cursors inner) k)"
  using assms
proof (induction "is" arbitrary: inner out)
  case (Cons i "is")
  show ?case
  proof (cases "length out < n")
    case False
    then show ?thesis
      using Cons.prems(5) by (simp add: drain_step_skip drain_fold_skip)
  next
    case lt: True
    obtain inner' out' where st: "drain_step n region (inner, out) i = (inner', out')" by fastforce
    have ok: "cursors_ok {i} inner region" "cursors_ok (set is) inner region"
      using Cons.prems(2) by (simp_all add: cursors_ok_def)
    have out': "out' = take n (out @ pending region inner H i)"
      and rest: "pending region inner' H i = drop (n - length out) (pending region inner H i)"
      using drain_step_out [OF Cons.prems(1) ok(1) _ Cons.prems(5)] Cons.prems(4) lt st by simp_all
    have frame: "con_ring_id inner' = con_ring_id inner"
        "primed_existing_rings inner' = primed_existing_rings inner"
        "\<And>k. k \<noteq> i \<Longrightarrow> hm_get (cursors inner') k = hm_get (cursors inner) k"
      using drain_step_frame [of n region inner out i] st by auto
    have same: "map (pending region inner' H) is = map (pending region inner H) is"
      using Cons.prems(3) by (auto intro!: pending_cong frame)
    have ok': "cursors_ok (set is) inner' region"
      using cursors_ok_drain_step [OF ok(2), of i n out] Cons.prems(3) st by simp
    let ?f = "foldl (drain_step n region) (inner', out') is"
    note IH = Cons.IH [OF Cons.prems(1) ok', of out']
    have pf: "pending region (fst ?f) H i = pending region inner' H i"
      using IH Cons.prems out' by (intro pending_cong) auto
    show ?thesis
    proof (cases "n \<le> length out + length (pending region inner H i)")
      case True
      then have len: "length out' = n" using out' by simp
      then have f: "?f = (inner', out')" by (simp add: drain_fold_skip)
      have eq: "out' @ pending region inner' H i = out @ pending region inner H i"
        using lt by (simp add: out' rest)
      have "out' = take n (out @ pending region inner H i @ concat (map (pending region inner H) is))"
        using True by (simp add: out')
      moreover have "out' @ pending region inner' H i @ concat (map (pending region inner' H) is)
          = out @ pending region inner H i @ concat (map (pending region inner H) is)"
        using eq unfolding same by (metis append.assoc)
      ultimately show ?thesis using st f frame by simp
    next
      case False
      then have o: "out' = out @ pending region inner H i" and e: "pending region inner' H i = []"
        using out' rest by auto
      have len: "length out' \<le> n" using out' by simp
      obtain fi fo where f: "?f = (fi, fo)" by fastforce
      have g: "foldl (drain_step n region) (inner, out) (i # is) = (fi, fo)"
        using st f by simp
      have d: "distinct is" "\<forall>i \<in> set is. i < MAX_RINGS" using Cons.prems(3,4) by simp_all
      note IH' = IH [unfolded f fst_conv snd_conv same, OF d len]
      have 1: "fo = take n (out @ concat (map (pending region inner H) (i # is)))"
        using IH' by (simp add: o)
      have "fo @ concat (map (pending region fi H) is) = out' @ concat (map (pending region inner H) is)"
        using IH' by blast
      then have 2: "fo @ concat (map (pending region fi H) (i # is))
          = out @ concat (map (pending region inner H) (i # is))"
        using pf f e by (simp add: o)
      have 3: "con_ring_id fi = con_ring_id inner"
          "primed_existing_rings fi = primed_existing_rings inner"
          "\<forall>k. k \<notin> set (i # is) \<longrightarrow> hm_get (cursors fi) k = hm_get (cursors inner) k"
        using IH' frame by simp_all
      show ?thesis unfolding g fst_conv snd_conv using 1 2 3 by blast
    qed
  qed
qed simp

lemma drain_payloads_eq:
  assumes "region_rep region H" and "cursors_ok {..<MAX_RINGS} inner region"
    and "\<not> con_poisoned inner"
  shows "snd (snd (drain_payloads now n inner region))
      = take n (concat (map (pending region inner H) [0..<MAX_RINGS]))"
    and "snd (snd (drain_payloads now n inner region))
        @ concat (map (pending region (fst (drain_payloads now n inner region)) H) [0..<MAX_RINGS])
      = concat (map (pending region inner H) [0..<MAX_RINGS])"
proof -
  have ok: "cursors_ok (set [0..<MAX_RINGS]) inner region"
    using assms(2) by (simp add: lessThan_atLeast0)
  have "\<forall>i \<in> set [0..<MAX_RINGS]. i < MAX_RINGS" and "length ([] :: bytes list) \<le> n" by simp_all
  note d = drain_fold [OF assms(1) ok distinct_upt this]
  have f: "snd (foldl (drain_step n region) (inner, []) [0..<MAX_RINGS])
      = take n (concat (map (pending region inner H) [0..<MAX_RINGS]))"
    "snd (foldl (drain_step n region) (inner, []) [0..<MAX_RINGS])
      @ concat (map (pending region (fst (foldl (drain_step n region) (inner, []) [0..<MAX_RINGS])) H)
          [0..<MAX_RINGS]) = concat (map (pending region inner H) [0..<MAX_RINGS])"
    using d [THEN conjunct1] d [THEN conjunct2, THEN conjunct1] by (simp_all only: append_Nil)
  show "snd (snd (drain_payloads now n inner region))
      = take n (concat (map (pending region inner H) [0..<MAX_RINGS]))"
    using f(1) assms(3) by (auto simp: drain_payloads_def split: prod.splits)
  show "snd (snd (drain_payloads now n inner region))
        @ concat (map (pending region (fst (drain_payloads now n inner region)) H) [0..<MAX_RINGS])
      = concat (map (pending region inner H) [0..<MAX_RINGS])"
  proof (cases "n = 0")
    case False
    then have "fst (drain_payloads now n inner region)
        = fst (foldl (drain_step n region) (inner, []) [0..<MAX_RINGS])"
      and "snd (snd (drain_payloads now n inner region))
        = snd (foldl (drain_step n region) (inner, []) [0..<MAX_RINGS])"
      using assms(3) by (auto simp: drain_payloads_def split: prod.splits)
    then show ?thesis using f(2) by (simp only:)
  qed (simp add: drain_payloads_def)
qed

lemma region_rep_heartbeat [simp]: "region_rep (heartbeat now i region) H = region_rep region H"
  by (simp add: region_rep_def)

lemma pending_heartbeat [simp]: "pending (heartbeat now j region) inner H i = pending region inner H i"
  by (simp add: pending_def)

lemma cursors_ok_heartbeat [simp]:
  "cursors_ok I inner (heartbeat now j region) = cursors_ok I inner region"
  by (simp add: cursors_ok_def)

lemma cursors_ok_step_all:
  assumes rep: "region_rep region H" and ok: "cursors_ok {..<MAX_RINGS} inner region" and i: "i < MAX_RINGS"
  shows "cursors_ok {..<MAX_RINGS} (fst (drain_step n region (inner, out) i)) region"
proof (cases "length out \<ge> n \<or> i = con_ring_id inner \<or> \<not> ready region i")
  case True
  then show ?thesis using ok by (simp add: drain_step_skip)
next
  case False
  let ?ring = "rings region ! i"
  let ?c = "start_cursor (primed_existing_rings inner) (generation (directory region ! i))
    (head_seq ?ring) (hm_get (cursors inner) i)"
  have r: "ring_rep ?ring (H i)" using rep i False by (simp add: region_rep_def)
  have "read_seq ?c \<le> head_seq ?ring"
    using ok i by (intro start_cursor_le) (auto simp: cursors_ok_def)
  then have "cursor_pos ?c \<le> length (H i)" using r by (simp add: ring_rep_def word_le_nat_alt)
  then have "cursor_pos (fst (drain_ring (n - length out) ?ring ?c)) \<le> length (H i)"
    using ringlog.drain_position [OF r, of ?c "n - length out"] False
    by (simp add: RING_CAPACITY_def)
  then have "read_seq (fst (drain_ring (n - length out) ?ring ?c)) \<le> head_seq ?ring"
    using r by (simp add: ring_rep_def word_le_nat_alt)
  then show ?thesis
    using ok False by (auto simp: drain_step_def Let_def cursors_ok_def hm_simps split: prod.splits if_splits)
qed

lemma cursors_ok_drain:
  assumes "region_rep region H" and "cursors_ok {..<MAX_RINGS} inner region"
  shows "cursors_ok {..<MAX_RINGS} (fst (drain_payloads now n inner region)) region"
proof -
  have "cursors_ok {..<MAX_RINGS} (fst (foldl (drain_step n region) (inner, out) is)) region"
    if "\<forall>i \<in> set is. i < MAX_RINGS" "cursors_ok {..<MAX_RINGS} inner region" for "is" inner out
    using that
  proof (induction "is" arbitrary: inner out)
    case (Cons i "is")
    then show ?case
      using cursors_ok_step_all [OF assms(1) Cons.prems(2), of i n out]
      by (cases "drain_step n region (inner, out) i") simp
  qed simp
  from this [of "[0..<MAX_RINGS]" inner "[]"] show ?thesis
    using assms(2) by (auto simp: drain_payloads_def split: prod.splits)
qed

subsection \<open>Priming\<close>

lemma prime_fold:
  assumes "\<forall>i \<in> set is. i < MAX_RINGS"
  shows "con_ring_id (foldl (prime_step region) inner is) = con_ring_id inner
    \<and> con_poisoned (foldl (prime_step region) inner is) = con_poisoned inner
    \<and> hm_get (cursors (foldl (prime_step region) inner is)) j =
      (if j \<in> set is \<and> j \<noteq> con_ring_id inner \<and> ready region j \<and> hm_get (cursors inner) j = None
       then Some \<lparr>cur_generation = generation (directory region ! j), read_seq = head_seq (rings region ! j)\<rparr>
       else hm_get (cursors inner) j)"
  using assms
proof (induction "is" arbitrary: inner)
  case (Cons i "is")
  then show ?case
    by (auto simp: prime_step_def hm_simps split: option.splits)
qed simp

lemma prime_cursors_frame:
  assumes "\<not> con_poisoned inner"
  shows "con_ring_id (fst (prime_cursors now inner region)) = con_ring_id inner"
    and "\<not> con_poisoned (fst (prime_cursors now inner region))"
    and "primed_existing_rings (fst (prime_cursors now inner region))"
    and "hm_get (cursors (fst (prime_cursors now inner region))) j =
      (if j < MAX_RINGS \<and> j \<noteq> con_ring_id inner \<and> ready region j \<and> hm_get (cursors inner) j = None
       then Some \<lparr>cur_generation = generation (directory region ! j), read_seq = head_seq (rings region ! j)\<rparr>
       else hm_get (cursors inner) j)"
    and "snd (prime_cursors now inner region) = heartbeat now (con_ring_id inner) region"
  using assms prime_fold [of "[0..<MAX_RINGS]" region inner j]
  by (simp_all add: prime_cursors_def Let_def)

subsection \<open>Publishing as a consumer sees it\<close>

lemma publish_all_other_ring:
  assumes "j \<noteq> pub_ring_id inner"
  shows "rings (publish_all now inner ps region) ! j = rings region ! j"
  using assms unfolding publish_all_def
  by (induction ps arbitrary: region)
    (auto simp: publish_payload_def Let_def mark_dirty_notify_def heartbeat_def)

lemma pending_publish_all:
  assumes rep: "region_rep region H" and i: "pub_ring_id pub < MAX_RINGS"
    and ready: "ready region (pub_ring_id pub)" and ok: "list_all payload_ok ps" "\<not> pub_poisoned pub"
    and bound: "length (H (pub_ring_id pub)) + length ps < 2 ^ 64"
    and cur: "hm_get (cursors inner) (pub_ring_id pub) = Some c"
      "cur_generation c = generation (directory region ! pub_ring_id pub)"
    and other: "con_ring_id inner \<noteq> pub_ring_id pub"
  shows "pending (publish_all now pub ps region) inner (H(pub_ring_id pub := H (pub_ring_id pub) @ ps)) j
    = (if j = pub_ring_id pub
       then drop (oldest_available (length (H j @ ps)) (cursor_pos c)) (H j @ ps)
       else pending region inner H j)"
  using assms by (auto simp: pending_def publish_all_other_ring start_cursor_same)

lemma cursors_ok_publish_all:
  assumes rep: "region_rep region H" and i: "pub_ring_id pub < MAX_RINGS"
    and ready: "ready region (pub_ring_id pub)" and ok: "list_all payload_ok ps" "\<not> pub_poisoned pub"
    and bound: "length (H (pub_ring_id pub)) + length ps < 2 ^ 64"
    and cur: "cursors_ok {..<MAX_RINGS} inner region"
  shows "cursors_ok {..<MAX_RINGS} inner (publish_all now pub ps region)"
proof -
  let ?i = "pub_ring_id pub" and ?region' = "publish_all now pub ps region"
  have "region_rep ?region' (H(?i := H ?i @ ps))"
    using region_rep_publish_all [OF rep i ready ok bound] .
  then have "unat (head_seq (rings ?region' ! ?i)) = length (H ?i) + length ps"
    using i ready by (auto simp: region_rep_def ring_rep_def)
  moreover have "unat (head_seq (rings region ! ?i)) = length (H ?i)"
    using rep i ready by (auto simp: region_rep_def ring_rep_def)
  ultimately have "head_seq (rings region ! ?i) \<le> head_seq (rings ?region' ! ?i)"
    by (simp add: word_le_nat_alt)
  then have "head_seq (rings region ! j) \<le> head_seq (rings ?region' ! j)" for j
    by (cases "j = ?i") (simp_all add: publish_all_other_ring)
  then show ?thesis using cur unfolding cursors_ok_def by (auto intro: order_trans)
qed

section \<open>Ring allocation\<close>

definition claimable :: "(u32 \<Rightarrow> bool) \<Rightarrow> u32 \<Rightarrow> ring_directory_entry \<Rightarrow> bool" where
  "claimable is_process_alive pid e \<longleftrightarrow> entry_state e = ENTRY_FREE
     \<or> (entry_state e = ENTRY_READY \<or> entry_state e = ENTRY_INIT)
       \<and> (owner_pid e = 0 \<or> owner_pid e = pid \<or> \<not> is_process_alive (owner_pid e))"

text \<open>The region after ring \<open>i\<close> was given to \<open>pid\<close>.\<close>

definition claimed :: "u64 \<Rightarrow> u32 \<Rightarrow> nat \<Rightarrow> shared_region \<Rightarrow> shared_region" where
  "claimed now pid i region = region\<lparr>rings := (rings region)[i := clear_ring (rings region ! i)],
     directory := (directory region)[i := activate_entry now pid (directory region ! i)]\<rparr>"

lemma cas_then_activate:
  assumes "i < length (directory region)"
  shows "activate_ring now (region\<lparr>directory := (directory region)
      [i := (directory region ! i)\<lparr>entry_state := s\<rparr>]\<rparr>) i pid = claimed now pid i region"
  using assms by (simp add: activate_ring_def claimed_def activate_entry_def)

lemma allocate_free_Some:
  assumes "\<forall>i \<in> set is. i < length (directory region)"
    and "allocate_free now pid is region = Some (region', i)"
  shows "i \<in> set is \<and> entry_state (directory region ! i) = ENTRY_FREE
    \<and> region' = claimed now pid i region"
  using assms by (induction "is")
    (auto simp: cas_entry_state_def cas_then_activate split: if_splits)

lemma allocate_free_None:
  "allocate_free now pid is region = None \<longleftrightarrow>
     (\<forall>i \<in> set is. entry_state (directory region ! i) \<noteq> ENTRY_FREE)"
  by (induction "is") (auto simp: cas_entry_state_def)

lemma allocate_reclaim_Some:
  assumes "\<forall>i \<in> set is. i < length (directory region)"
    and "allocate_reclaim alive now pid is region = Some (region', i)"
  shows "i \<in> set is \<and> claimable alive pid (directory region ! i)
    \<and> region' = claimed now pid i region"
  using assms by (induction "is")
    (auto simp: cas_entry_state_def cas_then_activate Let_def claimable_def split: if_splits)

lemma allocate_reclaim_None:
  "allocate_reclaim alive now pid is region = None \<Longrightarrow> allocate_free now pid is region = None
   \<Longrightarrow> i \<in> set is \<Longrightarrow> \<not> claimable alive pid (directory region ! i)"
  by (induction "is")
    (auto simp: cas_entry_state_def Let_def claimable_def entry_consts split: if_splits)

lemma allocate_own_None:
  assumes "\<forall>i \<in> set is. \<not> claimable alive pid (directory region ! i)"
  shows "allocate_own now pid is region = None"
  using assms by (induction "is") (auto simp: claimable_def)

lemma allocate_ring_Some:
  assumes "region_wf region" and "allocate_ring alive now region pid = Some (region', i)"
  shows "i < MAX_RINGS \<and> claimable alive pid (directory region ! i)
    \<and> region' = claimed now pid i region"
proof -
  have len: "\<forall>i \<in> set [0..<MAX_RINGS]. i < length (directory region)"
    using assms(1) by (simp add: region_wf_def)
  consider (free) "allocate_free now pid [0..<MAX_RINGS] region = Some (region', i)"
    | (recl) "allocate_free now pid [0..<MAX_RINGS] region = None"
        "allocate_reclaim alive now pid [0..<MAX_RINGS] region = Some (region', i)"
    | (own) "allocate_free now pid [0..<MAX_RINGS] region = None"
        "allocate_reclaim alive now pid [0..<MAX_RINGS] region = None"
        "allocate_own now pid [0..<MAX_RINGS] region = Some (region', i)"
    using assms(2) by (auto simp: allocate_ring_def split: option.splits)
  then show ?thesis
  proof cases
    case free
    then show ?thesis using allocate_free_Some [OF len] by (auto simp: claimable_def)
  next
    case recl
    then show ?thesis using allocate_reclaim_Some [OF len] by auto
  next
    case own
    then have "\<forall>i \<in> set [0..<MAX_RINGS]. \<not> claimable alive pid (directory region ! i)"
      using allocate_reclaim_None by blast
    then show ?thesis using own(3) allocate_own_None by fastforce
  qed
qed

lemma allocate_ring_None:
  assumes "allocate_ring alive now region pid = None" and "i < MAX_RINGS"
  shows "\<not> claimable alive pid (directory region ! i)"
  using assms allocate_reclaim_None [of alive now pid "[0..<MAX_RINGS]" region i]
  by (auto simp: allocate_ring_def split: option.splits)

lemma claimed_region:
  assumes "region_wf region" and "i < MAX_RINGS"
  shows "region_wf (claimed now pid i region)"
    and "ring_rep (rings (claimed now pid i region) ! i) []"
    and "directory (claimed now pid i region) ! i = activate_entry now pid (directory region ! i)"
    and "j \<noteq> i \<Longrightarrow> rings (claimed now pid i region) ! j = rings region ! j"
    and "j \<noteq> i \<Longrightarrow> directory (claimed now pid i region) ! j = directory region ! j"
  using assms region_wf_activate [OF assms] ring_rep_clear [OF ring_wf_nth [OF assms]]
  by (simp_all add: claimed_def activate_ring_def region_wf_def)

lemma region_rep_reset: "region_rep (reset_region region) (\<lambda>_. [])"
  using region_wf_reset [of region] by (simp add: region_rep_def reset_region_def Let_def
      zero_region_def ring_rep_def ring_wf_def zero_ring_def zero_slot_def list_all_length)

lemma region_rep_claimed:
  assumes "region_rep region H" and "i < MAX_RINGS"
  shows "region_rep (claimed now pid i region) (H(i := []))"
  using assms claimed_region [of region i]
  by (auto simp: region_rep_def)

end
