(* ===== verification/Event_Ring_Correct.thy ===== *)
theory Event_Ring_Correct
  imports Event_Ring_Region
begin

text \<open>
  What the ring buffer promises to the processes of a host: what a publication does on every
  branch, that draining hands out each pending payload once and in order, the round trip from
  one process's publications to another's drain, who is given a ring, what a fresh mapping
  contains, and the layout of the mapped file.
\<close>


lemma concat_map_single:
  "distinct is \<Longrightarrow> i \<in> set is \<Longrightarrow> (\<And>j. j \<in> set is \<Longrightarrow> j \<noteq> i \<Longrightarrow> f j = []) \<Longrightarrow> concat (map f is) = f i"
proof (induction "is")
  case (Cons j "is")
  show ?case
  proof (cases "j = i")
    case True
    then have "concat (map f is) = []" using Cons.prems by auto
    then show ?thesis using True by simp
  next
    case False
    then show ?thesis using Cons by simp
  qed
qed simp

text \<open>A host on which the processes 1 and 2 opened the region: rings 0 and 1 are theirs.\<close>

definition two_rings :: shared_region where
  "two_rings = claimed 0 2 1 (claimed 0 1 0 (reset_region zero_region))"

lemma two_rings_rep: "region_rep two_rings (\<lambda>_. [])"
proof -
  have "region_rep two_rings ((\<lambda>_. [])(0 := [], 1 := []))"
    unfolding two_rings_def
    by (intro region_rep_claimed region_rep_reset) (simp_all add: MAX_RINGS_def)
  then show ?thesis by (simp add: fun_upd_idem)
qed

lemma reset_directory:
  "i < MAX_RINGS \<Longrightarrow> directory (reset_region region) ! i = reset_entry i zero_entry"
  by (simp add: reset_region_def Let_def zero_region_def nth_enumerate_eq)

lemma ready_claimed:
  assumes "region_wf region" and "i < MAX_RINGS"
  shows "ready (claimed now pid i region) j \<longleftrightarrow> j = i \<or> ready region j"
  using claimed_region(3,5) [OF assms] by (cases "j = i") (simp_all add: activate_entry_def)

lemma two_rings_entry:
  assumes "i < MAX_RINGS"
  shows "ready two_rings i \<longleftrightarrow> i = 0 \<or> i = 1"
proof -
  have 0: "region_wf (reset_region zero_region)" "(0::nat) < MAX_RINGS" "(1::nat) < MAX_RINGS"
    using region_wf_reset by (simp_all add: MAX_RINGS_def)
  have "\<not> ready (reset_region zero_region) i"
    using assms by (simp add: reset_directory) (simp add: reset_entry_def entry_consts)
  then show ?thesis
    using ready_claimed [OF claimed_region(1) [OF 0(1,2)] 0(3)] ready_claimed [OF 0(1,2)]
    unfolding two_rings_def by blast
qed

text \<open>A consumer that primed and then has another process publish: what it has pending is what
  the ring still holds of those publications.\<close>

lemma prime_step_heartbeat [simp]: "prime_step (heartbeat now i region) = prime_step region"
  by (simp add: fun_eq_iff prime_step_def split: option.splits)

lemma cursors_ok_prime:
  assumes "\<not> con_poisoned inner" and "cursors_ok {..<MAX_RINGS} inner region"
  shows "cursors_ok {..<MAX_RINGS} (fst (prime_cursors now inner region)) region"
  using assms(2) by (auto simp: cursors_ok_def prime_cursors_frame(4) [OF assms(1)] split: if_splits)

lemma pending_primed:
  assumes "region_rep region H" and "\<not> con_poisoned inner" and "cursors inner = []" and "j < MAX_RINGS"
  shows "pending region (fst (prime_cursors now inner region)) H j = []"
proof (cases "j = con_ring_id inner \<or> \<not> ready region j")
  case False
  then have "unat (head_seq (rings region ! j)) = length (H j)"
    using assms(1,4) by (simp add: region_rep_def ring_rep_def)
  then show ?thesis
    using False assms(3,4)
    by (simp add: pending_def prime_cursors_frame [OF assms(2)] start_cursor_same
        oldest_available_def)
qed (auto simp: pending_def prime_cursors_frame [OF assms(2)])

lemma pending_primed_published:
  assumes rep: "region_rep region H" and np: "\<not> con_poisoned inner" and cur: "cursors inner = []"
    and i: "pub_ring_id pub < MAX_RINGS" and ready: "ready region (pub_ring_id pub)"
    and other: "con_ring_id inner \<noteq> pub_ring_id pub"
    and ok: "list_all payload_ok ps" "\<not> pub_poisoned pub"
    and bound: "length (H (pub_ring_id pub)) + length ps < 2 ^ 64"
    and inner'_def: "inner' = fst (prime_cursors now inner region)"
  shows "concat (map (pending (publish_all now' pub ps region) inner'
        (H(pub_ring_id pub := H (pub_ring_id pub) @ ps))) [0..<MAX_RINGS])
      = drop (length ps - RING_CAPACITY) ps"
proof -
  let ?i = "pub_ring_id pub"
  let ?c = "\<lparr>cur_generation = generation (directory region ! ?i), read_seq = head_seq (rings region ! ?i)\<rparr>"
  have c: "hm_get (cursors inner') ?i = Some ?c"
    using i ready other cur by (simp add: inner'_def prime_cursors_frame [OF np])
  have id: "con_ring_id inner' \<noteq> ?i" using other by (simp add: inner'_def prime_cursors_frame [OF np])
  have gen: "cur_generation ?c = generation (directory region ! ?i)" by simp
  note p = pending_publish_all [OF rep i ready ok bound c gen id, of now']
  have pos: "cursor_pos ?c = length (H ?i)" using rep i ready by (simp add: region_rep_def ring_rep_def)
  have "concat (map (pending (publish_all now' pub ps region) inner' (H(?i := H ?i @ ps))) [0..<MAX_RINGS])
      = pending (publish_all now' pub ps region) inner' (H(?i := H ?i @ ps)) ?i"
    using i p pending_primed [OF rep np cur]
    by (intro concat_map_single) (simp_all add: inner'_def)
  also have "\<dots> = drop (oldest_available (length (H ?i @ ps)) (length (H ?i))) (H ?i @ ps)"
    using p [of ?i] pos by simp
  also have "\<dots> = drop (length ps - RING_CAPACITY) ps"
    by (simp add: oldest_available_def max_def)
  finally show ?thesis .
qed

text \<open>The handle of a process that opened the region but has neither primed nor drained.\<close>

definition fresh_consumer :: "nat \<Rightarrow> consume_inner" where
  "fresh_consumer i = \<lparr>con_ring_id = i, cursors = [], primed_existing_rings = False,
     con_poisoned = False\<rparr>"

lemma fresh_consumer_ok: "cursors_ok I (fresh_consumer i) region"
  by (simp add: cursors_ok_def fresh_consumer_def)

definition publisher :: "nat \<Rightarrow> publish_inner" where
  "publisher i = \<lparr>pub_ring_id = i, pub_poisoned = False\<rparr>"

lemma two_rings_primed_published:
  defines "inner \<equiv> fst (prime_cursors 0 (fresh_consumer 0) two_rings)"
    and "region \<equiv> publish_all 0 (publisher 1) [[7], [8]] two_rings"
  shows "region_rep region ((\<lambda>_. [])(1 := [[7], [8]]))" and "cursors_ok {..<MAX_RINGS} inner region"
    and "\<not> con_poisoned inner"
    and "concat (map (pending region inner ((\<lambda>_. [])(1 := [[7], [8]]))) [0..<MAX_RINGS]) = [[7], [8]]"
proof -
  let ?ps = "[[7], [8]] :: bytes list"
  have a: "pub_ring_id (publisher 1) < MAX_RINGS" "ready two_rings (pub_ring_id (publisher 1))"
      "list_all payload_ok ?ps" "\<not> pub_poisoned (publisher 1)"
    using two_rings_entry [of 1] by (simp_all add: publisher_def ring_consts payload_ok_def)
  have b: "length ((\<lambda>_. [] :: bytes list) (pub_ring_id (publisher 1))) + length ?ps < 2 ^ 64" by simp
  have np: "\<not> con_poisoned (fresh_consumer 0)" "cursors (fresh_consumer 0) = []"
      "con_ring_id (fresh_consumer 0) \<noteq> pub_ring_id (publisher 1)"
    by (simp_all add: fresh_consumer_def publisher_def)
  show "region_rep region ((\<lambda>_. [])(1 := ?ps))"
    using region_rep_publish_all [OF two_rings_rep a b, of 0] by (simp add: region_def publisher_def)
  show "cursors_ok {..<MAX_RINGS} inner region" unfolding region_def inner_def
    by (intro cursors_ok_publish_all [OF two_rings_rep a b] cursors_ok_prime np fresh_consumer_ok)
  show "\<not> con_poisoned inner" using np by (simp add: inner_def prime_cursors_frame)
  show "concat (map (pending region inner ((\<lambda>_. [])(1 := ?ps))) [0..<MAX_RINGS]) = ?ps"
    using pending_primed_published [OF two_rings_rep np(1,2) a(1,2) np(3) a(3,4) b refl, of 0 0]
    by (simp add: region_def inner_def publisher_def RING_CAPACITY_def)
qed

section \<open>Draining\<close>

text \<open>C1: draining. With a region that represents the logs \<open>H\<close> and cursors that are not ahead
  of their rings, \<open>drain_payloads\<close> returns the first \<open>max_events\<close> of the payloads the consumer
  has pending, ring by ring and in publication order within a ring; what it returned followed by
  what is pending afterwards is what was pending before, so nothing is lost, duplicated or
  reordered by the draining itself, wherever \<open>max_events\<close> cuts it off; and the invariant is
  kept.\<close>

theorem drain_payloads_exactly_once:
  assumes "region_rep region H" and "cursors_ok {..<MAX_RINGS} inner region"
    and "\<not> con_poisoned inner" and "drain_payloads now max_events inner region = (inner', region', out)"
  shows "out = take max_events (concat (map (pending region inner H) [0..<MAX_RINGS]))
    \<and> out @ concat (map (pending region' inner' H) [0..<MAX_RINGS])
      = concat (map (pending region inner H) [0..<MAX_RINGS])
    \<and> region_rep region' H \<and> cursors_ok {..<MAX_RINGS} inner' region'"
proof (intro conjI)
  have r: "region' = region \<or> region' = heartbeat now (con_ring_id inner) region"
    using assms(3,4) by (auto simp: drain_payloads_def split: if_splits prod.splits)
  then have p: "pending region' inner' H = pending region inner' H" by auto
  show "out = take max_events (concat (map (pending region inner H) [0..<MAX_RINGS]))"
    using drain_payloads_eq(1) [OF assms(1-3), of now max_events] assms(4) by simp
  show "out @ concat (map (pending region' inner' H) [0..<MAX_RINGS])
      = concat (map (pending region inner H) [0..<MAX_RINGS])"
    using drain_payloads_eq(2) [OF assms(1-3), of now max_events] assms(4) unfolding p by simp
  show "region_rep region' H" using r assms(1) by auto
  show "cursors_ok {..<MAX_RINGS} inner' region'"
    using cursors_ok_drain [OF assms(1,2), of now max_events] assms(4) r by auto
qed

theorem drain_payloads_exactly_once_witness:
  "snd (snd (drain_payloads 5 1 (fst (prime_cursors 0 (fresh_consumer 0) two_rings))
     (publish_all 0 (publisher 1) [[7], [8]] two_rings))) = [[7]]"
proof -
  note w = two_rings_primed_published
  obtain i r out where d: "drain_payloads 5 1 (fst (prime_cursors 0 (fresh_consumer 0) two_rings))
     (publish_all 0 (publisher 1) [[7], [8]] two_rings) = (i, r, out)"
    by (cases "drain_payloads 5 1 (fst (prime_cursors 0 (fresh_consumer 0) two_rings))
     (publish_all 0 (publisher 1) [[7], [8]] two_rings)") auto
  from drain_payloads_exactly_once [OF w(1-3) d] show ?thesis using w(4) d by simp
qed

section \<open>Publishing\<close>

text \<open>C16: publishing. An empty payload is accepted and dropped, one longer than a slot is refused,
  and neither changes the region. Any other payload is appended to the log of the caller's ring
  and of no other ring, the notification counter moves on by one, the ring's dirty bit is set,
  and the caller's heartbeat is the only change to the directory.\<close>

theorem publish_payload_correct:
  assumes rep: "region_rep region H" and i: "pub_ring_id inner < MAX_RINGS"
    and r: "ready region (pub_ring_id inner)" and np: "\<not> pub_poisoned inner"
    and bound: "Suc (length (H (pub_ring_id inner))) < 2 ^ 64"
    and pub: "publish_payload now inner payload region = (region', result)"
  shows "(result = Inr () \<longleftrightarrow> length payload \<le> SLOT_DATA_SIZE)
    \<and> (if payload_ok payload
       then region_rep region' (H(pub_ring_id inner := H (pub_ring_id inner) @ [payload]))
         \<and> notify_seq (header region') = notify_seq (header region) + 1
         \<and> bit (dirty_mask (header region') ! (pub_ring_id inner div 64)) (pub_ring_id inner mod 64)
         \<and> directory region' = directory (heartbeat now (pub_ring_id inner) region)
         \<and> (\<forall>j. j \<noteq> pub_ring_id inner \<longrightarrow> rings region' ! j = rings region ! j)
       else region' = region)"
proof (cases "payload_ok payload")
  case False
  then show ?thesis using pub by (auto simp: publish_payload_def payload_ok_def split: if_splits)
next
  case True
  have w: "length (dirty_mask (header region)) = DIRTY_WORDS"
    using rep by (simp add: region_rep_def region_wf_def)
  have d: "pub_ring_id inner div 64 < DIRTY_WORDS" using i by (simp add: ring_consts)
  have 1: "region_rep region' (H(pub_ring_id inner := H (pub_ring_id inner) @ [payload]))"
    using region_rep_publish [OF rep i r True np bound, of now] pub by simp
  have "region' = mark_dirty_notify (pub_ring_id inner) (heartbeat now (pub_ring_id inner)
      (region\<lparr>rings := (rings region)[pub_ring_id inner :=
         publish_to_ring payload (rings region ! pub_ring_id inner)]\<rparr>)) \<and> result = Inr ()"
    using pub True np by (auto simp: publish_payload_def payload_ok_def Let_def)
  then show ?thesis
    using 1 True w d by (auto simp: mark_dirty_notify_def heartbeat_def Let_def payload_ok_def
        bit_simps)
qed

theorem publish_payload_correct_witness:
  "region_rep (fst (publish_payload 3 (publisher 1) [7] two_rings)) ((\<lambda>_. [])(1 := [[7]]))"
proof -
  have a: "pub_ring_id (publisher 1) < MAX_RINGS" "ready two_rings (pub_ring_id (publisher 1))"
      "\<not> pub_poisoned (publisher 1)" "payload_ok [7]"
    using two_rings_entry [of 1] by (simp_all add: publisher_def ring_consts payload_ok_def)
  obtain r res where p: "publish_payload 3 (publisher 1) [7] two_rings = (r, res)" by fastforce
  from publish_payload_correct [OF two_rings_rep a(1-3) _ p] a(4)
  show ?thesis using p by (simp add: publisher_def)
qed

text \<open>The round trip between two processes. A process that primed its cursors and then drains
  receives, in order and in full, the payloads another process published in between, at most
  \<open>max_events\<close> of them; if that process published more than a ring holds, the oldest ones are
  lost and the last 512 remain.\<close>

theorem prime_publish_drain:
  assumes "region_rep region H" and "\<not> con_poisoned inner" and "cursors inner = []"
    and "pub_ring_id pub < MAX_RINGS" and "ready region (pub_ring_id pub)"
    and "con_ring_id inner \<noteq> pub_ring_id pub"
    and "list_all payload_ok ps" and "\<not> pub_poisoned pub"
    and "length (H (pub_ring_id pub)) + length ps < 2 ^ 64"
    and "prime_cursors now inner region = (inner', region')"
  shows "snd (snd (drain_payloads now'' max_events inner' (publish_all now' pub ps region')))
    = take max_events (drop (length ps - RING_CAPACITY) ps)"
proof -
  let ?i = "pub_ring_id pub" and ?H = "H(pub_ring_id pub := H (pub_ring_id pub) @ ps)"
  have i': "inner' = fst (prime_cursors now inner region')" and r': "region' = heartbeat now (con_ring_id inner) region"
    using assms(2,10) by (auto simp: prime_cursors_def Let_def)
  have rep: "region_rep region' H" and ready: "ready region' ?i" using assms r' by simp_all
  note a = assms(4) ready assms(7,8,9)
  have rep'': "region_rep (publish_all now' pub ps region') ?H"
    by (rule region_rep_publish_all [OF rep a])
  have ok: "cursors_ok {..<MAX_RINGS} inner' (publish_all now' pub ps region')"
    using assms(2,3) unfolding i'
    by (intro cursors_ok_publish_all [OF rep a] cursors_ok_prime) (simp_all add: cursors_ok_def)
  have np: "\<not> con_poisoned inner'" unfolding i' using assms(2) by (rule prime_cursors_frame)
  show ?thesis
    unfolding drain_payloads_eq(1) [OF rep'' ok np]
      pending_primed_published [OF rep assms(2,3) a(1,2) assms(6) a(3-5) i'] ..
qed

theorem prime_publish_drain_witness:
  "snd (snd (drain_payloads 9 10 (fst (prime_cursors 0 (fresh_consumer 0) two_rings))
     (publish_all 5 (publisher 1) [[7], [8], [9, 9]]
        (snd (prime_cursors 0 (fresh_consumer 0) two_rings))))) = [[7], [8], [9, 9]]"
proof -
  have a: "pub_ring_id (publisher 1) < MAX_RINGS" "ready two_rings (pub_ring_id (publisher 1))"
      "con_ring_id (fresh_consumer 0) \<noteq> pub_ring_id (publisher 1)"
      "list_all payload_ok [[7], [8], [9, 9]]" "\<not> pub_poisoned (publisher 1)"
      "\<not> con_poisoned (fresh_consumer 0)" "cursors (fresh_consumer 0) = []"
    using two_rings_entry [of 1]
    by (simp_all add: publisher_def fresh_consumer_def ring_consts payload_ok_def)
  obtain i r where p: "prime_cursors 0 (fresh_consumer 0) two_rings = (i, r)" by fastforce
  from prime_publish_drain [OF two_rings_rep a(6,7) a(1-5) _ p, of 9 10 5]
  show ?thesis using p by (simp add: RING_CAPACITY_def)
qed

lemma pending_late:
  assumes "i \<noteq> con_ring_id inner" and "ready region i" and "hm_get (cursors inner) i = None"
    and "primed_existing_rings inner" and "unat (head_seq (rings region ! i)) = length (H i)"
    and "H i \<noteq> []"
  shows "pending region inner H i = [last (H i)]"
proof -
  have "pending region inner H i = drop (oldest_available (length (H i)) (length (H i) - 1)) (H i)"
    using assms by (simp add: pending_def start_cursor_def initial_read_seq_def unat_saturating_sub)
  also have "oldest_available (length (H i)) (length (H i) - 1) = length (H i) - 1"
    by (simp add: oldest_available_def RING_CAPACITY_def)
  also have "drop (length (H i) - 1) (H i) = [last (H i)]"
    using assms(6) by (metis append_butlast_last_id append_eq_conv_conj length_butlast)
  finally show ?thesis .
qed

text \<open>A producer that opens the region after a consumer primed. The consumer has no cursor for
  its ring and starts one event before the ring's head, so of everything the producer published
  before the consumer's first drain it receives the last payload only.\<close>

theorem late_producer_last_only:
  assumes rep: "region_rep region H" and np: "\<not> con_poisoned inner" and cur: "cursors inner = []"
    and prime: "prime_cursors now inner region = (inner', region')"
    and i: "i < MAX_RINGS" and free: "\<not> ready region i" and other: "con_ring_id inner \<noteq> i"
    and alloc: "allocate_ring alive now1 region' pid = Some (region1, i)"
    and ps: "ps \<noteq> []" "list_all payload_ok ps" "length ps < 2 ^ 64"
    and n: "0 < max_events"
  shows "snd (snd (drain_payloads now3 max_events inner'
      (publish_all now2 \<lparr>pub_ring_id = i, pub_poisoned = False\<rparr> ps region1))) = [last ps]"
proof -
  let ?pub = "\<lparr>pub_ring_id = i, pub_poisoned = False\<rparr>" and ?H = "H(i := [])" and ?H' = "H(i := ps)"
  let ?region2 = "publish_all now2 ?pub ps region1"
  have i': "inner' = fst (prime_cursors now inner region')" and r': "region' = heartbeat now (con_ring_id inner) region"
    using np prime by (auto simp: prime_cursors_def Let_def)
  have rep': "region_rep region' H" "region_wf region'" using rep r' by (simp_all add: region_rep_def)
  have c: "region1 = claimed now1 pid i region'"
    using allocate_ring_Some [OF rep'(2) alloc] by simp
  note cl = claimed_region [OF rep'(2) i, where now = now1 and pid = pid]
  have rep1: "region_rep region1 ?H" unfolding c by (rule region_rep_claimed [OF rep'(1) i])
  have ready1: "ready region1 i" unfolding c by (simp add: ready_claimed [OF rep'(2) i])
  have none: "hm_get (cursors inner') i = None" and id: "con_ring_id inner' = con_ring_id inner"
      and pr: "primed_existing_rings inner'"
    using free cur unfolding i' by (simp_all add: prime_cursors_frame [OF np] r')
  have rep2: "region_rep ?region2 ?H'"
    using region_rep_publish_all [OF rep1, of ?pub ps now2] i ready1 ps by simp
  have ok: "cursors_ok {..<MAX_RINGS} inner' ?region2"
  proof -
    have "cursors_ok {..<MAX_RINGS} inner' region'"
      using np cur unfolding i' by (intro cursors_ok_prime) (simp_all add: cursors_ok_def)
    then have "cursors_ok {..<MAX_RINGS} inner' region1"
      using none cl(4,5) unfolding c cursors_ok_def by (metis option.distinct(1))
    then show ?thesis using cursors_ok_publish_all [OF rep1, of ?pub ps inner' now2] i ready1 ps by simp
  qed
  have head: "unat (head_seq (rings ?region2 ! i)) = length ps"
    using rep2 i ready1 by (auto simp: region_rep_def ring_rep_def)
  have at: "pending ?region2 inner' ?H' i = [last ps]"
    using pending_late [of i inner' ?region2 ?H'] ready1 none id other pr head ps(1) by simp
  have elsewhere: "pending ?region2 inner' ?H' j = []" if "j < MAX_RINGS" "j \<noteq> i" for j
  proof -
    have "pending ?region2 inner' ?H' j = pending region' inner' H j"
      using that cl(4,5) unfolding pending_def c
      by (simp add: publish_all_other_ring)
    then show ?thesis using pending_primed [OF rep'(1) np cur that(1), of now] by (simp add: i')
  qed
  have "concat (map (pending ?region2 inner' ?H') [0..<MAX_RINGS]) = [last ps]"
    using at elsewhere i concat_map_single [of "[0..<MAX_RINGS]" i "pending ?region2 inner' ?H'"] by simp
  then show ?thesis
    using drain_payloads_eq(1) [OF rep2 ok, of now3 max_events] n np
    by (simp add: i' prime_cursors_frame)
qed

lemma two_rings_allocate:
  "\<exists>region. allocate_ring alive now (heartbeat now' 0 two_rings) pid = Some (region, 2)"
proof -
  have "ready two_rings 0" "ready two_rings 1" using two_rings_entry [of 0] two_rings_entry [of 1]
    by (simp_all add: MAX_RINGS_def)
  moreover have "entry_state (directory two_rings ! 2) = ENTRY_FREE"
  proof -
    have "region_wf (claimed 0 1 0 (reset_region zero_region))"
      using claimed_region(1) region_wf_reset by (simp add: MAX_RINGS_def)
    then have "directory two_rings ! 2 = directory (claimed 0 1 0 (reset_region zero_region)) ! 2"
      unfolding two_rings_def by (rule claimed_region(5)) (simp_all add: MAX_RINGS_def)
    also have "\<dots> = directory (reset_region zero_region) ! 2"
      by (rule claimed_region(5) [OF region_wf_reset]) (simp_all add: MAX_RINGS_def)
    finally show ?thesis
      by (simp add: reset_directory MAX_RINGS_def) (simp add: reset_entry_def)
  qed
  moreover have "[0..<MAX_RINGS] = [0, 1, 2] @ [3..<16]" by (simp add: MAX_RINGS_def upt_rec)
  ultimately show ?thesis
    by (auto simp: allocate_ring_def cas_entry_state_def entry_consts)
qed

theorem late_producer_last_only_witness:
  "\<exists>region1. allocate_ring (\<lambda>_. True) 1 (heartbeat 0 0 two_rings) 3 = Some (region1, 2)
    \<and> snd (snd (drain_payloads 3 10 (fst (prime_cursors 0 (fresh_consumer 0) two_rings))
      (publish_all 2 \<lparr>pub_ring_id = 2, pub_poisoned = False\<rparr> [[7], [8]] region1))) = [[8]]"
proof -
  have a: "\<not> con_poisoned (fresh_consumer 0)" "cursors (fresh_consumer 0) = []"
      "(2::nat) < MAX_RINGS" "\<not> ready two_rings 2" "con_ring_id (fresh_consumer 0) \<noteq> 2"
      "list_all payload_ok [[7], [8]]"
    using two_rings_entry [of 2]
    by (simp_all add: fresh_consumer_def ring_consts payload_ok_def)
  obtain i r where p: "prime_cursors 0 (fresh_consumer 0) two_rings = (i, r)" by fastforce
  then have r: "r = heartbeat 0 0 two_rings"
    using prime_cursors_frame(5) [OF a(1), of 0 two_rings] by (simp add: fresh_consumer_def)
  obtain region1 where "allocate_ring (\<lambda>_. True) 1 (heartbeat 0 0 two_rings) 3 = Some (region1, 2)"
    using two_rings_allocate by blast
  with late_producer_last_only [OF two_rings_rep a(1,2) p a(3,4,5) _ _ a(6), of "\<lambda>_. True" 1 3 region1 10 3 2] r
  show ?thesis using p by auto
qed

section \<open>Opening\<close>

text \<open>Allocation. \<open>allocate_ring\<close> gives the caller a ring that was free, or whose recorded
  owner is nobody, the caller itself or a process that is not alive, and never the ring of
  another live process. The ring given is empty, its entry is READY under the caller's pid with
  the generation moved on, and every other ring and entry is unchanged. It fails only when no
  entry qualifies.\<close>

theorem allocate_ring_correct:
  assumes "region_wf region"
  shows "case allocate_ring is_process_alive now region pid of
      None \<Rightarrow> \<forall>i < MAX_RINGS. \<not> claimable is_process_alive pid (directory region ! i)
    | Some (region', i) \<Rightarrow> i < MAX_RINGS \<and> claimable is_process_alive pid (directory region ! i)
        \<and> region_wf region' \<and> header region' = header region
        \<and> ring_rep (rings region' ! i) []
        \<and> directory region' ! i = activate_entry now pid (directory region ! i)
        \<and> (\<forall>j. j \<noteq> i \<longrightarrow> rings region' ! j = rings region ! j
             \<and> directory region' ! j = directory region ! j)"
proof (cases "allocate_ring is_process_alive now region pid")
  case None
  then show ?thesis using allocate_ring_None by simp
next
  case (Some a)
  obtain region' i where a: "a = (region', i)" by fastforce
  note s = allocate_ring_Some [OF assms Some [unfolded a]]
  then have "header region' = header region" by (simp add: claimed_def)
  then show ?thesis using Some a s claimed_region [OF assms, of i] by simp
qed

theorem allocate_ring_correct_witness:
  "\<exists>region'. allocate_ring (\<lambda>_. True) 1 (heartbeat 0 0 two_rings) 3 = Some (region', 2)
    \<and> ring_rep (rings region' ! 2) []"
proof -
  obtain region1 where "allocate_ring (\<lambda>_. True) 1 (heartbeat 0 0 two_rings) 3 = Some (region1, 2)"
    using two_rings_allocate by blast
  moreover have "region_wf (heartbeat 0 0 two_rings)" using two_rings_rep by (simp add: region_rep_def)
  ultimately show ?thesis
    using allocate_ring_correct [of "heartbeat 0 0 two_rings" "\<lambda>_. True" 3 1] by simp
qed

lemma funpow_first: "f s = s' \<Longrightarrow> (f ^^ n) s' = r \<Longrightarrow> (f ^^ Suc n) s = r"
  by (simp add: funpow_swap1)

text \<open>Without interruption the steps are the pass.\<close>

lemma reclaim_steps_solo:
  assumes "is = [i..<MAX_RINGS]" and "i \<le> MAX_RINGS"
  shows "\<exists>n. (reclaim_step alive now pid ^^ n) (region, Looking i) =
    (case allocate_reclaim alive now pid is region of None \<Rightarrow> (region, NoRing) | Some (region', k) \<Rightarrow> (region', Claimed k))"
  using assms
proof (induction "is" arbitrary: i)
  case Nil
  then have "i = MAX_RINGS" using upt_eq_Nil_conv [of i MAX_RINGS] by auto
  then show ?case by (intro exI [of _ 1]) simp
next
  case (Cons j js)
  have i: "i < MAX_RINGS" using Cons.prems by (cases "i < MAX_RINGS") auto
  then have "j # js = i # [Suc i..<MAX_RINGS]" using Cons.prems(1) by (simp add: upt_conv_Cons)
  then have j: "j = i" "js = [Suc i..<MAX_RINGS]" "i < MAX_RINGS" using i by auto
  obtain n where n: "(reclaim_step alive now pid ^^ n) (region, Looking (Suc i)) =
      (case allocate_reclaim alive now pid js region of None \<Rightarrow> (region, NoRing) | Some (region', k) \<Rightarrow> (region', Claimed k))"
    using Cons.IH [OF j(2)] j(3) by auto
  let ?e = "directory region ! i"
  consider (state) "entry_state ?e \<noteq> ENTRY_READY \<and> entry_state ?e \<noteq> ENTRY_INIT"
    | (owner) "entry_state ?e = ENTRY_READY \<or> entry_state ?e = ENTRY_INIT"
        "owner_pid ?e \<noteq> 0 \<and> owner_pid ?e \<noteq> pid \<and> alive (owner_pid ?e)"
    | (taken) "entry_state ?e = ENTRY_READY \<or> entry_state ?e = ENTRY_INIT"
        "\<not> (owner_pid ?e \<noteq> 0 \<and> owner_pid ?e \<noteq> pid \<and> alive (owner_pid ?e))"
    by blast
  then show ?case
  proof cases
    case state
    then have step: "reclaim_step alive now pid (region, Looking i) = (region, Looking (Suc i))" using i by simp
    show ?thesis using funpow_first [OF step n] state j(1) by (intro exI [of _ "Suc n"]) simp
  next
    case owner
    then have step: "reclaim_step alive now pid (region, Looking i) = (region, SawState i (entry_state ?e))"
        "reclaim_step alive now pid (region, SawState i (entry_state ?e)) = (region, Looking (Suc i))"
      using i by auto
    have "allocate_reclaim alive now pid (j # js) region = allocate_reclaim alive now pid js region"
      using owner j(1) by (simp add: Let_def)
    then show ?thesis using funpow_first [OF step(1) funpow_first [OF step(2) n]] by (intro exI [of _ "Suc (Suc n)"]) simp
  next
    case taken
    let ?r = "region\<lparr>directory := (directory region)[i := ?e\<lparr>entry_state := ENTRY_INIT\<rparr>]\<rparr>"
    have step: "reclaim_step alive now pid (region, Looking i) = (region, SawState i (entry_state ?e))"
        "reclaim_step alive now pid (region, SawState i (entry_state ?e)) = (region, OwnerGone i (entry_state ?e))"
        "reclaim_step alive now pid (region, OwnerGone i (entry_state ?e)) = (?r, Swapped i)"
        "(reclaim_step alive now pid ^^ Suc 0) (?r, Swapped i) = (activate_ring now ?r i pid, Claimed i)"
      using taken i by (auto simp: cas_entry_state_def)
    have alloc: "allocate_reclaim alive now pid (j # js) region = Some (activate_ring now ?r i pid, i)"
      using taken j(1) by (auto simp: cas_entry_state_def Let_def)
    show ?thesis unfolding alloc option.case prod.case
      by (rule exI, rule funpow_first [OF step(1) funpow_first [OF step(2) funpow_first [OF step(3,4)]]])
  qed
qed

lemma race_first: "race alive A B (replicate n True) (region, a, b)
    = (case (reclaim_step alive (fst A) (snd A) ^^ n) (region, a) of (region', a') \<Rightarrow> (region', a', b))"
proof (induction n arbitrary: region a)
  case (Suc n)
  obtain r' a' where "reclaim_step alive (fst A) (snd A) (region, a) = (r', a')" by fastforce
  then show ?case using Suc by (cases A; cases B) (simp add: race_def funpow_swap1)
qed (simp add: race_def)

lemma race_second: "race alive A B (replicate n False) (region, a, b)
    = (case (reclaim_step alive (fst B) (snd B) ^^ n) (region, b) of (region', b') \<Rightarrow> (region', a, b'))"
proof (induction n arbitrary: region b)
  case (Suc n)
  obtain r' b' where "reclaim_step alive (fst B) (snd B) (region, b) = (r', b')" by fastforce
  then show ?case using Suc by (cases A; cases B) (simp add: race_def funpow_swap1)
qed (simp add: race_def)

lemma race_append: "race alive A B (s1 @ s2) s = race alive A B s2 (race alive A B s1 s)"
  by (simp add: race_def)

text \<open>A process passes the entries that it may not claim.\<close>

lemma reclaim_reaches:
  assumes "\<forall>j < i. \<not> claimable alive pid (directory region ! j)" and "i \<le> MAX_RINGS"
  shows "\<exists>n. (reclaim_step alive now pid ^^ n) (region, Looking 0) = (region, Looking i)"
  using assms
proof (induction i)
  case 0
  show ?case by (intro exI [of _ 0]) simp
next
  case (Suc i)
  then obtain n where n: "(reclaim_step alive now pid ^^ n) (region, Looking 0) = (region, Looking i)" by auto
  have c: "\<not> claimable alive pid (directory region ! i)" "i < MAX_RINGS" using Suc.prems by auto
  show ?case
  proof (cases "entry_state (directory region ! i) \<noteq> ENTRY_READY \<and> entry_state (directory region ! i) \<noteq> ENTRY_INIT")
    case True
    then show ?thesis using n c(2) by (intro exI [of _ "Suc n"]) simp
  next
    case False
    then show ?thesis using n c by (intro exI [of _ "Suc (Suc n)"]) (auto simp: claimable_def Let_def)
  qed
qed

lemma reclaim_swaps:
  assumes "\<forall>j < i. \<not> claimable alive pid (directory region ! j)" and "i < MAX_RINGS"
    and "entry_state (directory region ! i) \<in> {ENTRY_READY, ENTRY_INIT}" and "\<not> alive (owner_pid (directory region ! i))"
  shows "\<exists>n. (reclaim_step alive now pid ^^ n) (region, Looking 0)
    = (region\<lparr>directory := (directory region)[i := (directory region ! i)\<lparr>entry_state := ENTRY_INIT\<rparr>]\<rparr>, Swapped i)"
proof -
  obtain n where "(reclaim_step alive now pid ^^ n) (region, Looking 0) = (region, Looking i)"
    using reclaim_reaches assms(1,2) by (metis less_imp_le)
  then show ?thesis using assms(2-4)
    by (intro exI [of _ "Suc (Suc (Suc n))"]) (auto simp: Let_def cas_entry_state_def)
qed

text \<open>C23: reclaiming is not exclusive. Let the only ring that two processes may claim belong to a dead
  process, its entry READY, or INIT because the owner died while it opened the ring. Then their two
  passes have an interleaving in which both claim this ring: each has found INIT or swapped READY
  for it, and the swap of INIT for INIT refuses neither. The owner on record is the one that was last.\<close>

theorem reclaim_not_exclusive:
  assumes wf: "region_wf region" and i: "i < MAX_RINGS"
    and state: "entry_state (directory region ! i) \<in> {ENTRY_READY, ENTRY_INIT}"
    and dead: "\<not> is_process_alive (owner_pid (directory region ! i))"
    and others: "\<forall>j < MAX_RINGS. j \<noteq> i \<longrightarrow> \<not> claimable is_process_alive pidA (directory region ! j)
      \<and> \<not> claimable is_process_alive pidB (directory region ! j)"
  shows "\<exists>schedule region'. race is_process_alive (nowA, pidA) (nowB, pidB) schedule (region, Looking 0, Looking 0)
      = (region', Claimed i, Claimed i) \<and> owner_pid (directory region' ! i) = pidB"
proof -
  define r1 where "r1 = region\<lparr>directory := (directory region)[i := (directory region ! i)\<lparr>entry_state := ENTRY_INIT\<rparr>]\<rparr>"
  have len: "i < length (directory region)" using wf i by (simp add: region_wf_def)
  have e: "directory r1 ! i = (directory region ! i)\<lparr>entry_state := ENTRY_INIT\<rparr>" using len by (simp add: r1_def)
  obtain n where n: "(reclaim_step is_process_alive nowA pidA ^^ n) (region, Looking 0) = (r1, Swapped i)"
    using reclaim_swaps [of i is_process_alive pidA region nowA] others i state dead unfolding r1_def by auto
  have "\<forall>j < i. \<not> claimable is_process_alive pidB (directory r1 ! j)" using others i by (simp add: r1_def)
  moreover have "r1\<lparr>directory := (directory r1)[i := (directory r1 ! i)\<lparr>entry_state := ENTRY_INIT\<rparr>]\<rparr> = r1"
    using len by (simp add: r1_def)
  ultimately obtain m where m: "(reclaim_step is_process_alive nowB pidB ^^ m) (r1, Looking 0) = (r1, Swapped i)"
    using reclaim_swaps [of i is_process_alive pidB r1 nowB] i dead e by auto
  let ?r = "activate_ring nowB (activate_ring nowA r1 i pidA) i pidB"
  have a: "race is_process_alive (nowA, pidA) (nowB, pidB) (replicate n True) (region, Looking 0, Looking 0) = (r1, Swapped i, Looking 0)"
    by (simp add: race_first n)
  have b: "race is_process_alive (nowA, pidA) (nowB, pidB) (replicate m False) (r1, Swapped i, Looking 0) = (r1, Swapped i, Swapped i)"
    by (simp add: race_second m)
  have "race is_process_alive (nowA, pidA) (nowB, pidB) (replicate n True @ replicate m False @ [True, False]) (region, Looking 0, Looking 0)
      = (?r, Claimed i, Claimed i)"
    unfolding race_append a b by (simp add: race_def)
  moreover have "owner_pid (directory ?r ! i) = pidB" using len by (simp add: activate_ring_def activate_entry_def r1_def)
  ultimately show ?thesis by blast
qed

text \<open>A full directory: process 9 died while it opened its ring, fifteen others are alive.\<close>

definition full_region :: shared_region where
  "full_region = zero_region\<lparr>directory := map (\<lambda>i. zero_entry\<lparr>entry_state := (if i = 4 then ENTRY_INIT else ENTRY_READY),
     owner_pid := of_nat (i + 5)\<rparr>) [0..<MAX_RINGS]\<rparr>"

theorem reclaim_not_exclusive_witness:
  "\<exists>schedule region'. race (\<lambda>p. p \<noteq> 9) (0, 100) (0, 101) schedule (full_region, Looking 0, Looking 0)
     = (region', Claimed 4, Claimed 4) \<and> owner_pid (directory region' ! 4) = 101"
proof -
  have wf: "region_wf full_region"
    using region_wf_zero by (simp add: region_wf_def full_region_def)
  have i: "(4::nat) < MAX_RINGS" by (simp add: MAX_RINGS_def)
  have r: "entry_state (directory full_region ! 4) \<in> {ENTRY_READY, ENTRY_INIT}"
      "\<not> (\<lambda>p. p \<noteq> 9) (owner_pid (directory full_region ! 4))"
    using i by (simp_all add: full_region_def)
  have "\<not> claimable (\<lambda>p. p \<noteq> 9) pid (directory full_region ! j)" if "j < MAX_RINGS" "j \<noteq> 4" "pid \<in> {100, 101}" for j pid
  proof -
    have "j \<in> set [0..<16]" using that by (simp add: MAX_RINGS_def)
    then have "of_nat (j + 5) \<noteq> (100 :: u32) \<and> of_nat (j + 5) \<noteq> (101 :: u32) \<and> of_nat (j + 5) \<noteq> (0 :: u32)
        \<and> of_nat (j + 5) \<noteq> (9 :: u32)"
      using that(2) by (auto simp: upt_rec)
    then show ?thesis using that by (auto simp: full_region_def claimable_def entry_consts)
  qed
  then show ?thesis using reclaim_not_exclusive [where is_process_alive = "\<lambda>p. p \<noteq> 9", OF wf i r, of 100 101 0 0] by simp
qed

lemma open_ring_buffer_Ok:
  assumes wf: "\<And>region. mapped = Inr region \<Longrightarrow> region_wf region" and env: "\<And>i r. region_wf r \<Longrightarrow> region_wf (env i r)"
    and o: "open_ring_buffer path mapped env alive now pid = Inr (region', h)"
  defines "i \<equiv> pub_ring_id (publish h)"
  shows "region_wf region' \<and> header_matches region' \<and> i < MAX_RINGS \<and> con_ring_id (consume h) = i
    \<and> cursors (consume h) = [] \<and> ready region' i \<and> owner_pid (directory region' ! i) = pid
    \<and> ring_rep (rings region' ! i) []"
proof -
  obtain region where m: "mapped = Inr region" using o by (cases mapped) (auto simp: open_ring_buffer_def)
  let ?r = "initialize_region_if_needed env region"
  have wf': "region_wf ?r" using initialize_region_wf [OF wf [OF m], of env] env by blast
  have a: "allocate_ring alive now ?r pid = Some (region', i)" and h: "con_ring_id (consume h) = i"
      "cursors (consume h) = []"
    using o m by (auto simp: open_ring_buffer_def i_def split: option.splits)
  note s = allocate_ring_Some [OF wf' a]
  then have "header_matches region' = header_matches ?r" by (simp add: claimed_def header_matches_def)
  then show ?thesis
    using h s claimed_region [OF wf', of i] initialize_region_matches by (simp add: activate_entry_def)
qed

lemma open_ring_buffer_fresh:
  assumes "\<not> header_matches region" and "init_lock (header region) = 0"
  shows "\<exists>region' h. open_ring_buffer path (Inr region) env alive now pid = Inr (region', h)
    \<and> pub_ring_id (publish h) = 0
    \<and> (\<forall>j. 0 < j \<and> j < MAX_RINGS \<longrightarrow> entry_state (directory region' ! j) = ENTRY_FREE)"
proof -
  let ?r = "initialize_region_if_needed env region"
  have d: "directory ?r = directory (reset_region region)"
    using assms by (simp add: initialize_region_if_needed_def unlock_init_def reset_region_def Let_def)
  have free: "entry_state (directory ?r ! j) = ENTRY_FREE" if "j < MAX_RINGS" for j
    using that by (simp add: d reset_directory) (simp add: reset_entry_def)
  have "[0..<MAX_RINGS] = 0 # [1..<16]" by (simp add: MAX_RINGS_def upt_rec)
  moreover have "length (directory ?r) = MAX_RINGS"
    using region_wf_reset [of region] by (simp add: d region_wf_def)
  ultimately have "allocate_ring alive now ?r pid = Some (claimed now pid 0 ?r, 0)"
    using free [of 0] by (simp add: allocate_ring_def cas_entry_state_def cas_then_activate MAX_RINGS_def)
  then show ?thesis using free by (simp add: open_ring_buffer_def claimed_def)
qed

text \<open>Opening. A failed mapping is returned as it is. On a mapped region, whatever the other
  processes do meanwhile to a region that stays well-formed, a successful \<open>open\<close> leaves a region
  whose header matches and a handle that publishes to and skips its own ring, which is empty,
  READY and owned by the caller; it can only fail for want of a ring, and never where the header
  did not match and nobody held the initialisation lock.\<close>

theorem open_ring_buffer_correct:
  assumes "\<And>region. mapped = Inr region \<Longrightarrow> region_wf region" and "\<And>i r. region_wf r \<Longrightarrow> region_wf (env i r)"
  shows "case open_ring_buffer path mapped env is_process_alive now pid of
      Inl e \<Rightarrow> mapped = Inl e \<or> (\<exists>region. mapped = Inr region \<and> e = ''no free ring entry in '' @ path
         \<and> (header_matches region \<or> init_lock (header region) \<noteq> 0))
    | Inr (region', h) \<Rightarrow> region_wf region' \<and> header_matches region'
         \<and> pub_ring_id (publish h) < MAX_RINGS
         \<and> con_ring_id (consume h) = pub_ring_id (publish h) \<and> cursors (consume h) = []
         \<and> ready region' (pub_ring_id (publish h))
         \<and> owner_pid (directory region' ! pub_ring_id (publish h)) = pid
         \<and> ring_rep (rings region' ! pub_ring_id (publish h)) []"
proof (cases "open_ring_buffer path mapped env is_process_alive now pid")
  case (Inl e)
  show ?thesis
  proof (cases mapped)
    case (Inr region)
    then have "e = ''no free ring entry in '' @ path"
      using Inl by (auto simp: open_ring_buffer_def split: option.splits)
    moreover have "header_matches region \<or> init_lock (header region) \<noteq> 0"
      using open_ring_buffer_fresh [of region path env is_process_alive now pid] Inl Inr by auto
    ultimately show ?thesis using Inl Inr by simp
  qed (use Inl in \<open>simp add: open_ring_buffer_def\<close>)
next
  case (Inr a)
  then obtain region' h where a: "open_ring_buffer path mapped env is_process_alive now pid = Inr (region', h)"
    by (cases a) simp
  show ?thesis using open_ring_buffer_Ok [OF assms a] unfolding a by simp
qed

theorem open_ring_buffer_correct_witness:
  "\<exists>region' h. open_ring_buffer ''/tmp/r'' (Inr zero_region) (\<lambda>_ r. r) (\<lambda>_. True) 5 77 = Inr (region', h)
    \<and> header_matches region' \<and> owner_pid (directory region' ! 0) = 77"
proof -
  have "\<not> header_matches zero_region" "init_lock (header zero_region) = 0"
    by (simp_all add: header_matches_def zero_region_def zero_header_def SHM_MAGIC_def)
  from open_ring_buffer_fresh [OF this, of "''/tmp/r''" "\<lambda>_ r. r" "\<lambda>_. True" 5 77]
  obtain region' h where o: "open_ring_buffer ''/tmp/r'' (Inr zero_region) (\<lambda>_ r. r) (\<lambda>_. True) 5 77 = Inr (region', h)"
    and z: "pub_ring_id (publish h) = 0" by blast
  show ?thesis
    using open_ring_buffer_correct [of "Inr zero_region" "\<lambda>_ r. r" "''/tmp/r''" 77 "\<lambda>_. True" 5] o z region_wf_zero
    by simp
qed

lemma size_dvd: "64 dvd size_of_header" "64 dvd size_of_entry" "64 dvd size_of_ring"
  by (simp_all add: size_of_header_def size_of_entry_def size_of_ring_def align64_def)

text \<open>C24: the layout. The offsets and sizes that \<open>reset_region\<close> writes into 32-bit fields are not
  truncated: the rings lie behind the header and the directory, one after the other without
  overlap, on cache lines, and the last one ends where the mapped file ends.\<close>

theorem ring_layout:
  assumes "i < MAX_RINGS"
  shows "unat (ring_offset (directory (reset_region region) ! i))
      = size_of_header + MAX_RINGS * size_of_entry + i * size_of_ring
    \<and> unat (ring_bytes (directory (reset_region region) ! i)) = size_of_ring
    \<and> 64 dvd unat (ring_offset (directory (reset_region region) ! i))
    \<and> (if Suc i = MAX_RINGS
       then unat (ring_offset (directory (reset_region region) ! i)) + size_of_ring = size_of_region
       else unat (ring_offset (directory (reset_region region) ! i)) + size_of_ring
         = unat (ring_offset (directory (reset_region region) ! Suc i)))"
proof -
  have off: "unat (ring_offset (directory (reset_region region) ! j))
      = size_of_header + MAX_RINGS * size_of_entry + j * size_of_ring" if "j < MAX_RINGS" for j
  proof -
    have "j \<le> 15" using that by (simp add: MAX_RINGS_def)
    then have "size_of_header + MAX_RINGS * size_of_entry + j * size_of_ring < 2 ^ 32"
      by (simp add: size_defs)
    then have "unat (of_nat (size_of_header + MAX_RINGS * size_of_entry + j * size_of_ring) :: u32)
        = size_of_header + MAX_RINGS * size_of_entry + j * size_of_ring"
      by (intro unat_of_nat_small) simp
    moreover have "ring_offset (directory (reset_region region) ! j)
        = of_nat (size_of_header + MAX_RINGS * size_of_entry + j * size_of_ring)"
      unfolding reset_directory [OF that] reset_entry_def by simp
    ultimately show ?thesis by (simp only:)
  qed
  have bytes: "unat (ring_bytes (directory (reset_region region) ! i)) = size_of_ring"
    using assms by (simp add: reset_directory) (simp add: reset_entry_def size_defs)
  have "64 dvd size_of_header + MAX_RINGS * size_of_entry + i * size_of_ring"
    by (intro dvd_add dvd_mult size_dvd)
  moreover have size: "i * size_of_ring + size_of_ring = Suc i * size_of_ring" by simp
  ultimately show ?thesis
    using assms bytes off [of "Suc i"] size unfolding off [OF assms]
    by (cases "Suc i = MAX_RINGS") (simp_all add: size_of_region_def)
qed

theorem ring_layout_witness:
  "unat (ring_offset (directory (reset_region zero_region) ! 2))
     = size_of_header + MAX_RINGS * size_of_entry + 2 * size_of_ring"
  using ring_layout [of 2 zero_region] by (simp add: MAX_RINGS_def)

end
