(* ===== verification/Event_Ring_Seqlock.thy ===== *)
theory Event_Ring_Seqlock
  imports Event_Ring_Log "HOL-Library.Sublist"
begin

text \<open>
  One ring under concurrent access: the writer's \<open>publish_payload\<close> and a reader's
  \<open>consume_one_payload\<close> split into their single loads and stores, interleaved in any order
  (\<open>seqlock_step\<close>). The payload is copied byte by byte on both sides. The memory is sequentially
  consistent: each load sees the latest store. The state carries two histories that the
  program does not have, the payloads committed so far and the payloads the reader returned.

  The theorems: a payload a reader returns is the one that was committed under its sequence
  number, never a mixture of two, and payloads are returned in the order of publication without
  repetition; and a writer or a reader that is not interrupted does what the atomic
  operations of \<open>Event_Ring\<close> do.
\<close>

section \<open>The steps\<close>

datatype writer_pc =
    W_Idle
  | W_Invalidate u64 bytes
  | W_Copy u64 bytes nat
  | W_Len u64 bytes
  | W_Commit u64 bytes
  | W_Head u64

datatype reader_pc =
    R_Idle
  | R_Seq1 u64
  | R_Len u64
  | R_Copy u64 nat bytes
  | R_Seq2 u64 bytes

record seqlock_state =
  ring :: publish_ring
  writer :: writer_pc
  reader :: reader_pc
  cursor :: ring_cursor
  committed :: "bytes list"
  returned :: "(nat \<times> bytes) list"

definition store_byte :: "nat \<Rightarrow> u8 \<Rightarrow> ring_slot \<Rightarrow> ring_slot" where
  "store_byte n b s = s\<lparr>slot_payload := (slot_payload s)[n := b]\<rparr>"

text \<open>The next access of \<open>publish_payload\<close>; an idle writer begins to publish \<open>payload\<close>.\<close>

definition writer_step :: "bytes \<Rightarrow> seqlock_state \<Rightarrow> seqlock_state" where
  "writer_step payload s =
     (case writer s of
        W_Idle \<Rightarrow> s\<lparr>writer := W_Invalidate (head_seq (ring s) + 1) payload\<rparr>
      | W_Invalidate seq p \<Rightarrow>
          s\<lparr>ring := upd_slot (slot_index seq) store_invalid (ring s), writer := W_Copy seq p 0\<rparr>
      | W_Copy seq p n \<Rightarrow>
          if n < length p then
            s\<lparr>ring := upd_slot (slot_index seq) (store_byte n (p ! n)) (ring s),
              writer := W_Copy seq p (Suc n)\<rparr>
          else s\<lparr>writer := W_Len seq p\<rparr>
      | W_Len seq p \<Rightarrow>
          s\<lparr>ring := upd_slot (slot_index seq) (store_len (length p)) (ring s), writer := W_Commit seq p\<rparr>
      | W_Commit seq p \<Rightarrow>
          s\<lparr>ring := upd_slot (slot_index seq) (store_commit seq) (ring s), writer := W_Head seq,
            committed := committed s @ [p]\<rparr>
      | W_Head seq \<Rightarrow> s\<lparr>ring := store_head seq (ring s), writer := W_Idle\<rparr>)"

definition reader_slot :: "seqlock_state \<Rightarrow> u64 \<Rightarrow> ring_slot" where
  "reader_slot s target = slots (ring s) ! slot_index target"

definition reader_retry :: "u64 \<Rightarrow> u64 \<Rightarrow> seqlock_state \<Rightarrow> seqlock_state" where
  "reader_retry seen target s =
     (if seen > target then s\<lparr>cursor := (cursor s)\<lparr>read_seq := seen - 1\<rparr>, reader := R_Idle\<rparr>
      else s\<lparr>reader := R_Idle\<rparr>)"

text \<open>The next access of \<open>consume_one_payload\<close>.\<close>

definition reader_step :: "seqlock_state \<Rightarrow> seqlock_state" where
  "reader_step s =
     (case reader s of
        R_Idle \<Rightarrow>
          (let head = head_seq (ring s) in
           if read_seq (cursor s) = head then s
           else
             (let c = (if head - read_seq (cursor s) > of_nat RING_CAPACITY
                       then (cursor s)\<lparr>read_seq := head - of_nat RING_CAPACITY\<rparr> else cursor s)
              in s\<lparr>cursor := c, reader := R_Seq1 (read_seq c + 1)\<rparr>))
      | R_Seq1 target \<Rightarrow>
          (let s1 = slot_seq (reader_slot s target) in
           if s1 \<noteq> target then reader_retry s1 target s else s\<lparr>reader := R_Len target\<rparr>)
      | R_Len target \<Rightarrow>
          (let l = unat (slot_len (reader_slot s target)) in
           if l = 0 \<or> l > SLOT_DATA_SIZE
           then s\<lparr>cursor := (cursor s)\<lparr>read_seq := target\<rparr>, reader := R_Idle\<rparr>
           else s\<lparr>reader := R_Copy target l []\<rparr>)
      | R_Copy target l buf \<Rightarrow>
          if length buf < l
          then s\<lparr>reader := R_Copy target l (buf @ [slot_payload (reader_slot s target) ! length buf])\<rparr>
          else s\<lparr>reader := R_Seq2 target buf\<rparr>
      | R_Seq2 target buf \<Rightarrow>
          (let s2 = slot_seq (reader_slot s target) in
           if s2 \<noteq> target then reader_retry s2 target s
           else s\<lparr>cursor := (cursor s)\<lparr>read_seq := target\<rparr>, reader := R_Idle,
                  returned := returned s @ [(unat target, buf)]\<rparr>))"

text \<open>Any interleaving. \<open>publish_payload\<close> reaches the ring only with a payload that fits a slot, and
  a ring is not published to \<open>2 ^ 64\<close> times.\<close>

inductive seqlock_step :: "seqlock_state \<Rightarrow> seqlock_state \<Rightarrow> bool" where
  do_write: "payload_ok p \<Longrightarrow> writer s = W_Idle \<longrightarrow> Suc (length (committed s)) < 2 ^ 64
     \<Longrightarrow> seqlock_step s (writer_step p s)"
| do_read: "seqlock_step s (reader_step s)"

inductive seqlock_run :: "seqlock_state \<Rightarrow> seqlock_state \<Rightarrow> bool" where
  refl: "seqlock_run s s"
| step: "seqlock_run s s' \<Longrightarrow> seqlock_step s' s'' \<Longrightarrow> seqlock_run s s''"

inductive_cases seqlock_stepE: "seqlock_step s s'"

definition seqlock_init :: "publish_ring \<Rightarrow> u64 \<Rightarrow> seqlock_state" where
  "seqlock_init r gen = \<lparr>ring = clear_ring r, writer = W_Idle, reader = R_Idle,
     cursor = \<lparr>cur_generation = gen, read_seq = 0\<rparr>, committed = [], returned = []\<rparr>"

section \<open>The invariant\<close>

definition slot_ok :: "bytes list \<Rightarrow> nat \<Rightarrow> ring_slot \<Rightarrow> bool" where
  "slot_ok h i s \<longleftrightarrow> slot_seq s \<noteq> 0 \<longrightarrow> unat (slot_seq s) \<le> length h
     \<and> unat (slot_seq s) mod RING_CAPACITY = i
     \<and> slot_holds s (unat (slot_seq s)) (h ! (unat (slot_seq s) - 1))"

definition slots_ok :: "bytes list \<Rightarrow> publish_ring \<Rightarrow> bool" where
  "slots_ok h r \<longleftrightarrow> (\<forall>i < RING_CAPACITY. slot_ok h i (slots r ! i))"

definition writing :: "seqlock_state \<Rightarrow> u64 \<Rightarrow> bytes \<Rightarrow> bool" where
  "writing s seq p \<longleftrightarrow> payload_ok p \<and> unat seq = Suc (length (committed s))
     \<and> unat (head_seq (ring s)) = length (committed s)"

definition writer_ok :: "seqlock_state \<Rightarrow> bool" where
  "writer_ok s =
     (case writer s of
        W_Idle \<Rightarrow> unat (head_seq (ring s)) = length (committed s)
      | W_Invalidate seq p \<Rightarrow> writing s seq p
      | W_Copy seq p n \<Rightarrow> writing s seq p \<and> slot_seq (reader_slot s seq) = 0 \<and> n \<le> length p
          \<and> take n (slot_payload (reader_slot s seq)) = take n p
      | W_Len seq p \<Rightarrow> writing s seq p \<and> slot_seq (reader_slot s seq) = 0
          \<and> take (length p) (slot_payload (reader_slot s seq)) = p
      | W_Commit seq p \<Rightarrow> writing s seq p \<and> slot_seq (reader_slot s seq) = 0
          \<and> take (length p) (slot_payload (reader_slot s seq)) = p
          \<and> unat (slot_len (reader_slot s seq)) = length p
      | W_Head seq \<Rightarrow> unat seq = length (committed s)
          \<and> Suc (unat (head_seq (ring s))) = length (committed s))"

definition target_ok :: "seqlock_state \<Rightarrow> u64 \<Rightarrow> bool" where
  "target_ok s t \<longleftrightarrow> unat t = Suc (cursor_pos (cursor s)) \<and> t \<le> head_seq (ring s)"

definition reader_ok :: "seqlock_state \<Rightarrow> bool" where
  "reader_ok s =
     (case reader s of
        R_Idle \<Rightarrow> True
      | R_Seq1 t \<Rightarrow> target_ok s t
      | R_Len t \<Rightarrow> target_ok s t
      | R_Copy t l buf \<Rightarrow> target_ok s t \<and> l \<le> SLOT_DATA_SIZE \<and> length buf \<le> l
          \<and> (slot_seq (reader_slot s t) = t \<longrightarrow> l = length (committed s ! (unat t - 1))
               \<and> buf = take (length buf) (committed s ! (unat t - 1)))
      | R_Seq2 t buf \<Rightarrow> target_ok s t
          \<and> (slot_seq (reader_slot s t) = t \<longrightarrow> buf = committed s ! (unat t - 1)))"

definition returned_ok :: "seqlock_state \<Rightarrow> bool" where
  "returned_ok s \<longleftrightarrow> sorted_wrt (<) (map fst (returned s))
     \<and> (\<forall>(t, p) \<in> set (returned s). 0 < t \<and> t \<le> cursor_pos (cursor s) \<and> p = committed s ! (t - 1))"

definition seqlock_inv :: "seqlock_state \<Rightarrow> bool" where
  "seqlock_inv s \<longleftrightarrow> ring_wf (ring s) \<and> length (committed s) < 2 ^ 64 \<and> slots_ok (committed s) (ring s)
     \<and> read_seq (cursor s) \<le> head_seq (ring s) \<and> writer_ok s \<and> reader_ok s \<and> returned_ok s"

lemma slots_upd_slot:
  "i < length (slots r) \<Longrightarrow> slots (upd_slot i f r) ! j = (if j = i then f (slots r ! i) else slots r ! j)"
  by (simp add: upd_slot_def)

lemma head_upd_slot [simp]: "head_seq (upd_slot i f r) = head_seq r"
  by (simp add: upd_slot_def)

lemma ring_wf_slot: "ring_wf r \<Longrightarrow> slot_index seq < length (slots r)"
  using slot_index_less [of seq] by (simp add: ring_wf_def)

lemma ring_wf_upd_slot:
  assumes "ring_wf r" and "\<And>s. length (slot_payload (f s)) = length (slot_payload s)"
  shows "ring_wf (upd_slot i f r)"
  using assms by (auto simp: ring_wf_def upd_slot_def list_all_length nth_list_update_if)

lemma reader_slot_upd:
  assumes "ring_wf (ring s)" and "ring s' = upd_slot (slot_index seq) f (ring s)"
  shows "reader_slot s' t = (if slot_index t = slot_index seq then f (reader_slot s t) else reader_slot s t)"
  using assms ring_wf_slot by (simp add: reader_slot_def slots_upd_slot)

lemma slots_ok_upd_invalid:
  assumes "ring_wf r" and "slots_ok h r" and "slot_seq (f (slots r ! slot_index seq)) = 0"
  shows "slots_ok h (upd_slot (slot_index seq) f r)"
  using assms ring_wf_slot by (auto simp: slots_ok_def slots_upd_slot slot_ok_def)

lemma slot_ok_append:
  assumes "slot_ok h i s"
  shows "slot_ok (h @ [p]) i s"
proof (cases "slot_seq s = 0")
  case False
  then have "0 < unat (slot_seq s)" by (simp add: unat_gt_0)
  moreover have "unat (slot_seq s) \<le> length h" using assms False by (simp add: slot_ok_def)
  ultimately have "unat (slot_seq s) - 1 < length h" by linarith
  then have "(h @ [p]) ! (unat (slot_seq s) - 1) = h ! (unat (slot_seq s) - 1)"
    by (simp only: nth_append if_True)
  then show ?thesis using assms False by (simp add: slot_ok_def)
qed (simp add: slot_ok_def)

lemma slots_ok_append: "slots_ok h r \<Longrightarrow> slots_ok (h @ [p]) r"
  by (simp add: slots_ok_def slot_ok_append)

lemma slots_ok_commit:
  assumes "ring_wf r" and "slots_ok h r" and "unat seq = Suc (length h)"
    and "slot_holds (f (slots r ! slot_index seq)) (Suc (length h)) p"
  shows "slots_ok (h @ [p]) (upd_slot (slot_index seq) f r)"
proof -
  have "slot_seq (f (slots r ! slot_index seq)) = seq"
    using assms(3,4) by (simp add: slot_holds_def word_unat_eq_iff)
  then have "slot_ok (h @ [p]) (slot_index seq) (f (slots r ! slot_index seq))"
    using assms(3,4) by (simp add: slot_ok_def slot_index_mod)
  then show ?thesis
    using assms(1) slots_ok_append [OF assms(2)] ring_wf_slot by (simp add: slots_ok_def slots_upd_slot)
qed

subsection \<open>Writer steps\<close>

text \<open>What the writer may do to a ring while a reader is at work: it never makes a slot carry a
  sequence number up to the head that the slot did not carry already.\<close>

lemma reader_ok_writer:
  assumes "reader_ok s" and "reader s' = reader s" and "cursor s' = cursor s"
    and "head_seq (ring s) \<le> head_seq (ring s')"
    and "\<And>t. t \<noteq> 0 \<Longrightarrow> t \<le> head_seq (ring s) \<Longrightarrow> slot_seq (reader_slot s' t) = t \<Longrightarrow> slot_seq (reader_slot s t) = t"
    and "\<And>k. k < unat (head_seq (ring s)) \<Longrightarrow> committed s' ! k = committed s ! k"
  shows "reader_ok s'"
proof -
  have t: "t \<noteq> 0 \<and> t \<le> head_seq (ring s) \<and> unat t - 1 < unat (head_seq (ring s)) \<and> target_ok s' t"
    if "target_ok s t" for t
    using that assms(3,4) by (auto simp: target_ok_def word_le_nat_alt unat_eq_zero)
  show ?thesis
    using assms(1,2) t assms(5,6) unfolding reader_ok_def
    by (auto split: reader_pc.splits)
qed

lemma returned_ok_writer:
  assumes "returned_ok s" and "returned s' = returned s" and "cursor s' = cursor s"
    and "cursor_pos (cursor s) \<le> length (committed s)"
    and "\<And>k. k < length (committed s) \<Longrightarrow> committed s' ! k = committed s ! k"
  shows "returned_ok s'"
proof -
  have "committed s' ! (t - 1) = committed s ! (t - 1)" if "(t, p) \<in> set (returned s)" for t p
  proof -
    have "0 < t \<and> t \<le> cursor_pos (cursor s)" using that assms(1) by (auto simp: returned_ok_def)
    then show ?thesis using assms(4) by (intro assms(5)) linarith
  qed
  then show ?thesis using assms(1-3) by (auto simp: returned_ok_def)
qed

lemma inv_head:
  assumes "seqlock_inv s"
  shows "unat (head_seq (ring s)) \<le> length (committed s)"
    and "cursor_pos (cursor s) \<le> length (committed s)"
proof -
  show h: "unat (head_seq (ring s)) \<le> length (committed s)"
    using assms unfolding seqlock_inv_def writer_ok_def writing_def by (auto split: writer_pc.splits)
  show "cursor_pos (cursor s) \<le> length (committed s)"
    using assms h by (auto simp: seqlock_inv_def word_le_nat_alt)
qed

text \<open>A store into the slot being written, which is invalid and stays so.\<close>

lemma inv_store_invalid:
  assumes inv: "seqlock_inv s" and seq: "slot_seq (f (reader_slot s seq)) = 0"
    and len: "\<And>s. length (slot_payload (f s)) = length (slot_payload s)"
    and s': "s' = s\<lparr>ring := upd_slot (slot_index seq) f (ring s), writer := w\<rparr>" and w: "writer_ok s'"
  shows "seqlock_inv s'"
proof -
  have wf: "ring_wf (ring s)" using inv by (simp add: seqlock_inv_def)
  have "slots_ok (committed s) (upd_slot (slot_index seq) f (ring s))"
    using inv seq by (intro slots_ok_upd_invalid [OF wf]) (simp_all add: seqlock_inv_def reader_slot_def)
  moreover have "reader_ok s'"
  proof (rule reader_ok_writer [of s])
    show "reader_ok s" using inv by (simp add: seqlock_inv_def)
    fix t :: u64 assume "t \<noteq> 0" and eq: "slot_seq (reader_slot s' t) = t"
    have "reader_slot s' t = (if slot_index t = slot_index seq then f (reader_slot s t) else reader_slot s t)"
      by (rule reader_slot_upd [OF wf]) (simp add: s')
    then show "slot_seq (reader_slot s t) = t"
      using eq seq \<open>t \<noteq> 0\<close> by (auto simp: reader_slot_def split: if_splits)
  qed (simp_all add: s')
  moreover have "returned_ok s'"
    by (rule returned_ok_writer [of s]) (use inv inv_head [OF inv] in \<open>simp_all add: s' seqlock_inv_def\<close>)
  ultimately show ?thesis
    using inv w ring_wf_upd_slot [OF wf len] by (simp add: seqlock_inv_def s')
qed

lemma reader_ok_writer_upd [simp]:
  "reader_slot (s\<lparr>writer := w\<rparr>) t = reader_slot s t" "target_ok (s\<lparr>writer := w\<rparr>) t = target_ok s t"
  "returned_ok (s\<lparr>writer := w\<rparr>) = returned_ok s" "writing (s\<lparr>writer := w\<rparr>) seq p = writing s seq p"
  by (simp_all add: reader_slot_def target_ok_def returned_ok_def writing_def)

lemma inv_writer_pc:
  assumes "seqlock_inv s" and "writer_ok (s\<lparr>writer := w\<rparr>)"
  shows "seqlock_inv (s\<lparr>writer := w\<rparr>)"
  using assms by (simp add: seqlock_inv_def reader_ok_def cong: reader_pc.case_cong)

lemma inv_commit:
  assumes inv: "seqlock_inv s" and w: "writer s = W_Commit seq p"
  shows "seqlock_inv (s\<lparr>ring := upd_slot (slot_index seq) (store_commit seq) (ring s),
    writer := W_Head seq, committed := committed s @ [p]\<rparr>)" (is "seqlock_inv ?s")
proof -
  have wf: "ring_wf (ring s)" using inv by (simp add: seqlock_inv_def)
  have W: "writing s seq p" "take (length p) (slot_payload (reader_slot s seq)) = p"
      "unat (slot_len (reader_slot s seq)) = length p"
    using inv w by (simp_all add: seqlock_inv_def writer_ok_def)
  have seq: "unat seq = Suc (length (committed s))" and head: "unat (head_seq (ring s)) = length (committed s)"
    using W(1) by (simp_all add: writing_def)
  have "slots_ok (committed s @ [p]) (ring ?s)"
    using inv W(2,3) seq wf
    by (simp add: slots_ok_commit seqlock_inv_def slot_holds_def store_commit_def reader_slot_def)
  moreover have "reader_ok ?s"
  proof (rule reader_ok_writer [of s])
    show "reader_ok s" using inv by (simp add: seqlock_inv_def)
    fix t assume le: "t \<le> head_seq (ring s)" and eq: "slot_seq (reader_slot ?s t) = t"
    have "t \<noteq> seq" using le seq head by (auto simp: word_le_nat_alt)
    then show "slot_seq (reader_slot s t) = t"
      using eq reader_slot_upd [OF wf, of ?s seq "store_commit seq" t]
      by (auto simp: store_commit_def split: if_splits)
  qed (simp_all add: head nth_append)
  moreover have "returned_ok ?s"
    by (rule returned_ok_writer [of s]) (use inv inv_head [OF inv] in \<open>simp_all add: seqlock_inv_def nth_append\<close>)
  moreover have "ring_wf (ring ?s)"
    using ring_wf_upd_slot [OF wf, of "store_commit seq"] by (simp add: store_commit_def)
  moreover have "Suc (length (committed s)) < 2 ^ 64" using seq unat_u64_less [of seq] by simp
  ultimately show ?thesis
    using inv seq head by (simp add: seqlock_inv_def writer_ok_def)
qed

lemma inv_head_store:
  assumes inv: "seqlock_inv s" and w: "writer s = W_Head seq"
  shows "seqlock_inv (s\<lparr>ring := store_head seq (ring s), writer := W_Idle\<rparr>)" (is "seqlock_inv ?s")
proof -
  have seq: "unat seq = length (committed s)" "Suc (unat (head_seq (ring s))) = length (committed s)"
    using inv w by (simp_all add: seqlock_inv_def writer_ok_def)
  then have le: "head_seq (ring s) \<le> seq" by (simp add: word_le_nat_alt)
  have "reader_ok ?s"
    by (rule reader_ok_writer [of s])
      (use inv le in \<open>simp_all add: seqlock_inv_def store_head_def reader_slot_def\<close>)
  moreover have "returned_ok ?s"
    by (rule returned_ok_writer [of s]) (use inv inv_head [OF inv] in \<open>simp_all add: seqlock_inv_def\<close>)
  ultimately show ?thesis
    using inv seq le by (auto simp: seqlock_inv_def writer_ok_def store_head_def ring_wf_def slots_ok_def)
qed

lemma inv_writer_step:
  assumes inv: "seqlock_inv s" and p: "payload_ok p"
    and bound: "writer s = W_Idle \<longrightarrow> Suc (length (committed s)) < 2 ^ 64"
  shows "seqlock_inv (writer_step p s)"
proof (cases "writer s")
  case W_Idle
  have "unat (head_seq (ring s)) = length (committed s)"
    using inv W_Idle by (simp add: seqlock_inv_def writer_ok_def)
  then have "unat (head_seq (ring s) + 1) = Suc (length (committed s))"
    using unat_plus_one [of "head_seq (ring s)"] bound W_Idle by simp
  then have "writer_ok (writer_step p s)"
    using inv p W_Idle by (simp add: writer_step_def writer_ok_def writing_def seqlock_inv_def)
  then show ?thesis
    using inv_writer_pc [OF inv] W_Idle by (simp add: writer_step_def)
next
  case (W_Invalidate seq q)
  let ?f = store_invalid and ?w = "W_Copy seq q 0"
  have "writer_ok (s\<lparr>ring := upd_slot (slot_index seq) ?f (ring s), writer := ?w\<rparr>)"
    using inv W_Invalidate reader_slot_upd [of s _ seq ?f seq]
    by (simp add: writer_ok_def writing_def seqlock_inv_def store_invalid_def)
  then show ?thesis
    using inv_store_invalid [OF inv, of ?f seq _ ?w] W_Invalidate
    by (simp add: writer_step_def store_invalid_def)
next
  case (W_Copy seq q n)
  show ?thesis
  proof (cases "n < length q")
    case True
    let ?f = "store_byte n (q ! n)" and ?w = "W_Copy seq q (Suc n)"
    have "n < length (slot_payload (reader_slot s seq))"
      using inv True W_Copy ring_wf_slot [of "ring s" seq]
      by (simp add: seqlock_inv_def ring_wf_def list_all_length reader_slot_def writer_ok_def
          writing_def payload_ok_def)
    then have "writer_ok (s\<lparr>ring := upd_slot (slot_index seq) ?f (ring s), writer := ?w\<rparr>)"
      using inv W_Copy True reader_slot_upd [of s _ seq ?f seq]
      by (simp add: writer_ok_def writing_def seqlock_inv_def store_byte_def take_Suc_conv_app_nth)
    then show ?thesis
      using inv_store_invalid [OF inv, of ?f seq _ ?w] W_Copy True inv
      by (simp add: writer_step_def store_byte_def seqlock_inv_def writer_ok_def)
  next
    case False
    then show ?thesis
      using inv_writer_pc [OF inv, of "W_Len seq q"] inv W_Copy
      by (auto simp: seqlock_inv_def writer_step_def writer_ok_def)
  qed
next
  case (W_Len seq q)
  let ?f = "store_len (length q)" and ?w = "W_Commit seq q"
  have "unat (of_nat (length q) :: u32) = length q"
    using inv W_Len by (intro unat_of_nat_small)
      (simp add: seqlock_inv_def writer_ok_def writing_def payload_ok_def SLOT_DATA_SIZE_def)
  then have "writer_ok (s\<lparr>ring := upd_slot (slot_index seq) ?f (ring s), writer := ?w\<rparr>)"
    using inv W_Len reader_slot_upd [of s _ seq ?f seq]
    by (simp add: writer_ok_def writing_def seqlock_inv_def store_len_def)
  then show ?thesis
    using inv_store_invalid [OF inv, of ?f seq _ ?w] W_Len inv
    by (simp add: writer_step_def store_len_def seqlock_inv_def writer_ok_def)
next
  case (W_Commit seq q)
  then show ?thesis using inv_commit [OF inv W_Commit] by (simp add: writer_step_def)
next
  case (W_Head seq)
  then show ?thesis using inv_head_store [OF inv W_Head] by (simp add: writer_step_def)
qed

subsection \<open>Reader steps\<close>

text \<open>A step that ends a read moves the cursor forward, up to the head.\<close>

lemma inv_reader_idle:
  assumes inv: "seqlock_inv s" and ge: "read_seq (cursor s) \<le> q" and le: "q \<le> head_seq (ring s)"
  shows "seqlock_inv (s\<lparr>cursor := (cursor s)\<lparr>read_seq := q\<rparr>, reader := R_Idle\<rparr>)"
  using assms by (auto simp: seqlock_inv_def reader_ok_def returned_ok_def writer_ok_def writing_def
      reader_slot_def word_le_nat_alt cong: writer_pc.case_cong)

lemma inv_reader_pc:
  assumes "seqlock_inv s" and "reader_ok (s\<lparr>reader := r\<rparr>)"
  shows "seqlock_inv (s\<lparr>reader := r\<rparr>)"
  using assms by (simp add: seqlock_inv_def returned_ok_def writer_ok_def writing_def
      reader_slot_def cong: writer_pc.case_cong)

lemma inv_reader_retry:
  assumes inv: "seqlock_inv s" and t: "target_ok s target"
    and seen: "seen = slot_seq (reader_slot s target)"
  shows "seqlock_inv (reader_retry seen target s)"
proof (cases "seen > target")
  case True
  then have nz: "seen \<noteq> 0" by auto
  have "slot_ok (committed s) (slot_index target) (reader_slot s target)"
    using inv slot_index_less by (simp add: seqlock_inv_def slots_ok_def reader_slot_def)
  then have "unat seen \<le> length (committed s)" using seen nz by (simp add: slot_ok_def)
  moreover have "length (committed s) \<le> Suc (unat (head_seq (ring s)))"
    using inv by (auto simp: seqlock_inv_def writer_ok_def writing_def split: writer_pc.splits)
  moreover have p: "unat (seen - 1) = unat seen - 1"
    using nz unat_diff_le [of 1 seen] by (simp add: word_le_nat_alt unat_gt_0 Suc_le_eq)
  ultimately have "seen - 1 \<le> head_seq (ring s)" by (simp add: word_le_nat_alt)
  moreover have "read_seq (cursor s) \<le> seen - 1"
    using True t p by (simp add: word_le_nat_alt word_less_nat_alt target_ok_def)
  ultimately show ?thesis
    using True inv_reader_idle [OF inv] by (simp add: reader_retry_def)
next
  case False
  then show ?thesis using inv_reader_pc [OF inv] by (simp add: reader_retry_def reader_ok_def)
qed

lemma inv_target:
  assumes "seqlock_inv s" and "target_ok s t"
  shows "0 < unat t" and "unat t \<le> length (committed s)" and "t \<noteq> 0"
    and "read_seq (cursor s) \<le> t" and "t \<le> head_seq (ring s)"
  using assms(2) inv_head [OF assms(1)] by (auto simp: target_ok_def word_le_nat_alt unat_eq_zero)

lemma inv_slot_held:
  assumes inv: "seqlock_inv s" and t: "t \<noteq> 0" and seq: "slot_seq (reader_slot s t) = t"
  shows "slot_holds (reader_slot s t) (unat t) (committed s ! (unat t - 1))"
  using inv t seq slot_index_less [of t]
  by (auto simp: seqlock_inv_def slots_ok_def slot_ok_def reader_slot_def)

lemma inv_deliver:
  assumes inv: "seqlock_inv s" and r: "reader s = R_Seq2 t buf" and seq: "slot_seq (reader_slot s t) = t"
  shows "seqlock_inv (s\<lparr>cursor := (cursor s)\<lparr>read_seq := t\<rparr>, reader := R_Idle,
    returned := returned s @ [(unat t, buf)]\<rparr>)"
proof -
  have t: "target_ok s t" and buf: "buf = committed s ! (unat t - 1)"
    using inv r seq by (simp_all add: seqlock_inv_def reader_ok_def)
  note tt = inv_target [OF inv t]
  have lt: "cursor_pos (cursor s) < unat t" using t by (simp add: target_ok_def)
  have "sorted_wrt (<) (map fst (returned s) @ [unat t])"
    using inv lt by (fastforce simp: seqlock_inv_def returned_ok_def sorted_wrt_append)
  moreover have "\<forall>(k, p) \<in> set (returned s @ [(unat t, buf)]). 0 < k \<and> k \<le> unat t \<and> p = committed s ! (k - 1)"
    using inv lt buf tt(1) by (fastforce simp: seqlock_inv_def returned_ok_def)
  ultimately show ?thesis
    using inv_reader_idle [OF inv tt(4,5)]
    by (simp add: seqlock_inv_def returned_ok_def reader_ok_def writer_ok_def writing_def
        reader_slot_def cong: writer_pc.case_cong)
qed

lemma inv_reader_start:
  assumes inv: "seqlock_inv s" and ne: "read_seq (cursor s) \<noteq> head_seq (ring s)"
    and c: "c = (if head_seq (ring s) - read_seq (cursor s) > of_nat RING_CAPACITY
       then (cursor s)\<lparr>read_seq := head_seq (ring s) - of_nat RING_CAPACITY\<rparr> else cursor s)"
  shows "seqlock_inv (s\<lparr>cursor := c, reader := R_Seq1 (read_seq c + 1)\<rparr>)"
proof -
  let ?h = "head_seq (ring s)" and ?c = "cursor s"
  have le: "read_seq ?c \<le> ?h" using inv by (simp add: seqlock_inv_def)
  have lt: "cursor_pos ?c < unat ?h" using le ne by (metis order_less_le word_less_nat_alt)
  have cap: "unat (of_nat RING_CAPACITY :: u64) = RING_CAPACITY" by (simp add: RING_CAPACITY_def)
  have c': "read_seq ?c \<le> read_seq c \<and> read_seq c < ?h \<and> c = ?c\<lparr>read_seq := read_seq c\<rparr>"
  proof (cases "?h - read_seq ?c > of_nat RING_CAPACITY")
    case True
    then have gt: "RING_CAPACITY < unat ?h - cursor_pos ?c"
      using unat_diff_le [OF le] by (simp add: word_less_nat_alt cap)
    then have "unat (?h - of_nat RING_CAPACITY) = unat ?h - RING_CAPACITY"
      using unat_diff_le [of "of_nat RING_CAPACITY" ?h] by (simp add: word_le_nat_alt cap)
    then show ?thesis
      using True gt by (simp add: c word_le_nat_alt word_less_nat_alt RING_CAPACITY_def)
  qed (use le ne in \<open>auto simp: c\<close>)
  have "unat (read_seq c + 1) = Suc (cursor_pos c)"
    using c' unat_plus_one [of "read_seq c"] unat_u64_less [of ?h] by (simp add: word_less_nat_alt)
  then have "target_ok (s\<lparr>cursor := c\<rparr>) (read_seq c + 1)"
    using c' by (simp add: target_ok_def word_le_nat_alt word_less_nat_alt)
  moreover have "seqlock_inv (s\<lparr>cursor := c, reader := R_Idle\<rparr>)"
    using inv_reader_idle [OF inv, of "read_seq c"] c' by (metis order.strict_implies_order)
  ultimately show ?thesis
    using inv_reader_pc [of "s\<lparr>cursor := c, reader := R_Idle\<rparr>" "R_Seq1 (read_seq c + 1)"]
    by (simp add: reader_ok_def target_ok_def)
qed

lemma target_ok_reader_upd [simp]:
  "target_ok (s\<lparr>reader := r\<rparr>) t = target_ok s t" "reader_slot (s\<lparr>reader := r\<rparr>) t = reader_slot s t"
  by (simp_all add: target_ok_def reader_slot_def)

lemma inv_reader_step:
  assumes inv: "seqlock_inv s"
  shows "seqlock_inv (reader_step s)"
proof (cases "reader s")
  case R_Idle
  then show ?thesis using inv inv_reader_start [OF inv] by (simp add: reader_step_def Let_def)
next
  case (R_Seq1 t)
  then have "target_ok s t" using inv by (simp add: seqlock_inv_def reader_ok_def)
  then show ?thesis
    using R_Seq1 inv_reader_retry [OF inv] inv_reader_pc [OF inv, of "R_Len t"]
    by (simp add: reader_step_def Let_def reader_ok_def)
next
  case (R_Len t)
  then have t: "target_ok s t" using inv by (simp add: seqlock_inv_def reader_ok_def)
  note tt = inv_target [OF inv t]
  let ?l = "unat (slot_len (reader_slot s t))"
  have "?l = length (committed s ! (unat t - 1))" if "slot_seq (reader_slot s t) = t"
    using inv_slot_held [OF inv tt(3) that] by (simp add: slot_holds_def)
  then show ?thesis
    using R_Len t inv_reader_idle [OF inv tt(4,5)] inv_reader_pc [OF inv, of "R_Copy t ?l []"]
    by (simp add: reader_step_def Let_def reader_ok_def)
next
  case (R_Copy t l buf)
  then have t: "target_ok s t" and l: "l \<le> SLOT_DATA_SIZE" "length buf \<le> l"
    and c: "slot_seq (reader_slot s t) = t \<Longrightarrow> l = length (committed s ! (unat t - 1))
      \<and> buf = take (length buf) (committed s ! (unat t - 1))"
    using inv by (auto simp: seqlock_inv_def reader_ok_def)
  let ?b = "slot_payload (reader_slot s t) ! length buf"
  have "buf @ [?b] = take (Suc (length buf)) (committed s ! (unat t - 1))"
    if seq: "slot_seq (reader_slot s t) = t" and lt: "length buf < l"
  proof -
    have "take l (slot_payload (reader_slot s t)) = committed s ! (unat t - 1)"
      using inv_slot_held [OF inv inv_target(3) [OF inv t] seq] c [OF seq] by (simp add: slot_holds_def)
    then have "?b = committed s ! (unat t - 1) ! length buf" using lt by (metis nth_take)
    then show ?thesis using c [OF seq] lt by (simp add: take_Suc_conv_app_nth)
  qed
  then show ?thesis
    using R_Copy t l c inv_reader_pc [OF inv, of "R_Copy t l (buf @ [?b])"]
      inv_reader_pc [OF inv, of "R_Seq2 t buf"]
    by (cases "length buf < l") (auto simp: reader_step_def reader_ok_def)
next
  case (R_Seq2 t buf)
  then have "target_ok s t" using inv by (simp add: seqlock_inv_def reader_ok_def)
  then show ?thesis
    using R_Seq2 inv_reader_retry [OF inv] inv_deliver [OF inv R_Seq2]
    by (simp add: reader_step_def Let_def)
qed

lemma inv_step: "seqlock_step s s' \<Longrightarrow> seqlock_inv s \<Longrightarrow> seqlock_inv s'"
  by (erule seqlock_stepE) (simp_all add: inv_writer_step inv_reader_step)

lemma inv_run: "seqlock_run s s' \<Longrightarrow> seqlock_inv s \<Longrightarrow> seqlock_inv s'"
  by (induction rule: seqlock_run.induct) (simp_all add: inv_step)

lemma inv_init:
  assumes "ring_wf r"
  shows "seqlock_inv (seqlock_init r gen)"
proof -
  have "ring_wf (clear_ring r)" using assms by (simp add: ring_wf_def clear_ring_def clear_slot_def list_all_iff)
  moreover have "slots_ok [] (clear_ring r)"
    using assms by (simp add: slots_ok_def slot_ok_def clear_ring_def clear_slot_def ring_wf_def)
  ultimately show ?thesis
    by (simp add: seqlock_inv_def seqlock_init_def writer_ok_def reader_ok_def returned_ok_def)
      (simp add: clear_ring_def)
qed

section \<open>No torn reads\<close>

lemma subseq_nth:
  assumes "sorted_wrt (<) ks" and "\<forall>k \<in> set ks. k < length xs"
  shows "subseq (map ((!) xs) ks) xs"
proof -
  have "map ((!) xs) ks = map ((!) xs) (filter (\<lambda>k. k \<in> set ks) [0..<length xs])"
  proof -
    have "ks = filter (\<lambda>k. k \<in> set ks) [0..<length xs]"
      using assms by (intro sorted_distinct_set_unique)
        (auto simp: strict_sorted_iff sorted_wrt_filter)
    then show ?thesis by simp
  qed
  also have "subseq \<dots> (map ((!) xs) [0..<length xs])"
    by (intro subseq_map subseq_filter_left)
  finally show ?thesis by (simp add: map_nth)
qed

text \<open>C2: no torn reads. In every interleaving of a writer and a reader of a ring, from its
  activation on, each payload the reader returns is, byte for byte, the payload committed under
  that sequence number; sequence numbers are returned in increasing order, so what the reader
  returned is a subsequence of what was published. It holds with the copy on both sides done
  byte by byte and however often the writer laps the reader.\<close>

theorem seqlock_no_torn_reads:
  assumes "ring_wf r" and "seqlock_run (seqlock_init r gen) s"
  shows "(\<forall>(t, p) \<in> set (returned s). 0 < t \<and> t \<le> length (committed s) \<and> p = committed s ! (t - 1))
    \<and> sorted_wrt (<) (map fst (returned s)) \<and> subseq (map snd (returned s)) (committed s)"
proof -
  have inv: "seqlock_inv s" using inv_run [OF assms(2) inv_init [OF assms(1)]] .
  have ret: "returned_ok s" using inv by (simp add: seqlock_inv_def)
  have sorted: "sorted_wrt (<) (map fst (returned s))" using ret by (simp add: returned_ok_def)
  have all: "0 < t \<and> t \<le> length (committed s) \<and> p = committed s ! (t - 1)"
    if "(t, p) \<in> set (returned s)" for t p
    using that ret inv_head(2) [OF inv] by (fastforce simp: returned_ok_def)
  let ?ks = "map (\<lambda>(t, p). t - 1) (returned s)"
  have "map snd (returned s) = map ((!) (committed s)) ?ks" using all by (auto intro!: nth_equalityI)
  moreover have "sorted_wrt (<) ?ks"
  proof -
    have "sorted_wrt (\<lambda>x y. fst x < fst y) (returned s)" using sorted by (simp add: sorted_wrt_map)
    then have "sorted_wrt (\<lambda>x y. fst x - 1 < fst y - 1) (returned s)"
      by (rule sorted_wrt_mono_rel [rotated]) (use all in fastforce)
    then show ?thesis by (simp add: sorted_wrt_map case_prod_beta)
  qed
  moreover have "\<forall>k \<in> set ?ks. k < length (committed s)" using all by fastforce
  ultimately have "subseq (map snd (returned s)) (committed s)" by (simp only: subseq_nth)
  then show ?thesis using all sorted by blast
qed

section \<open>Uninterrupted runs\<close>

lemma run_trans: "seqlock_run s' s'' \<Longrightarrow> seqlock_run s s' \<Longrightarrow> seqlock_run s s''"
  by (induction rule: seqlock_run.induct) (auto intro: seqlock_run.intros)

lemma run_write:
  "payload_ok p \<Longrightarrow> writer s = W_Idle \<longrightarrow> Suc (length (committed s)) < 2 ^ 64 \<Longrightarrow> writer_step p s = s'
   \<Longrightarrow> seqlock_run s s'"
  by (metis do_write seqlock_run.intros)

lemma run_read: "reader_step s = s' \<Longrightarrow> seqlock_run s s'"
  by (metis do_read seqlock_run.intros)

definition store_prefix :: "nat \<Rightarrow> bytes \<Rightarrow> ring_slot \<Rightarrow> ring_slot" where
  "store_prefix n p s = s\<lparr>slot_payload := take n p @ drop n (slot_payload s)\<rparr>"

lemma store_byte_prefix:
  assumes "n < length p" and "length p \<le> length (slot_payload s)"
  shows "store_byte n (p ! n) (store_prefix n p s) = store_prefix (Suc n) p s"
proof -
  have "(take n p @ drop n (slot_payload s))[n := p ! n] = take (Suc n) p @ drop (Suc n) (slot_payload s)"
    using assms by (simp add: list_update_append take_Suc_conv_app_nth drop_update_cancel
        Cons_nth_drop_Suc [of n "slot_payload s", symmetric])
  then show ?thesis by (simp add: store_byte_def store_prefix_def)
qed

lemma copy_run:
  assumes wf: "ring_wf r" and p: "payload_ok p" and n: "n \<le> length p"
  shows "seqlock_run (s\<lparr>ring := upd_slot (slot_index seq) (store_prefix 0 p) r, writer := W_Copy seq p 0\<rparr>)
     (s\<lparr>ring := upd_slot (slot_index seq) (store_prefix n p) r, writer := W_Copy seq p n\<rparr>)"
  using n
proof (induction n)
  case 0
  show ?case by (rule seqlock_run.refl)
next
  case (Suc n)
  have idx: "slot_index seq < length (slots r)" using wf by (rule ring_wf_slot)
  have "length p \<le> length (slot_payload (slots r ! slot_index seq))"
    using wf p idx by (simp add: ring_wf_def list_all_length payload_ok_def)
  then have "upd_slot (slot_index seq) (store_byte n (p ! n)) (upd_slot (slot_index seq) (store_prefix n p) r)
      = upd_slot (slot_index seq) (store_prefix (Suc n) p) r"
    using idx Suc.prems store_byte_prefix [of n p "slots r ! slot_index seq"]
    by (simp add: upd_slot_def)
  then show ?case
    using Suc by (intro run_trans [OF run_write [OF p] Suc.IH]) (simp_all add: writer_step_def)
qed

lemma writer_uninterrupted:
  assumes wf: "ring_wf (ring s)" and w: "writer s = W_Idle" and p: "payload_ok p"
    and b: "Suc (length (committed s)) < 2 ^ 64"
  shows "seqlock_run s (s\<lparr>ring := publish_to_ring p (ring s), committed := committed s @ [p]\<rparr>)"
proof -
  let ?seq = "head_seq (ring s) + 1" and ?r = "ring s"
  let ?i = "slot_index ?seq" and ?r0 = "upd_slot (slot_index (head_seq (ring s) + 1)) store_invalid (ring s)"
  let ?s1 = "s\<lparr>writer := W_Invalidate ?seq p\<rparr>" and ?s2 = "s\<lparr>ring := ?r0, writer := W_Copy ?seq p 0\<rparr>"
  have wf0: "ring_wf ?r0" using wf by (rule ring_wf_upd_slot) (simp add: store_invalid_def)
  have "upd_slot ?i (store_prefix 0 p) ?r0 = ?r0"
    by (simp add: upd_slot_def store_prefix_def)
  then have copy: "seqlock_run ?s2 (s\<lparr>ring := upd_slot ?i (store_prefix (length p) p) ?r0,
      writer := W_Copy ?seq p (length p)\<rparr>)" (is "seqlock_run _ ?s3")
    using copy_run [OF wf0 p order.refl, where s = s and seq = ?seq] by simp
  let ?s4 = "?s3\<lparr>writer := W_Len ?seq p\<rparr>"
  let ?s5 = "?s3\<lparr>ring := upd_slot ?i (store_len (length p)) (ring ?s3), writer := W_Commit ?seq p\<rparr>"
  let ?s6 = "?s5\<lparr>ring := upd_slot ?i (store_commit ?seq) (ring ?s5), writer := W_Head ?seq,
    committed := committed s @ [p]\<rparr>"
  let ?s7 = "?s6\<lparr>ring := store_head ?seq (ring ?s6), writer := W_Idle\<rparr>"
  note w' = run_write [OF p]
  have "seqlock_run s ?s1" using b w by (intro w') (simp_all add: writer_step_def)
  moreover have "seqlock_run ?s1 ?s2" by (rule w') (simp_all add: writer_step_def)
  moreover have "seqlock_run ?s3 ?s4" by (rule w') (simp_all add: writer_step_def)
  moreover have "seqlock_run ?s4 ?s5" by (rule w') (simp_all add: writer_step_def)
  moreover have "seqlock_run ?s5 ?s6" by (rule w') (simp_all add: writer_step_def)
  moreover have "seqlock_run ?s6 ?s7" by (rule w') (simp_all add: writer_step_def)
  ultimately have "seqlock_run s ?s7" using copy by (meson run_trans)
  moreover have "store_prefix (length p) p = store_payload p"
    by (simp add: fun_eq_iff store_prefix_def store_payload_def)
  then have "?s7 = s\<lparr>ring := publish_to_ring p (ring s), committed := committed s @ [p]\<rparr>"
    using w by (cases s) (simp add: publish_to_ring_def Let_def)
  ultimately show ?thesis by simp
qed

lemma reader_copy_run:
  assumes "n \<le> l" and "l \<le> length (slot_payload (reader_slot s t))"
  shows "seqlock_run (s\<lparr>reader := R_Copy t l []\<rparr>)
     (s\<lparr>reader := R_Copy t l (take n (slot_payload (reader_slot s t)))\<rparr>)"
  using assms(1)
proof (induction n)
  case 0
  show ?case by (simp add: seqlock_run.refl)
next
  case (Suc n)
  then show ?case
    using assms(2) by (intro run_trans [OF run_read Suc.IH])
      (simp_all add: reader_step_def take_Suc_conv_app_nth)
qed

definition reader_result :: "seqlock_state \<Rightarrow> ring_cursor \<times> bytes option \<Rightarrow> seqlock_state" where
  "reader_result s res = s\<lparr>cursor := fst res, returned := returned s @
     (case snd res of None \<Rightarrow> [] | Some buf \<Rightarrow> [(cursor_pos (fst res), buf)])\<rparr>"

lemma reader_result_idle:
  assumes "reader s = R_Idle"
  shows "reader_result s (c, None) = s\<lparr>cursor := c, reader := R_Idle\<rparr>"
    and "reader_result s (c, Some buf) = s\<lparr>cursor := c, reader := R_Idle,
      returned := returned s @ [(cursor_pos c, buf)]\<rparr>"
  using assms by (cases s; simp add: reader_result_def)+

lemma reader_uninterrupted:
  assumes wf: "ring_wf (ring s)" and r: "reader s = R_Idle"
  shows "seqlock_run s (reader_result s (consume_one_payload (ring s) (cursor s)))"
proof -
  define c where "c = (if head_seq (ring s) - read_seq (cursor s) > of_nat RING_CAPACITY
    then (cursor s)\<lparr>read_seq := head_seq (ring s) - of_nat RING_CAPACITY\<rparr> else cursor s)"
  define t where "t = read_seq c + 1"
  define slot where "slot = slots (ring s) ! slot_index t"
  let ?l = "unat (slot_len slot)" and ?res = "consume_one_payload (ring s) (cursor s)"
  have slot: "reader_slot s' t = slot" if "ring s' = ring s" for s'
    using that by (simp add: reader_slot_def slot_def)
  have payload: "length (slot_payload slot) = SLOT_DATA_SIZE"
    using wf ring_wf_slot [OF wf, of t] by (simp add: ring_wf_def list_all_length slot_def)
  have res: "?res = (if read_seq (cursor s) = head_seq (ring s) then (cursor s, None)
      else if slot_seq slot \<noteq> t then
        (if slot_seq slot > t then c\<lparr>read_seq := slot_seq slot - 1\<rparr> else c, None)
      else if ?l = 0 \<or> ?l > SLOT_DATA_SIZE then (c\<lparr>read_seq := t\<rparr>, None)
      else (c\<lparr>read_seq := t\<rparr>, Some (take ?l (slot_payload slot))))"
    by (simp add: consume_one_payload_def consume_loaded_def Let_def c_def t_def slot_def)
  let ?s1 = "s\<lparr>cursor := c, reader := R_Seq1 t\<rparr>" and ?s2 = "s\<lparr>cursor := c, reader := R_Len t\<rparr>"
  have 1: "seqlock_run s ?s1" if "read_seq (cursor s) \<noteq> head_seq (ring s)"
    using that r by (intro run_read) (simp add: reader_step_def Let_def c_def t_def)
  have 2: "seqlock_run ?s1 ?s2" if "slot_seq slot = t"
    using that by (intro run_read) (simp add: reader_step_def slot Let_def)
  consider (none) "read_seq (cursor s) = head_seq (ring s)"
    | (retry) "read_seq (cursor s) \<noteq> head_seq (ring s)" "slot_seq slot \<noteq> t"
    | (bad) "read_seq (cursor s) \<noteq> head_seq (ring s)" "slot_seq slot = t" "?l = 0 \<or> ?l > SLOT_DATA_SIZE"
    | (ok) "read_seq (cursor s) \<noteq> head_seq (ring s)" "slot_seq slot = t" "0 < ?l" "?l \<le> SLOT_DATA_SIZE"
    by linarith
  then show ?thesis
  proof cases
    case none
    then have "reader_result s ?res = s" by (simp add: res reader_result_def)
    then show ?thesis by (simp add: seqlock_run.refl)
  next
    case retry
    then have "seqlock_run ?s1 (reader_result s ?res)"
      by (intro run_read) (simp add: reader_step_def slot Let_def reader_retry_def res
          reader_result_idle [OF r])
    then show ?thesis using 1 [OF retry(1)] by (rule run_trans)
  next
    case bad
    then have "seqlock_run ?s2 (reader_result s ?res)"
      by (intro run_read) (auto simp: reader_step_def slot Let_def res reader_result_idle [OF r])
    then show ?thesis using 1 [OF bad(1)] 2 [OF bad(2)] by (meson run_trans)
  next
    case ok
    let ?s3 = "s\<lparr>cursor := c, reader := R_Copy t ?l []\<rparr>"
      and ?s4 = "s\<lparr>cursor := c, reader := R_Copy t ?l (take ?l (slot_payload slot))\<rparr>"
      and ?s5 = "s\<lparr>cursor := c, reader := R_Seq2 t (take ?l (slot_payload slot))\<rparr>"
    have "seqlock_run ?s2 ?s3" using ok by (intro run_read) (simp add: reader_step_def slot Let_def)
    moreover have "seqlock_run ?s3 ?s4"
      using reader_copy_run [of ?l ?l "s\<lparr>cursor := c\<rparr>" t] ok payload by (simp add: slot)
    moreover have "seqlock_run ?s4 ?s5"
      using ok payload by (intro run_read) (simp add: reader_step_def)
    moreover have "seqlock_run ?s5 (reader_result s ?res)"
      using ok by (intro run_read) (simp add: reader_step_def slot Let_def res reader_result_idle [OF r])
    ultimately show ?thesis using 1 [OF ok(1)] 2 [OF ok(2)] by (meson run_trans)
  qed
qed

text \<open>C25: the atomic operations are the uninterrupted runs. From a state with an idle writer, the
  writer's accesses in a row leave the ring that \<open>publish_to_ring\<close> gives and commit the payload;
  from a state with an idle reader, the reader's accesses in a row leave the cursor and return
  the payload that \<open>consume_one_payload\<close> gives.\<close>

theorem uninterrupted_is_atomic:
  assumes "ring_wf (ring s)" and "writer s = W_Idle" and "reader s = R_Idle" and "payload_ok p"
    and "Suc (length (committed s)) < 2 ^ 64"
  shows "seqlock_run s (s\<lparr>ring := publish_to_ring p (ring s), committed := committed s @ [p]\<rparr>)
    \<and> seqlock_run s (reader_result s (consume_one_payload (ring s) (cursor s)))"
  using writer_uninterrupted [OF assms(1,2,4,5)] reader_uninterrupted [OF assms(1,3)] by blast

lemma zero_ring_wf: "ring_wf zero_ring"
  by (simp add: ring_wf_def zero_ring_def zero_slot_def list_all_length)

theorem uninterrupted_is_atomic_witness:
  "seqlock_run (seqlock_init zero_ring 1) ((seqlock_init zero_ring 1)
     \<lparr>ring := publish_to_ring [7] (clear_ring zero_ring), committed := [[7]]\<rparr>)"
proof -
  have "ring_wf (ring (seqlock_init zero_ring 1))"
    using inv_init [OF zero_ring_wf, of 1] by (simp add: seqlock_inv_def)
  from uninterrupted_is_atomic [OF this, of "[7]"] show ?thesis
    by (simp add: seqlock_init_def payload_ok_def SLOT_DATA_SIZE_def)
qed

theorem seqlock_no_torn_reads_witness:
  "\<exists>s. seqlock_run (seqlock_init zero_ring 1) s \<and> map snd (returned s) = [[7]] \<and> committed s = [[7]]
     \<and> subseq (map snd (returned s)) (committed s)"
proof -
  let ?r = "publish_to_ring [7] (clear_ring zero_ring)"
  let ?s0 = "seqlock_init zero_ring 1" and ?p = "[7] :: bytes"
  let ?s1 = "?s0\<lparr>ring := ?r, committed := [?p]\<rparr>"
  have ok: "payload_ok ?p" by (simp add: payload_ok_def SLOT_DATA_SIZE_def)
  have wf: "ring_wf (ring ?s0)" using inv_init [OF zero_ring_wf, of 1] by (simp add: seqlock_inv_def)
  have rep: "ring_rep ?r [?p]"
    using ring_rep_publish [of "clear_ring zero_ring" "[]" ?p] ok wf
    by (simp add: ring_rep_def seqlock_init_def) (simp add: clear_ring_def)
  have run1: "seqlock_run ?s0 ?s1"
    using writer_uninterrupted [OF wf _ ok] by (simp add: seqlock_init_def)
  have "consume_one_payload ?r (cursor ?s1) = ((cursor ?s1)\<lparr>read_seq := 1\<rparr>, Some ?p)"
    using consume_behind [OF rep, of "cursor ?s1"]
    by (simp add: seqlock_init_def oldest_available_def RING_CAPACITY_def)
  then have run2: "seqlock_run ?s1 (reader_result ?s1 ((cursor ?s1)\<lparr>read_seq := 1\<rparr>, Some ?p))"
    using reader_uninterrupted [of ?s1] rep by (simp add: ring_rep_def seqlock_init_def)
  have run: "seqlock_run ?s0 (reader_result ?s1 ((cursor ?s1)\<lparr>read_seq := 1\<rparr>, Some ?p))"
    by (rule run_trans [OF run2 run1])
  then show ?thesis
    using seqlock_no_torn_reads [OF zero_ring_wf run]
    by (intro exI [of _ "reader_result ?s1 ((cursor ?s1)\<lparr>read_seq := 1\<rparr>, Some ?p)"])
      (simp add: reader_result_def seqlock_init_def)
qed

end
