(* ===== verification/Event_Reader.thy ===== *)
theory Event_Reader
  imports Event_Pattern
begin

text \<open>
  The queue behind one subscription, which the daemon (\<^verbatim>\<open>ServiceReaderState\<close> of
  \<^verbatim>\<open>kernel/kevent/src/service.rs\<close>) and the client library (\<^verbatim>\<open>ReaderState\<close> of
  \<^verbatim>\<open>kernel/buckyos-api/src/kevent_client.rs\<close>) define with the same code: a pattern set and a
  bounded queue that drops its oldest event when it is full. Delivering an event offers it to
  every reader. The lock and the wake-up of a waiting task are not part of the state: each
  operation holds the lock throughout.

  The contract \<open>bounded_queue\<close> gives what a queue holds after any number of deliveries; the
  daemon's and the client's theorems use it for their readers.
\<close>

section \<open>Readers\<close>

record 'd reader_state =
  r_patterns :: "string list"
  r_queue :: "'d event list"
  r_capacity :: nat

definition reader_new :: "string list \<Rightarrow> nat \<Rightarrow> 'd reader_state" where
  "reader_new patterns capacity = \<lparr>r_patterns = patterns, r_queue = [], r_capacity = capacity\<rparr>"

definition reader_matches :: "'d reader_state \<Rightarrow> string \<Rightarrow> bool" where
  "reader_matches r eid = match_event_patterns (r_patterns r) eid"

definition reader_push :: "'d event \<Rightarrow> 'd reader_state \<Rightarrow> 'd reader_state" where
  "reader_push ev r =
     (let queue = (if length (r_queue r) \<ge> r_capacity r then tl (r_queue r) else r_queue r)
      in r\<lparr>r_queue := queue @ [ev]\<rparr>)"

definition reader_pop :: "'d reader_state \<Rightarrow> 'd reader_state \<times> 'd event option" where
  "reader_pop r =
     (case r_queue r of [] \<Rightarrow> (r, None) | ev # queue \<Rightarrow> (r\<lparr>r_queue := queue\<rparr>, Some ev))"

text \<open>The loop of \<open>distribute\<close> and \<open>dispatch_event\<close>.\<close>

definition offer :: "'d event \<Rightarrow> 'd reader_state \<Rightarrow> 'd reader_state" where
  "offer ev r = (if reader_matches r (eventid ev) then reader_push ev r else r)"

definition deliver_all :: "'d event \<Rightarrow> ('k, 'd reader_state) hmap \<Rightarrow> ('k, 'd reader_state) hmap" where
  "deliver_all ev readers = map (\<lambda>(k, r). (k, offer ev r)) readers"

section \<open>Bounded queues\<close>

text \<open>The last \<open>n\<close> elements of a list.\<close>

definition last_n :: "nat \<Rightarrow> 'a list \<Rightarrow> 'a list" where
  "last_n n xs = drop (length xs - n) xs"

lemma length_last_n [simp]: "length (last_n n xs) = min n (length xs)"
  by (simp add: last_n_def)

lemma last_n_short [simp]: "length xs \<le> n \<Longrightarrow> last_n n xs = xs"
  by (simp add: last_n_def)

lemma last_n_snoc:
  assumes "0 < n"
  shows "last_n n (last_n n xs @ [x]) = last_n n (xs @ [x])"
  using assms by (cases "length xs < n") (auto simp: last_n_def Suc_diff_le)

lemma suffix_last_n: "suffix (last_n n xs) xs"
  by (simp add: last_n_def suffix_drop)

text \<open>A bounded first-in first-out queue that drops from the front when it is full.\<close>

locale bounded_queue =
  fixes content :: "'q \<Rightarrow> 'e list"
    and bound :: "'q \<Rightarrow> nat"
    and put :: "'e \<Rightarrow> 'q \<Rightarrow> 'q"
    and get :: "'q \<Rightarrow> 'q \<times> 'e option"
  assumes put_content: "0 < bound q \<Longrightarrow> length (content q) \<le> bound q
      \<Longrightarrow> content (put e q) = last_n (bound q) (content q @ [e])"
    and put_bound: "bound (put e q) = bound q"
    and get_empty: "content q = [] \<Longrightarrow> get q = (q, None)"
    and get_first: "content q = e # es \<Longrightarrow> snd (get q) = Some e \<and> content (fst (get q)) = es
      \<and> bound (fst (get q)) = bound q"
begin

lemma put_all_bound: "bound (fold put es q) = bound q"
  by (induction es arbitrary: q) (simp_all add: put_bound)

lemma put_all_content:
  assumes "0 < bound q" and "length (content q) \<le> bound q"
  shows "content (fold put es q) = last_n (bound q) (content q @ es)"
  using assms
proof (induction es rule: rev_induct)
  case Nil
  then show ?case by simp
next
  case (snoc e es)
  have "length (content (fold put es q)) \<le> bound (fold put es q)"
    using snoc by (simp add: put_all_bound)
  then have "content (put e (fold put es q))
      = last_n (bound q) (last_n (bound q) (content q @ es) @ [e])"
    using snoc by (simp add: put_content put_all_bound)
  then show ?case using snoc.prems last_n_snoc by (metis append.assoc fold_append fold_simps comp_apply)
qed

lemma put_all_length:
  assumes "0 < bound q" and "length (content q) \<le> bound q"
  shows "length (content (fold put es q)) \<le> bound q"
  using put_all_content [OF assms] by simp

end

definition reader_ok :: "'d reader_state \<Rightarrow> bool" where
  "reader_ok r \<longleftrightarrow> 0 < r_capacity r \<and> length (r_queue r) \<le> r_capacity r"

interpretation rq: bounded_queue r_queue r_capacity reader_push reader_pop
proof unfold_locales
  fix q :: "'d reader_state" and e
  assume "0 < r_capacity q" "length (r_queue q) \<le> r_capacity q"
  then show "r_queue (reader_push e q) = last_n (r_capacity q) (r_queue q @ [e])"
    by (cases "r_queue q") (auto simp: reader_push_def last_n_def)
qed (simp_all add: reader_push_def Let_def reader_pop_def)

section \<open>Delivery\<close>

lemma reader_push_patterns [simp]:
  "r_patterns (reader_push ev r) = r_patterns r" "r_capacity (reader_push ev r) = r_capacity r"
  by (simp_all add: reader_push_def Let_def)

lemma offer_frame [simp]: "r_patterns (offer ev r) = r_patterns r" "r_capacity (offer ev r) = r_capacity r"
  by (simp_all add: offer_def)

lemma offer_queue:
  assumes "reader_ok r"
  shows "r_queue (offer ev r) = last_n (r_capacity r)
    (r_queue r @ (if match_event_patterns (r_patterns r) (eventid ev) then [ev] else []))"
  using assms by (simp add: offer_def reader_ok_def rq.put_content reader_matches_def)

lemma offer_ok: "reader_ok r \<Longrightarrow> reader_ok (offer ev r)"
  by (simp add: reader_ok_def offer_queue)

lemma hm_get_deliver_all [hm_simps]:
  "hm_get (deliver_all ev readers) k = map_option (offer ev) (hm_get readers k)"
  by (simp add: deliver_all_def hm_get_map_values)

lemma hm_wf_deliver_all [hm_simps]: "hm_wf (deliver_all ev readers) = hm_wf readers"
  by (simp add: deliver_all_def hm_wf_map_values)

text \<open>After any sequence of deliveries a reader's queue holds the newest of the events that match
  its patterns, in the order of delivery.\<close>

lemma offer_all:
  assumes "reader_ok r"
  shows "r_queue (fold offer evs r) = last_n (r_capacity r)
    (r_queue r @ filter (\<lambda>ev. match_event_patterns (r_patterns r) (eventid ev)) evs)"
proof -
  have "fold offer evs r = fold reader_push (filter (\<lambda>ev. match_event_patterns (r_patterns r) (eventid ev)) evs) r"
    by (induction evs arbitrary: r) (simp_all add: offer_def reader_matches_def)
  then show ?thesis using assms rq.put_all_content [of r] by (simp add: reader_ok_def)
qed

end
