(* ===== verification/Event_Service.thy ===== *)
theory Event_Service
  imports Event_Reader Event_Ring_Region
begin

text \<open>
  The event daemon (\<^verbatim>\<open>kernel/kevent/src/service.rs\<close>, and the connection loop of
  \<^verbatim>\<open>kernel/kevent/src/native_server.rs\<close>): reader registration by session, publication from local
  callers, from clients and from peer daemons, pulling, and the protocol handler.

  The state \<open>kevent_service\<close> has the fields of \<^verbatim>\<open>KEventService\<close>, and two more for what it acts on:
  the region behind the shared ring, and the calls made to peers so far. What is not under
  the repository's control is a parameter: the JSON encoders, the peer publishers
  (\<open>broadcast\<close>), the clock, the process id, and in \<open>pull_event_in\<close> what happens while the
  caller waits.
\<close>

section \<open>State\<close>

definition MAX_EVENT_DATA_SIZE_BYTES :: nat where "MAX_EVENT_DATA_SIZE_BYTES = 64 * 1024"
definition DEFAULT_DAEMON_READER_CAPACITY :: nat where "DEFAULT_DAEMON_READER_CAPACITY = 1024"

type_synonym session_id = u64
type_synonym reader_key = "session_id \<times> string"

definition SHARED :: session_id where "SHARED = 0"

record ('d, 'p) kevent_service =
  svc_source_node :: string
  svc_reader_capacity :: nat
  svc_readers :: "(reader_key, 'd reader_state) hmap"
  svc_peers :: "'p list"
  svc_shared_ring :: "publish_inner option"
  svc_session_seq :: u64
  svc_region :: shared_region
  svc_broadcasts :: "('p \<times> 'd event) list"

record ('d, 'p) kevent_env =
  to_vec_event :: "'d event \<Rightarrow> (string, bytes) result"
  to_vec_data :: "'d \<Rightarrow> (string, bytes) result"
  broadcast :: "'p \<Rightarrow> 'd event \<Rightarrow> unit kevent_result"
  now_millis :: u64
  process_id :: u32

definition new_with_capacity :: "string \<Rightarrow> nat \<Rightarrow> shared_region \<Rightarrow> ('d, 'p) kevent_service" where
  "new_with_capacity node cap region = \<lparr>svc_source_node = node, svc_reader_capacity = max cap 1,
     svc_readers = [], svc_peers = [], svc_shared_ring = None, svc_session_seq = 0,
     svc_region = region, svc_broadcasts = []\<rparr>"

definition open_session :: "('d, 'p) kevent_service \<Rightarrow> ('d, 'p) kevent_service \<times> session_id" where
  "open_session svc = (svc\<lparr>svc_session_seq := svc_session_seq svc + 1\<rparr>, svc_session_seq svc + 1)"

definition close_session :: "session_id \<Rightarrow> ('d, 'p) kevent_service
    \<Rightarrow> ('d, 'p) kevent_service \<times> nat" where
  "close_session session svc =
     (if session = SHARED then (svc, 0)
      else
        (let before = length (svc_readers svc);
             readers = hm_retain (\<lambda>key. fst key \<noteq> session) (svc_readers svc)
         in (svc\<lparr>svc_readers := readers\<rparr>, before - length readers)))"

definition reader_count :: "('d, 'p) kevent_service \<Rightarrow> nat" where
  "reader_count svc = length (svc_readers svc)"

definition add_peer_publisher :: "'p \<Rightarrow> ('d, 'p) kevent_service \<Rightarrow> ('d, 'p) kevent_service" where
  "add_peer_publisher peer svc = svc\<lparr>svc_peers := svc_peers svc @ [peer]\<rparr>"

definition set_shared_ring :: "publish_inner \<Rightarrow> ('d, 'p) kevent_service \<Rightarrow> ('d, 'p) kevent_service" where
  "set_shared_ring ring svc = svc\<lparr>svc_shared_ring := Some ring\<rparr>"

section \<open>Registration\<close>

text \<open>The validation loop of \<open>register_reader_in\<close> and \<open>update_reader_in\<close>.\<close>

fun check_global_patterns :: "string list \<Rightarrow> unit kevent_result" where
  "check_global_patterns [] = Inr ()"
| "check_global_patterns (p # ps) =
     rbind (validate_pattern p) (\<lambda>_.
       if \<not> is_global_pattern p then Inl (InvalidPattern ''daemon only supports global patterns'')
       else check_global_patterns ps)"

definition register_reader_in :: "session_id \<Rightarrow> string \<Rightarrow> string list
    \<Rightarrow> ('d, 'p) kevent_service \<Rightarrow> ('d, 'p) kevent_service \<times> unit kevent_result" where
  "register_reader_in session reader_id patterns svc =
     (if reader_id = [] then (svc, Inl (InvalidPattern ''reader_id must not be empty''))
      else if patterns = [] then (svc, Inl (InvalidPattern ''patterns must not be empty''))
      else
        (case check_global_patterns patterns of
           Inl e \<Rightarrow> (svc, Inl e)
         | Inr _ \<Rightarrow>
             (let normalized = normalize_patterns patterns; key = (session, reader_id) in
              case hm_get (svc_readers svc) key of
                Some existing \<Rightarrow>
                  (svc\<lparr>svc_readers := hm_insert key (existing\<lparr>r_patterns := normalized\<rparr>)
                         (svc_readers svc)\<rparr>, Inr ())
              | None \<Rightarrow>
                  (svc\<lparr>svc_readers := hm_insert key
                         (reader_new normalized (svc_reader_capacity svc)) (svc_readers svc)\<rparr>,
                   Inr ()))))"

definition unregister_reader_in :: "session_id \<Rightarrow> string
    \<Rightarrow> ('d, 'p) kevent_service \<Rightarrow> ('d, 'p) kevent_service" where
  "unregister_reader_in session reader_id svc =
     svc\<lparr>svc_readers := hm_remove (session, reader_id) (svc_readers svc)\<rparr>"

definition update_reader_in :: "session_id \<Rightarrow> string \<Rightarrow> string list \<Rightarrow> string list
    \<Rightarrow> ('d, 'p) kevent_service \<Rightarrow> ('d, 'p) kevent_service \<times> unit kevent_result" where
  "update_reader_in session reader_id add remove svc =
     (if reader_id = [] then (svc, Inl (InvalidPattern ''reader_id must not be empty''))
      else
        (case check_global_patterns (add @ remove) of
           Inl e \<Rightarrow> (svc, Inl e)
         | Inr _ \<Rightarrow>
             (case hm_get (svc_readers svc) (session, reader_id) of
                None \<Rightarrow> (svc, Inl (ReaderClosed reader_id))
              | Some reader \<Rightarrow>
                  (let kept = filter (\<lambda>p. p \<notin> set remove) (r_patterns reader);
                       nxt = (if add \<noteq> [] then normalize_patterns (kept @ add) else kept)
                   in if nxt = [] then
                        (svc, Inl (InvalidPattern ''reader must keep at least one pattern''))
                      else
                        (svc\<lparr>svc_readers := hm_insert (session, reader_id)
                               (reader\<lparr>r_patterns := nxt\<rparr>) (svc_readers svc)\<rparr>, Inr ())))))"

section \<open>Publishing\<close>

definition validate_event_data_size :: "('d \<Rightarrow> (string, bytes) result) \<Rightarrow> 'd \<Rightarrow> unit kevent_result" where
  "validate_event_data_size to_vec d =
     rbind (map_err (\<lambda>e. Internal (''failed to encode event data: '' @ e)) (to_vec d)) (\<lambda>bs.
       if length bs > MAX_EVENT_DATA_SIZE_BYTES then
         Inl (InvalidEventId (''event data too large: '' @ show_nat (length bs) @ '' bytes, max ''
           @ show_nat MAX_EVENT_DATA_SIZE_BYTES))
       else Inr ())"

definition should_broadcast_to_peers :: "'d event \<Rightarrow> string \<Rightarrow> bool" where
  "should_broadcast_to_peers ev local_node =
     (case ingress_node ev of Some node \<Rightarrow> node = local_node | None \<Rightarrow> True)"

definition distribute :: "'d event \<Rightarrow> ('d, 'p) kevent_service \<Rightarrow> ('d, 'p) kevent_service" where
  "distribute ev svc = svc\<lparr>svc_readers := deliver_all ev (svc_readers svc)\<rparr>"

text \<open>The loop over the peers keeps the last error.\<close>

fun broadcast_loop :: "('p \<Rightarrow> 'd event \<Rightarrow> unit kevent_result) \<Rightarrow> 'd event \<Rightarrow> 'p list
    \<Rightarrow> kevent_error option \<Rightarrow> kevent_error option" where
  "broadcast_loop bc ev [] last_error = last_error"
| "broadcast_loop bc ev (peer # peers) last_error =
     (case bc peer ev of
        Inl err \<Rightarrow> broadcast_loop bc ev peers (Some err)
      | Inr _ \<Rightarrow> broadcast_loop bc ev peers last_error)"

definition broadcast_to_peers :: "('d, 'p) kevent_env \<Rightarrow> 'd event \<Rightarrow> ('d, 'p) kevent_service
    \<Rightarrow> ('d, 'p) kevent_service \<times> unit kevent_result" where
  "broadcast_to_peers env ev svc =
     (svc\<lparr>svc_broadcasts := svc_broadcasts svc @ map (\<lambda>peer. (peer, ev)) (svc_peers svc)\<rparr>,
      case broadcast_loop (broadcast env) ev (svc_peers svc) None of
        Some err \<Rightarrow> Inl err | None \<Rightarrow> Inr ())"

definition mirror_to_shared_ring :: "('d, 'p) kevent_env \<Rightarrow> 'd event \<Rightarrow> ('d, 'p) kevent_service
    \<Rightarrow> ('d, 'p) kevent_service \<times> unit kevent_result" where
  "mirror_to_shared_ring env ev svc =
     (case svc_shared_ring svc of
        None \<Rightarrow> (svc, Inr ())
      | Some ring \<Rightarrow>
          (case publish_event (to_vec_event env) (now_millis env) ring ev (svc_region svc) of
             (region', r) \<Rightarrow> (svc\<lparr>svc_region := region'\<rparr>, map_err Internal r)))"

text \<open>What all publications end with: mirror into the ring, deliver to the readers, and pass on to
  the peers what entered the network here.\<close>

definition deliver_and_broadcast :: "('d, 'p) kevent_env \<Rightarrow> 'd event \<Rightarrow> ('d, 'p) kevent_service
    \<Rightarrow> ('d, 'p) kevent_service \<times> unit kevent_result" where
  "deliver_and_broadcast env ev svc =
     (let svc = distribute ev svc in
      if should_broadcast_to_peers ev (svc_source_node svc) then broadcast_to_peers env ev svc
      else (svc, Inr ()))"

definition check_global_event :: "('d, 'p) kevent_env \<Rightarrow> string \<Rightarrow> string \<Rightarrow> 'd \<Rightarrow> unit kevent_result" where
  "check_global_event env msg eid d =
     (if \<not> is_global_eventid eid then Inl (InvalidEventId msg)
      else rbind (validate_eventid eid) (\<lambda>_. validate_event_data_size (to_vec_data env) d))"

definition local_event :: "('d, 'p) kevent_env \<Rightarrow> string \<Rightarrow> 'd \<Rightarrow> ('d, 'p) kevent_service \<Rightarrow> 'd event" where
  "local_event env eid d svc = \<lparr>eventid = eid, source_node = svc_source_node svc,
     source_pid = process_id env, ingress_node = Some (svc_source_node svc),
     timestamp = now_millis env, data = d\<rparr>"

definition publish_local_global :: "('d, 'p) kevent_env \<Rightarrow> string \<Rightarrow> 'd \<Rightarrow> ('d, 'p) kevent_service
    \<Rightarrow> ('d, 'p) kevent_service \<times> unit kevent_result" where
  "publish_local_global env eid d svc =
     (case check_global_event env ''daemon only accepts global eventid'' eid d of
        Inl e \<Rightarrow> (svc, Inl e)
      | Inr _ \<Rightarrow>
          (let ev = local_event env eid d svc in
           case mirror_to_shared_ring env ev svc of
             (svc, Inl e) \<Rightarrow> (svc, Inl e)
           | (svc, Inr _) \<Rightarrow> deliver_and_broadcast env ev svc))"

definition publish_external_global :: "('d, 'p) kevent_env \<Rightarrow> 'd event \<Rightarrow> ('d, 'p) kevent_service
    \<Rightarrow> ('d, 'p) kevent_service \<times> unit kevent_result" where
  "publish_external_global env ev svc =
     (case check_global_event env ''daemon only accepts global eventid'' (eventid ev) (data ev) of
        Inl e \<Rightarrow> (svc, Inl e)
      | Inr _ \<Rightarrow>
          (let ev = (if ingress_node ev = None
                     then ev\<lparr>ingress_node := Some (svc_source_node svc)\<rparr> else ev)
           in deliver_and_broadcast env ev svc))"

definition accept_external_global :: "('d, 'p) kevent_env \<Rightarrow> 'd event \<Rightarrow> ('d, 'p) kevent_service
    \<Rightarrow> ('d, 'p) kevent_service \<times> unit kevent_result" where
  "accept_external_global env ev svc =
     (case check_global_event env ''daemon only accepts global eventid'' (eventid ev) (data ev) of
        Inl e \<Rightarrow> (svc, Inl e)
      | Inr _ \<Rightarrow>
          (let ev = ev\<lparr>ingress_node := Some (svc_source_node svc)\<rparr> in
           case mirror_to_shared_ring env ev svc of
             (svc, Inl e) \<Rightarrow> (svc, Inl e)
           | (svc, Inr _) \<Rightarrow> deliver_and_broadcast env ev svc))"

definition publish_http_global :: "('d, 'p) kevent_env \<Rightarrow> string \<Rightarrow> 'd \<Rightarrow> ('d, 'p) kevent_service
    \<Rightarrow> ('d, 'p) kevent_service \<times> unit kevent_result" where
  "publish_http_global env eid d svc = accept_external_global env (local_event env eid d svc) svc"

definition publish_from_peer :: "('d, 'p) kevent_env \<Rightarrow> 'd event \<Rightarrow> ('d, 'p) kevent_service
    \<Rightarrow> ('d, 'p) kevent_service \<times> unit kevent_result" where
  "publish_from_peer env ev svc =
     (case check_global_event env ''peer event must be global eventid'' (eventid ev) (data ev) of
        Inl e \<Rightarrow> (svc, Inl e)
      | Inr _ \<Rightarrow>
          (let ev = (if ingress_node ev = None
                     then ev\<lparr>ingress_node := Some (source_node ev)\<rparr> else ev)
           in case mirror_to_shared_ring env ev svc of
                (svc, Inl e) \<Rightarrow> (svc, Inl e)
              | (svc, Inr _) \<Rightarrow> (distribute ev svc, Inr ())))"

section \<open>Pulling\<close>

text \<open>How one wait of \<open>pull_event_in\<close> ends: another task notified the reader and left the service
  in a new state, or the timer fired.\<close>

datatype 's wake = Notified 's | Elapsed

text \<open>The loop, over the list of how its waits end; \<open>None\<close> when it is still waiting after them.
  Without a timeout no timer is set.\<close>

fun pull_event_in :: "session_id \<Rightarrow> string \<Rightarrow> u64 option
    \<Rightarrow> ('d, 'p) kevent_service wake list \<Rightarrow> ('d, 'p) kevent_service
    \<Rightarrow> (('d, 'p) kevent_service \<times> 'd event option kevent_result) option" where
  "pull_event_in session reader_id timeout_ms wakes svc =
     (case hm_get (svc_readers svc) (session, reader_id) of
        None \<Rightarrow> Some (svc, Inl (ReaderClosed reader_id))
      | Some reader \<Rightarrow>
          (case reader_pop reader of
             (reader', Some ev) \<Rightarrow>
               Some (svc\<lparr>svc_readers := hm_insert (session, reader_id) reader' (svc_readers svc)\<rparr>,
                     Inr (Some ev))
           | (_, None) \<Rightarrow>
               if timeout_ms = Some 0 then Some (svc, Inr None)
               else
                 (case wakes of
                    [] \<Rightarrow> None
                  | Notified svc' # ws \<Rightarrow> pull_event_in session reader_id timeout_ms ws svc'
                  | Elapsed # ws \<Rightarrow>
                      if timeout_ms = None then pull_event_in session reader_id timeout_ms ws svc
                      else Some (svc, Inr None))))"

declare pull_event_in.simps [simp del]

section \<open>The protocol\<close>

datatype 'd daemon_request =
    RegisterReader string "string list"
  | UnregisterReader string
  | UpdateReader string "string list" "string list"
  | PublishGlobal "'d event"
  | PullEvent string "u64 option"

datatype 'd daemon_response =
    RespOk "'d event option"
  | RespErr string string

fun error_message :: "kevent_error \<Rightarrow> string" where
  "error_message (InvalidEventId m) = m"
| "error_message (InvalidPattern m) = m"
| "error_message (DaemonUnavailable m) = m"
| "error_message (TimerInvalidTarget m) = m"
| "error_message (TimerNotFound m) = m"
| "error_message (NotSupported m) = m"
| "error_message (ReaderClosed m) = m"
| "error_message (Internal m) = m"

text \<open>The \<open>#[error("CODE: {0}")]\<close> attributes.\<close>

definition error_to_string :: "kevent_error \<Rightarrow> string" where
  "error_to_string e = code e @ '': '' @ error_message e"

definition err_to_response :: "kevent_error \<Rightarrow> 'd daemon_response" where
  "err_to_response e = RespErr (code e) (error_to_string e)"

definition unit_response :: "unit kevent_result \<Rightarrow> 'd daemon_response" where
  "unit_response r = (case r of Inr _ \<Rightarrow> RespOk None | Inl e \<Rightarrow> err_to_response e)"

fun handle_protocol_request_in :: "('d, 'p) kevent_env \<Rightarrow> session_id
    \<Rightarrow> ('d, 'p) kevent_service wake list \<Rightarrow> 'd daemon_request \<Rightarrow> ('d, 'p) kevent_service
    \<Rightarrow> (('d, 'p) kevent_service \<times> 'd daemon_response) option" where
  "handle_protocol_request_in env session wakes (RegisterReader reader_id patterns) svc =
     (case register_reader_in session reader_id patterns svc of (svc', r) \<Rightarrow> Some (svc', unit_response r))"
| "handle_protocol_request_in env session wakes (UnregisterReader reader_id) svc =
     Some (unregister_reader_in session reader_id svc, RespOk None)"
| "handle_protocol_request_in env session wakes (UpdateReader reader_id add remove) svc =
     (case update_reader_in session reader_id add remove svc of (svc', r) \<Rightarrow> Some (svc', unit_response r))"
| "handle_protocol_request_in env session wakes (PublishGlobal ev) svc =
     (case accept_external_global env ev svc of (svc', r) \<Rightarrow> Some (svc', unit_response r))"
| "handle_protocol_request_in env session wakes (PullEvent reader_id timeout_ms) svc =
     (case pull_event_in session reader_id timeout_ms wakes svc of
        None \<Rightarrow> None
      | Some (svc', Inr ev) \<Rightarrow> Some (svc', RespOk ev)
      | Some (svc', Inl e) \<Rightarrow> Some (svc', err_to_response e))"

section \<open>Connections\<close>

definition MAX_NATIVE_FRAME_SIZE :: nat where "MAX_NATIVE_FRAME_SIZE = 1024 * 1024"

text \<open>\<open>read_u32\<close> and \<open>write_u32\<close> of a stream: four bytes, big endian. The argument of the write is a
  length cast to \<open>u32\<close>.\<close>

fun read_u32 :: "bytes \<Rightarrow> (nat \<times> bytes) option" where
  "read_u32 (a # b # c # d # rest) =
     Some (((unat a * 256 + unat b) * 256 + unat c) * 256 + unat d, rest)"
| "read_u32 _ = None"

definition write_u32 :: "nat \<Rightarrow> bytes" where
  "write_u32 n = [of_nat (n div 2 ^ 24), of_nat (n div 2 ^ 16), of_nat (n div 2 ^ 8), of_nat n]"

text \<open>\<open>OtherKind\<close> stands for the kinds that the sources do not name.\<close>

datatype io_kind = UnexpectedEof | InvalidData | OtherKind

type_synonym 'a io_result = "(io_kind \<times> string, 'a) result"

definition write_response :: "('d daemon_response \<Rightarrow> bytes kevent_result) \<Rightarrow> 'd daemon_response
    \<Rightarrow> bytes io_result" where
  "write_response encode resp =
     (case encode resp of
        Inl e \<Rightarrow> Inl (InvalidData, error_to_string e)
      | Inr payload \<Rightarrow> Inr (write_u32 (length payload) @ payload))"

text \<open>The socket of one connection: the bytes that arrive, the error that every read meets when they
  are used up (\<open>UnexpectedEof\<close> when the peer closed the connection, anything else when it broke), and
  for the \<open>i\<close>-th response how much of it gets out and whether writing or flushing it failed.\<close>

record socket =
  arrives :: bytes
  read_error :: "io_kind \<times> string"
  sends :: "nat \<Rightarrow> bytes \<Rightarrow> bytes \<times> unit io_result"

text \<open>The loop of one connection over what is left to read: \<open>others i\<close> is what the rest
  of the daemon does to the service before the \<open>i\<close>-th request, \<open>wakes i\<close> how the waits of that
  request end. The result is \<open>None\<close> while a request still waits.\<close>

function serve_native_tcp_session :: "('d, 'p) kevent_env
    \<Rightarrow> (bytes \<Rightarrow> 'd daemon_request kevent_result) \<Rightarrow> ('d daemon_response \<Rightarrow> bytes kevent_result)
    \<Rightarrow> (nat \<Rightarrow> ('d, 'p) kevent_service \<Rightarrow> ('d, 'p) kevent_service)
    \<Rightarrow> (nat \<Rightarrow> ('d, 'p) kevent_service wake list) \<Rightarrow> socket \<Rightarrow> session_id \<Rightarrow> nat \<Rightarrow> bytes
    \<Rightarrow> ('d, 'p) kevent_service \<Rightarrow> (('d, 'p) kevent_service \<times> bytes \<times> unit io_result) option" where
  "serve_native_tcp_session env decode encode others wakes sock session i stream svc =
     (case read_u32 stream of
        None \<Rightarrow> Some (svc, [], if fst (read_error sock) = UnexpectedEof then Inr () else Inl (read_error sock))
      | Some (frame_len, rest) \<Rightarrow>
          if frame_len = 0 \<or> frame_len > MAX_NATIVE_FRAME_SIZE then
            Some (svc, [], Inl (InvalidData, ''invalid kevent native frame length: '' @ show_nat frame_len))
          else if length rest < frame_len then Some (svc, [], Inl (read_error sock))
          else
            (let svc = others i svc in
             case (case decode (take frame_len rest) of
                     Inr request \<Rightarrow> handle_protocol_request_in env session (wakes i) request svc
                   | Inl e \<Rightarrow> Some (svc, err_to_response e)) of
               None \<Rightarrow> None
             | Some (svc', response) \<Rightarrow>
                 (case write_response encode response of
                    Inl e \<Rightarrow> Some (svc', [], Inl e)
                  | Inr frame \<Rightarrow>
                      (case sends sock i frame of
                         (out, Inl e) \<Rightarrow> Some (svc', out, Inl e)
                       | (out, Inr _) \<Rightarrow>
                           map_option (\<lambda>(svc'', out', r). (svc'', out @ out', r))
                             (serve_native_tcp_session env decode encode others wakes sock session (Suc i)
                                (drop frame_len rest) svc')))))"
  by pat_completeness auto

lemma read_u32_length: "read_u32 s = Some (n, rest) \<Longrightarrow> length s = length rest + 4"
  by (induction s rule: read_u32.induct) auto

termination serve_native_tcp_session
  by (relation "measure (\<lambda>(_, _, _, _, _, _, _, _, stream, _). length stream)")
    (auto dest!: read_u32_length)

declare serve_native_tcp_session.simps [simp del]

definition handle_native_tcp_connection :: "('d, 'p) kevent_env
    \<Rightarrow> (bytes \<Rightarrow> 'd daemon_request kevent_result) \<Rightarrow> ('d daemon_response \<Rightarrow> bytes kevent_result)
    \<Rightarrow> (nat \<Rightarrow> ('d, 'p) kevent_service \<Rightarrow> ('d, 'p) kevent_service)
    \<Rightarrow> (nat \<Rightarrow> ('d, 'p) kevent_service wake list) \<Rightarrow> socket
    \<Rightarrow> ('d, 'p) kevent_service \<Rightarrow> (('d, 'p) kevent_service \<times> bytes \<times> unit io_result) option" where
  "handle_native_tcp_connection env decode encode others wakes sock svc =
     (case open_session svc of
        (svc, session) \<Rightarrow>
          (case serve_native_tcp_session env decode encode others wakes sock session 0 (arrives sock) svc of
             None \<Rightarrow> None
           | Some (svc, out, result) \<Rightarrow>
               (case close_session session svc of (svc, _) \<Rightarrow> Some (svc, out, result))))"

end
