(* ===== verification/Event_Service_Correct.thy ===== *)
theory Event_Service_Correct
  imports Event_Service Event_Ring_Correct
begin

text \<open>
  What the event daemon promises: the invariant of its readers and that every request keeps it,
  which readers an event reaches and which peers it is passed on to, that pulling returns the
  queued events in order, that the sessions of two connections do not see each other's readers,
  and that a closed connection leaves none behind.
\<close>

section \<open>The invariant\<close>

definition svc_reader_wf :: "nat \<Rightarrow> reader_key \<Rightarrow> 'd reader_state \<Rightarrow> bool" where
  "svc_reader_wf cap k r \<longleftrightarrow> reader_ok r \<and> r_capacity r = cap \<and> r_patterns r \<noteq> [] \<and> snd k \<noteq> []
     \<and> (\<forall>p \<in> set (r_patterns r). validate_pattern p = Inr () \<and> is_global_pattern p)"

definition svc_wf :: "('d, 'p) kevent_service \<Rightarrow> bool" where
  "svc_wf svc \<longleftrightarrow> hm_wf (svc_readers svc) \<and> 0 < svc_reader_capacity svc
     \<and> (\<forall>k r. hm_get (svc_readers svc) k = Some r \<longrightarrow> svc_reader_wf (svc_reader_capacity svc) k r)"

lemma check_global_patterns_iff:
  "check_global_patterns ps = Inr () \<longleftrightarrow>
     (\<forall>p \<in> set ps. validate_pattern p = Inr () \<and> is_global_pattern p)"
  by (induction ps) (auto simp: rbind_Inr_iff)

lemma check_global_patterns_cases:
  obtains "check_global_patterns ps = Inr ()" "\<forall>p \<in> set ps. validate_pattern p = Inr () \<and> is_global_pattern p"
  | e where "check_global_patterns ps = Inl e"
  using check_global_patterns_iff [of ps] by (cases "check_global_patterns ps") auto

lemma svc_wfD:
  "svc_wf svc \<Longrightarrow> hm_get (svc_readers svc) k = Some r \<Longrightarrow> svc_reader_wf (svc_reader_capacity svc) k r"
  unfolding svc_wf_def by blast

lemma svc_wf_new: "svc_wf (new_with_capacity node cap region)"
  by (simp add: svc_wf_def new_with_capacity_def hm_simps)

lemma svc_wf_set_readers:
  assumes "svc_wf svc" and "hm_wf readers"
    and "\<And>k r. hm_get readers k = Some r \<Longrightarrow> svc_reader_wf (svc_reader_capacity svc) k r"
  shows "svc_wf (svc\<lparr>svc_readers := readers\<rparr>)"
  using assms by (simp add: svc_wf_def)

lemma svc_wf_frame [simp]:
  "svc_wf (svc\<lparr>svc_session_seq := n\<rparr>) = svc_wf svc" "svc_wf (svc\<lparr>svc_region := region\<rparr>) = svc_wf svc"
  "svc_wf (svc\<lparr>svc_broadcasts := bs\<rparr>) = svc_wf svc" "svc_wf (svc\<lparr>svc_peers := peers\<rparr>) = svc_wf svc"
  "svc_wf (svc\<lparr>svc_shared_ring := ring\<rparr>) = svc_wf svc"
  by (simp_all add: svc_wf_def)

lemma svc_wf_insert:
  assumes "svc_wf svc" and "svc_reader_wf (svc_reader_capacity svc) k r"
  shows "svc_wf (svc\<lparr>svc_readers := hm_insert k r (svc_readers svc)\<rparr>)"
  using assms by (auto simp: svc_wf_def hm_simps split: if_splits)

lemma svc_wf_register:
  fixes svc :: "('d, 'p) kevent_service"
  assumes "svc_wf svc"
  shows "svc_wf (fst (register_reader_in session reader_id patterns svc))"
proof (cases rule: check_global_patterns_cases [of patterns])
  case 1
  have n: "\<forall>p \<in> set (normalize_patterns patterns). validate_pattern p = Inr () \<and> is_global_pattern p"
    using 1(2) set_normalize_patterns by blast
  show ?thesis
  proof (cases "reader_id = [] \<or> patterns = []")
    case False
    then have new: "svc_reader_wf (svc_reader_capacity svc) (session, reader_id)
        (reader_new (normalize_patterns patterns) (svc_reader_capacity svc) :: 'd reader_state)"
      using assms n normalize_patterns_not_Nil
      by (auto simp: svc_reader_wf_def reader_new_def reader_ok_def svc_wf_def)
    have old: "svc_reader_wf (svc_reader_capacity svc) (session, reader_id)
        (r\<lparr>r_patterns := normalize_patterns patterns\<rparr>)"
      if "hm_get (svc_readers svc) (session, reader_id) = Some r" for r
      using svc_wfD [OF assms that] False n normalize_patterns_not_Nil
      by (simp add: svc_reader_wf_def reader_ok_def)
    show ?thesis
      using False 1 new old assms
      by (auto simp: register_reader_in_def Let_def svc_wf_insert split: option.splits)
  qed (use assms in \<open>auto simp: register_reader_in_def\<close>)
qed (use assms in \<open>auto simp: register_reader_in_def\<close>)

lemma svc_wf_unregister:
  "svc_wf svc \<Longrightarrow> svc_wf (unregister_reader_in session reader_id svc)"
  by (auto simp: unregister_reader_in_def svc_wf_def hm_simps split: if_splits)

lemma svc_wf_update:
  assumes "svc_wf svc"
  shows "svc_wf (fst (update_reader_in session reader_id add remove svc))"
proof (cases rule: check_global_patterns_cases [of "add @ remove"])
  case 1
  show ?thesis
  proof (cases "hm_get (svc_readers svc) (session, reader_id)")
    case (Some r)
    have wf: "svc_reader_wf (svc_reader_capacity svc) (session, reader_id) r"
      using assms Some by (simp add: svc_wf_def)
    let ?kept = "filter (\<lambda>p. p \<notin> set remove) (r_patterns r)"
    let ?nxt = "if add \<noteq> [] then normalize_patterns (?kept @ add) else ?kept"
    have "set ?nxt \<subseteq> set (r_patterns r) \<union> set add"
      using set_normalize_patterns [of "?kept @ add"] by auto
    then have "\<forall>p \<in> set ?nxt. validate_pattern p = Inr () \<and> is_global_pattern p"
      using 1(2) wf by (auto simp: svc_reader_wf_def)
    then have "?nxt \<noteq> [] \<Longrightarrow> svc_reader_wf (svc_reader_capacity svc) (session, reader_id) (r\<lparr>r_patterns := ?nxt\<rparr>)"
      using wf by (simp add: svc_reader_wf_def reader_ok_def)
    then show ?thesis
      using assms 1(1) Some svc_wf_insert [OF assms] by (simp add: update_reader_in_def Let_def)
  qed (use assms 1 in \<open>simp add: update_reader_in_def\<close>)
qed (use assms in \<open>simp add: update_reader_in_def\<close>)

lemma svc_wf_distribute:
  assumes "svc_wf svc"
  shows "svc_wf (distribute ev svc)"
proof -
  have "svc_reader_wf cap k r \<Longrightarrow> svc_reader_wf cap k (offer ev r)" for cap k and r :: "'a reader_state"
    by (simp add: svc_reader_wf_def offer_ok)
  then show ?thesis using assms by (auto simp: svc_wf_def distribute_def hm_simps)
qed

lemma svc_wf_mirror: "svc_wf svc \<Longrightarrow> svc_wf (fst (mirror_to_shared_ring env ev svc))"
  by (auto simp: mirror_to_shared_ring_def split: option.splits prod.splits)

lemma svc_wf_deliver: "svc_wf svc \<Longrightarrow> svc_wf (fst (deliver_and_broadcast env ev svc))"
  by (simp add: deliver_and_broadcast_def Let_def svc_wf_distribute broadcast_to_peers_def)

lemma svc_wf_accept:
  assumes "svc_wf svc"
  shows "svc_wf (fst (accept_external_global env ev svc))"
proof -
  have "svc_wf svc'" if "mirror_to_shared_ring env ev' svc = (svc', r)" for ev' svc' r
    using svc_wf_mirror [OF assms, of env ev'] that by simp
  then show ?thesis
    using assms by (auto simp: accept_external_global_def Let_def svc_wf_deliver split: sum.splits prod.splits)
qed

lemma svc_wf_close: "svc_wf svc \<Longrightarrow> svc_wf (fst (close_session session svc))"
  by (auto simp: close_session_def svc_wf_def hm_simps Let_def split: if_splits)

lemma svc_reader_wf_pop:
  "svc_reader_wf cap k r \<Longrightarrow> svc_reader_wf cap k (fst (reader_pop r))"
  by (auto simp: svc_reader_wf_def reader_ok_def reader_pop_def split: list.splits)

lemma svc_wf_pull:
  assumes "svc_wf svc" and "\<And>svc'. Notified svc' \<in> set wakes \<Longrightarrow> svc_wf svc'"
    and "pull_event_in session reader_id timeout_ms wakes svc = Some (svc', r)"
  shows "svc_wf svc'"
  using assms
proof (induction session reader_id timeout_ms wakes svc rule: pull_event_in.induct)
  case (1 session reader_id timeout_ms wakes svc)
  note eq = pull_event_in.simps [of session reader_id timeout_ms wakes svc]
  show ?case
  proof (cases "hm_get (svc_readers svc) (session, reader_id)")
    case None
    then show ?thesis using "1.prems" eq by simp
  next
    case (Some reader)
    then have "svc_reader_wf (svc_reader_capacity svc) (session, reader_id) (fst (reader_pop reader))"
      using "1.prems"(1) by (intro svc_reader_wf_pop) (simp add: svc_wf_def)
    then have ins: "svc_wf (svc\<lparr>svc_readers := hm_insert (session, reader_id) (fst (reader_pop reader)) (svc_readers svc)\<rparr>)"
      using "1.prems"(1) by (rule svc_wf_insert [rotated])
    show ?thesis
      using "1.prems" "1.IH" [OF Some] ins Some eq
      by (auto split: prod.splits option.splits if_splits list.splits wake.splits)
  qed
qed

lemma svc_wf_handle:
  assumes "svc_wf svc" and "\<And>svc'. Notified svc' \<in> set wakes \<Longrightarrow> svc_wf svc'"
    and "handle_protocol_request_in env session wakes req svc = Some (svc', resp)"
  shows "svc_wf svc'"
proof (cases req)
  case (RegisterReader rid ps)
  then show ?thesis
    using assms(3) svc_wf_register [OF assms(1), of session rid ps] by (auto split: prod.splits)
next
  case (UnregisterReader rid)
  then show ?thesis using assms svc_wf_unregister by auto
next
  case (UpdateReader rid add remove)
  then show ?thesis
    using assms(3) svc_wf_update [OF assms(1), of session rid add remove] by (auto split: prod.splits)
next
  case (PublishGlobal ev)
  then show ?thesis using assms(3) svc_wf_accept [OF assms(1), of env ev] by (auto split: prod.splits)
next
  case (PullEvent rid tmo)
  then show ?thesis
    using assms(3) svc_wf_pull [OF assms(1,2)]
    by (auto split: prod.splits option.splits sum.splits)
qed

section \<open>Isolation of sessions\<close>

text \<open>What holds of another reader before a pull and after whatever ran while it waited, holds after it.\<close>

lemma pull_frame:
  assumes "Q (hm_get (svc_readers svc) k)" and "\<And>s. Notified s \<in> set wakes \<Longrightarrow> Q (hm_get (svc_readers s) k)"
    and "k \<noteq> (session, reader_id)" and "pull_event_in session reader_id timeout_ms wakes svc = Some (svc', r)"
  shows "Q (hm_get (svc_readers svc') k)"
  using assms
proof (induction session reader_id timeout_ms wakes svc rule: pull_event_in.induct)
  case (1 session reader_id timeout_ms wakes svc)
  note eq = pull_event_in.simps [of session reader_id timeout_ms wakes svc]
  show ?case
  proof (cases "hm_get (svc_readers svc) (session, reader_id)")
    case None
    then show ?thesis using "1.prems" eq by simp
  next
    case (Some reader)
    have ins: "Q (hm_get (hm_insert (session, reader_id) x (svc_readers svc)) k)" for x
      using "1.prems"(1,3) by (simp add: hm_simps)
    show ?thesis
      using "1.prems" "1.IH" [OF Some] ins Some eq
      by (auto split: prod.splits option.splits if_splits list.splits wake.splits)
  qed
qed

lemma mirror_frame [simp]:
  "svc_readers (fst (mirror_to_shared_ring env ev svc)) = svc_readers svc"
  "svc_source_node (fst (mirror_to_shared_ring env ev svc)) = svc_source_node svc"
  "svc_peers (fst (mirror_to_shared_ring env ev svc)) = svc_peers svc"
  "svc_broadcasts (fst (mirror_to_shared_ring env ev svc)) = svc_broadcasts svc"
  "svc_reader_capacity (fst (mirror_to_shared_ring env ev svc)) = svc_reader_capacity svc"
  "svc_shared_ring (fst (mirror_to_shared_ring env ev svc)) = svc_shared_ring svc"
  by (auto simp: mirror_to_shared_ring_def split: option.splits prod.splits)

lemma deliver_frame [simp]:
  "svc_readers (fst (deliver_and_broadcast env ev svc)) = deliver_all ev (svc_readers svc)"
  "svc_peers (fst (deliver_and_broadcast env ev svc)) = svc_peers svc"
  "svc_source_node (fst (deliver_and_broadcast env ev svc)) = svc_source_node svc"
  "svc_reader_capacity (fst (deliver_and_broadcast env ev svc)) = svc_reader_capacity svc"
  "svc_shared_ring (fst (deliver_and_broadcast env ev svc)) = svc_shared_ring svc"
  by (simp_all add: deliver_and_broadcast_def Let_def broadcast_to_peers_def distribute_def)

definition ingressed :: "('d, 'p) kevent_service \<Rightarrow> 'd event \<Rightarrow> 'd event" where
  "ingressed svc ev = ev\<lparr>ingress_node := Some (svc_source_node svc)\<rparr>"

lemma accept_cases:
  obtains (invalid) e where "check_global_event env ''daemon only accepts global eventid'' (eventid ev) (data ev) = Inl e"
      "accept_external_global env ev svc = (svc, Inl e)"
  | (unmirrored) svc' e where "mirror_to_shared_ring env (ingressed svc ev) svc = (svc', Inl e)"
      "check_global_event env ''daemon only accepts global eventid'' (eventid ev) (data ev) = Inr ()"
      "accept_external_global env ev svc = (svc', Inl e)"
  | (delivered) svc' where "mirror_to_shared_ring env (ingressed svc ev) svc = (svc', Inr ())"
      "check_global_event env ''daemon only accepts global eventid'' (eventid ev) (data ev) = Inr ()"
      "accept_external_global env ev svc = deliver_and_broadcast env (ingressed svc ev) svc'"
proof (cases "check_global_event env ''daemon only accepts global eventid'' (eventid ev) (data ev)")
  case (Inl e)
  then show ?thesis using invalid by (simp add: accept_external_global_def)
next
  case (Inr u)
  obtain svc' r where "mirror_to_shared_ring env (ingressed svc ev) svc = (svc', r)" by fastforce
  then show ?thesis
    using Inr unmirrored delivered
    by (cases r) (simp_all add: accept_external_global_def ingressed_def Let_def)
qed

lemma accept_readers:
  "svc_readers (fst (accept_external_global env ev svc)) = svc_readers svc
   \<or> svc_readers (fst (accept_external_global env ev svc)) = deliver_all (ingressed svc ev) (svc_readers svc)"
proof (cases rule: accept_cases [of env ev svc])
  case (unmirrored svc' e)
  then show ?thesis using mirror_frame(1) [of env "ingressed svc ev" svc] by simp
next
  case (delivered svc')
  then show ?thesis using mirror_frame(1) [of env "ingressed svc ev" svc] by simp
qed simp

lemma handle_other_session:
  assumes wf: "hm_wf (svc_readers svc)" and k: "fst k \<noteq> session"
    and Q: "Q (hm_get (svc_readers svc) k)" "\<And>s. Notified s \<in> set wakes \<Longrightarrow> Q (hm_get (svc_readers s) k)"
    and offer: "\<And>ev x. Q x \<Longrightarrow> Q (map_option (offer ev) x)"
    and h: "handle_protocol_request_in env session wakes req svc = Some (svc', resp)"
  shows "Q (hm_get (svc_readers svc') k)"
proof (cases req)
  case (RegisterReader rid ps)
  then have "hm_get (svc_readers svc') k = hm_get (svc_readers svc) k"
    using k h by (auto simp: register_reader_in_def hm_simps Let_def
        split: prod.splits if_splits sum.splits option.splits)
  then show ?thesis using Q(1) by simp
next
  case (UnregisterReader rid)
  then have "hm_get (svc_readers svc') k = hm_get (svc_readers svc) k"
    using wf k h by (auto simp: unregister_reader_in_def hm_simps)
  then show ?thesis using Q(1) by simp
next
  case (UpdateReader rid add remove)
  then have "hm_get (svc_readers svc') k = hm_get (svc_readers svc) k"
    using k h by (auto simp: update_reader_in_def hm_simps Let_def
        split: prod.splits if_splits sum.splits option.splits)
  then show ?thesis using Q(1) by simp
next
  case (PublishGlobal ev)
  then have "svc' = fst (accept_external_global env ev svc)" using h by (auto split: prod.splits)
  then show ?thesis
    using accept_readers [of env ev svc] Q(1) offer by (auto simp: hm_get_deliver_all)
next
  case (PullEvent rid tmo)
  then obtain r where "pull_event_in session rid tmo wakes svc = Some (svc', r)"
    using h by (auto split: option.splits sum.splits)
  moreover have "k \<noteq> (session, rid)" using k by auto
  ultimately show ?thesis using pull_frame [of Q, OF Q] by blast
qed

text \<open>What every request of a connection and the rest of the daemon keep, the connection keeps.\<close>

lemma serve_invariant:
  assumes "P svc" and "\<And>i s. P s \<Longrightarrow> P (others i s)"
    and "\<And>i req s s' resp. P s \<Longrightarrow> handle_protocol_request_in env session (wakes i) req s = Some (s', resp) \<Longrightarrow> P s'"
    and "serve_native_tcp_session env decode encode others wakes sock session i stream svc = Some (svc', out, r)"
  shows "P svc'"
  using assms
proof (induction env decode encode others wakes sock session i stream svc arbitrary: out
    rule: serve_native_tcp_session.induct)
  case (1 env decode encode others wakes sock session i stream svc)
  note eq = serve_native_tcp_session.simps [of env decode encode others wakes sock session i stream svc]
  show ?case
  proof (cases "read_u32 stream")
    case None
    then show ?thesis using "1.prems"(1,4) eq by auto
  next
    case (Some a)
    obtain len rest where a: "a = (len, rest)" by fastforce
    let ?svc = "others i svc"
    let ?res = "case decode (take len rest) of
        Inr request \<Rightarrow> handle_protocol_request_in env session (wakes i) request ?svc
      | Inl e \<Rightarrow> Some (?svc, err_to_response e)"
    consider (bad) "len = 0 \<or> len > MAX_NATIVE_FRAME_SIZE \<or> length rest < len"
      | (wait) "\<not> (len = 0 \<or> len > MAX_NATIVE_FRAME_SIZE \<or> length rest < len)" "?res = None"
      | (step) svc1 resp where "\<not> (len = 0 \<or> len > MAX_NATIVE_FRAME_SIZE \<or> length rest < len)"
          "?res = Some (svc1, resp)"
      by (cases "len = 0 \<or> len > MAX_NATIVE_FRAME_SIZE \<or> length rest < len"; cases ?res) auto
    then show ?thesis
    proof cases
      case bad
      then show ?thesis using "1.prems"(1,4) eq Some a by (auto split: if_splits)
    next
      case wait
      then show ?thesis using "1.prems"(4) eq Some a by (simp add: Let_def)
    next
      case step
      have P1: "P svc1"
        using step(2) "1.prems"(2) [OF "1.prems"(1), of i] "1.prems"(3) by (auto split: sum.splits)
      show ?thesis
      proof (cases "write_response encode resp")
        case (Inl e)
        then show ?thesis using "1.prems"(4) eq Some a step P1 by (simp add: Let_def)
      next
        case (Inr w)
        obtain sent res where send: "sends sock i w = (sent, res)" by fastforce
        show ?thesis
        proof (cases res)
          case (Inl e)
          then show ?thesis using "1.prems"(4) eq Some a step P1 Inr send by (simp add: Let_def)
        next
          case res: (Inr u)
          then obtain out' where rest: "serve_native_tcp_session env decode encode others wakes sock session (Suc i)
              (drop len rest) svc1 = Some (svc', out', r)"
            using "1.prems"(4) eq Some a step Inr send by (auto simp: Let_def)
          show ?thesis
            by (rule "1.IH" [OF Some a [symmetric] _ _ refl step(2) refl Inr send [symmetric] res P1 "1.prems"(2,3) rest])
              (use step(1) in simp_all)
        qed
      qed
    qed
  qed
qed

lemma open_session_frame [simp]:
  "svc_readers (fst (open_session svc)) = svc_readers svc" "svc_wf (fst (open_session svc)) = svc_wf svc"
  by (simp_all add: open_session_def)

section \<open>Correctness of the daemon\<close>

text \<open>C26: the invariant of the daemon. Every reader has a name, a non-empty set of valid global
  patterns and a queue within its capacity; a new daemon has it, opening and closing sessions and
  every protocol request keep it, whatever other tasks that keep it do while a pull waits.\<close>

theorem daemon_invariant:
  "svc_wf (new_with_capacity node cap region :: ('d, 'p) kevent_service)
   \<and> (\<forall>svc :: ('d, 'p) kevent_service. svc_wf svc \<longrightarrow>
        svc_wf (fst (open_session svc)) \<and> svc_wf (fst (close_session session svc))
        \<and> (\<forall>wakes req svc' resp. (\<forall>s. Notified s \<in> set wakes \<longrightarrow> svc_wf s)
             \<and> handle_protocol_request_in env session wakes req svc = Some (svc', resp) \<longrightarrow> svc_wf svc'))"
  using svc_wf_new svc_wf_close svc_wf_handle by (simp; blast)

text \<open>A daemon without peers and ring, and encoders that take a payload as its own encoding.\<close>

definition demo_env :: "(bytes, nat) kevent_env" where
  "demo_env = \<lparr>to_vec_event = (\<lambda>ev. Inr (data ev)), to_vec_data = Inr, broadcast = (\<lambda>_ _. Inr ()),
     now_millis = 5, process_id = 7\<rparr>"

definition demo_svc :: "(bytes, nat) kevent_service" where
  "demo_svc = new_with_capacity ''node_a'' 2 zero_region"

definition demo_event :: "string \<Rightarrow> bytes \<Rightarrow> bytes event" where
  "demo_event eid d = \<lparr>eventid = eid, source_node = ''app'', source_pid = 1, ingress_node = None,
     timestamp = 3, data = d\<rparr>"

lemma demo_register:
  "register_reader_in 1 ''r1'' [''/sys/**''] demo_svc = (demo_svc\<lparr>svc_readers :=
     [((1, ''r1''), reader_new [''/sys/**''] 2)]\<rparr>, Inr ())"
proof -
  have "check_global_patterns [''/sys/**''] = Inr ()" "normalize_patterns [''/sys/**''] = [''/sys/**'']"
    by code_simp+
  then show ?thesis
    by (simp add: register_reader_in_def demo_svc_def new_with_capacity_def hm_insert_def
        numeral_2_eq_2)
qed

lemma demo_svc_wf: "svc_wf demo_svc"
  unfolding demo_svc_def by (rule svc_wf_new)

theorem daemon_invariant_witness:
  "svc_wf demo_svc \<and> (\<exists>svc' resp. handle_protocol_request_in demo_env 1 [] (RegisterReader ''r1'' [''/sys/**''])
     demo_svc = Some (svc', resp) \<and> svc_wf svc')"
proof -
  note inv = daemon_invariant [of "''node_a''" 2 zero_region 1 demo_env]
  have wf: "svc_wf demo_svc" unfolding demo_svc_def by (rule inv [THEN conjunct1])
  let ?svc = "demo_svc\<lparr>svc_readers := [((1, ''r1''), reader_new [''/sys/**''] 2)]\<rparr>"
  have h: "handle_protocol_request_in demo_env 1 [] (RegisterReader ''r1'' [''/sys/**'']) demo_svc
      = Some (?svc, RespOk None)"
    by (simp add: demo_register unit_response_def)
  moreover have "svc_wf ?svc"
    using inv [THEN conjunct2, THEN spec, THEN mp, OF wf, THEN conjunct2, THEN conjunct2, THEN spec,
        of "[]", THEN spec, of "RegisterReader ''r1'' [''/sys/**'']", THEN spec, of ?svc, THEN spec,
        of "RespOk None"] h by simp
  ultimately show ?thesis using wf by blast
qed

lemma check_global_event_ok:
  "check_global_event env msg eid d = Inr () \<longleftrightarrow> is_global_eventid eid \<and> validate_eventid eid = Inr ()
     \<and> validate_event_data_size (to_vec_data env) d = Inr ()"
  by (auto simp: check_global_event_def rbind_Inr_iff)

lemma demo_check:
  assumes "length d \<le> 65536"
  shows "check_global_event demo_env msg (eventid (demo_event ''/sys/up'' d)) (data (demo_event ''/sys/up'' d))
    = Inr ()"
proof -
  have "is_global_eventid ''/sys/up'' \<and> validate_eventid ''/sys/up'' = Inr ()" by code_simp
  then show ?thesis
    unfolding check_global_event_ok using assms
    by (simp add: demo_event_def demo_env_def validate_event_data_size_def MAX_EVENT_DATA_SIZE_BYTES_def)
qed



















text \<open>A daemon with a ring, a peer and a reader.\<close>

definition ring_svc :: "(bytes, nat) kevent_service" where
  "ring_svc = demo_svc\<lparr>svc_shared_ring := Some (publisher 0), svc_region := two_rings, svc_peers := [4],
     svc_readers := [((1, ''r1''), reader_new [''/sys/**''] 2)]\<rparr>"

lemma ring_svc_wf: "svc_wf ring_svc"
  using svc_wf_register [OF demo_svc_wf, of 1 "''r1''" "[''/sys/**'']"]
  by (simp add: demo_register ring_svc_def svc_wf_def)



lemma accept_large_event:
  assumes "check_global_event env ''daemon only accepts global eventid'' (eventid ev) (data ev) = Inr ()"
    and "svc_shared_ring svc = Some ring"
    and "to_vec_event env (ingressed svc ev) = Inr bs" and "length bs > SLOT_DATA_SIZE"
  shows "accept_external_global env ev svc = (svc, Inl (Internal (''payload too large: ''
    @ show_nat (length bs) @ '' > '' @ show_nat SLOT_DATA_SIZE)))"
  using assms by (auto simp: accept_external_global_def ingressed_def [symmetric] Let_def
      mirror_to_shared_ring_def publish_event_def publish_payload_def)

text \<open>Large events. Validation lets the data of an event be up to 64 KiB. A daemon that has a
  shared ring refuses every event whose encoding exceeds the 2 KiB of a slot with an internal
  error, before any reader gets it.\<close>

theorem large_event_refused:
  assumes "check_global_event env ''daemon only accepts global eventid'' (eventid ev) (data ev) = Inr ()"
    and "svc_shared_ring svc = Some ring"
    and "to_vec_event env (ingressed svc ev) = Inr bs" and "length bs > SLOT_DATA_SIZE"
  shows "accept_external_global env ev svc = (svc, Inl (Internal (''payload too large: ''
    @ show_nat (length bs) @ '' > '' @ show_nat SLOT_DATA_SIZE)))"
  using assms by (rule accept_large_event)

theorem large_event_refused_witness:
  "\<exists>d. length d \<le> MAX_EVENT_DATA_SIZE_BYTES \<and> snd (accept_external_global demo_env (demo_event ''/sys/up'' d)
     (set_shared_ring \<lparr>pub_ring_id = 0, pub_poisoned = False\<rparr> demo_svc)) \<noteq> Inr ()"
proof -
  obtain d :: bytes where d: "length d = 3000" using Ex_list_of_length by blast
  let ?ev = "demo_event ''/sys/up'' d" and ?svc = "set_shared_ring \<lparr>pub_ring_id = 0, pub_poisoned = False\<rparr> demo_svc"
  have "check_global_event demo_env ''daemon only accepts global eventid'' (eventid ?ev) (data ?ev) = Inr ()"
    using d by (intro demo_check) simp
  from large_event_refused [OF this, of ?svc "\<lparr>pub_ring_id = 0, pub_poisoned = False\<rparr>" d]
  have "snd (accept_external_global demo_env ?ev ?svc) \<noteq> Inr ()"
    using d by (simp add: set_shared_ring_def demo_env_def demo_event_def ingressed_def SLOT_DATA_SIZE_def)
  then show ?thesis
    using d by (intro exI [of _ d]) (simp add: MAX_EVENT_DATA_SIZE_BYTES_def)
qed

section \<open>Subscribing, publishing and pulling\<close>

text \<open>The results of \<open>n\<close> pulls in a row that do not wait.\<close>

primrec pull_n :: "nat \<Rightarrow> session_id \<Rightarrow> string \<Rightarrow> ('d, 'p) kevent_service
    \<Rightarrow> 'd event option kevent_result list" where
  "pull_n 0 session reader_id svc = []"
| "pull_n (Suc n) session reader_id svc =
     (case pull_event_in session reader_id (Some 0) [] svc of
        None \<Rightarrow> []
      | Some (svc', r) \<Rightarrow> r # pull_n n session reader_id svc')"

definition publish_many :: "('d, 'p) kevent_env \<Rightarrow> 'd event list \<Rightarrow> ('d, 'p) kevent_service
    \<Rightarrow> ('d, 'p) kevent_service" where
  "publish_many env evs svc = fold (\<lambda>ev s. fst (accept_external_global env ev s)) evs svc"

lemma pull_n_empty:
  assumes "hm_get (svc_readers svc) (session, reader_id) = Some r" and "r_queue r = []"
  shows "pull_n m session reader_id svc = replicate m (Inr None)"
  using assms by (induction m) (simp_all add: pull_event_in.simps reader_pop_def)

lemma pull_n_queue:
  assumes "hm_get (svc_readers svc) (session, reader_id) = Some r"
  shows "pull_n (length (r_queue r) + m) session reader_id svc
    = map (\<lambda>ev. Inr (Some ev)) (r_queue r) @ replicate m (Inr None)"
  using assms
proof (induction "r_queue r" arbitrary: r svc)
  case Nil
  then show ?case using pull_n_empty [OF Nil.prems] by (simp flip: Nil.hyps)
next
  case (Cons ev evs)
  let ?svc = "svc\<lparr>svc_readers := hm_insert (session, reader_id) (r\<lparr>r_queue := evs\<rparr>) (svc_readers svc)\<rparr>"
  have "pull_event_in session reader_id (Some 0) [] svc = Some (?svc, Inr (Some ev))"
    using Cons.prems by (simp add: pull_event_in.simps reader_pop_def flip: Cons.hyps(2))
  moreover have "pull_n (length evs + m) session reader_id ?svc
      = map (\<lambda>ev. Inr (Some ev)) evs @ replicate m (Inr None)"
    using Cons.hyps(1) [of "r\<lparr>r_queue := evs\<rparr>" ?svc] by (simp add: hm_simps)
  ultimately show ?case by (simp flip: Cons.hyps(2))
qed

text \<open>The event can be mirrored into the ring of the daemon, where it has one.\<close>

definition fits_ring :: "('d, 'p) kevent_env \<Rightarrow> ('d, 'p) kevent_service \<Rightarrow> 'd event \<Rightarrow> bool" where
  "fits_ring env svc ev \<longleftrightarrow>
     (case svc_shared_ring svc of
        None \<Rightarrow> True
      | Some ring \<Rightarrow> \<not> pub_poisoned ring
          \<and> (case to_vec_event env (ingressed svc ev) of Inl _ \<Rightarrow> False | Inr bs \<Rightarrow> length bs \<le> SLOT_DATA_SIZE))"

lemma fits_ring_mirror: "fits_ring env svc ev \<Longrightarrow> snd (mirror_to_shared_ring env (ingressed svc ev) svc) = Inr ()"
  by (auto simp: fits_ring_def mirror_to_shared_ring_def publish_event_def publish_payload_def Let_def
      split: option.splits sum.splits)

lemma fits_ring_cong:
  assumes "svc_shared_ring svc' = svc_shared_ring svc" and "svc_source_node svc' = svc_source_node svc"
  shows "fits_ring env svc' = fits_ring env svc"
  unfolding fun_eq_iff fits_ring_def ingressed_def assms by blast

lemma publish_many_reader:
  assumes "hm_get (svc_readers svc) k = Some r" and "\<forall>ev \<in> set evs. fits_ring env svc ev"
    and "\<forall>ev \<in> set evs. check_global_event env ''daemon only accepts global eventid'' (eventid ev) (data ev) = Inr ()"
  shows "hm_get (svc_readers (publish_many env evs svc)) k = Some (fold offer (map (ingressed svc) evs) r)"
  using assms
proof (induction evs arbitrary: svc r)
  case (Cons ev evs)
  let ?svc = "fst (accept_external_global env ev svc)"
  obtain svc' where m: "mirror_to_shared_ring env (ingressed svc ev) svc = (svc', Inr ())"
    using fits_ring_mirror Cons.prems(2) by (cases "mirror_to_shared_ring env (ingressed svc ev) svc") fastforce
  note f = mirror_frame [of env "ingressed svc ev" svc, unfolded m fst_conv]
  have acc: "accept_external_global env ev svc = deliver_and_broadcast env (ingressed svc ev) svc'"
    using Cons.prems(3) m by (simp add: accept_external_global_def ingressed_def Let_def)
  then have "hm_get (svc_readers ?svc) k = Some (offer (ingressed svc ev) r)"
      "ingressed ?svc = (ingressed svc :: 'a event \<Rightarrow> 'a event)"
    using Cons.prems f by (simp_all add: hm_simps fun_eq_iff ingressed_def)
  moreover have "fits_ring env ?svc = fits_ring env svc"
    using acc f by (intro fits_ring_cong) simp_all
  ultimately show ?case using Cons.IH [of ?svc "offer (ingressed svc ev) r"] Cons.prems(2,3)
    by (simp add: publish_many_def)
qed (simp add: publish_many_def)

text \<open>C27: from subscription to delivery. A client registers a new reader for a set of patterns,
  events are published to the daemon, and the client pulls. The pulls return, in the order of
  publication, the newest of the events that match one of the patterns it asked for, as many as
  a reader's capacity, then nothing. The daemon may have a shared ring, as long as every event fits
  a slot of it; peers that fail do not matter. The patterns are stored
  normalised; what is delivered is decided by those asked for.\<close>

theorem subscribe_publish_pull:
  assumes wf: "svc_wf svc" and ring: "\<forall>ev \<in> set evs. fits_ring env svc ev"
    and new: "hm_get (svc_readers svc) (session, reader_id) = None"
    and reg: "register_reader_in session reader_id patterns svc = (svc1, Inr ())"
    and ok: "\<forall>ev \<in> set evs. check_global_event env ''daemon only accepts global eventid'' (eventid ev) (data ev) = Inr ()"
    and q: "q = last_n (svc_reader_capacity svc)
      (map (ingressed svc) (filter (\<lambda>ev. match_event_patterns patterns (eventid ev)) evs))"
  shows "pull_n (length q + m) session reader_id (publish_many env evs svc1)
    = map (\<lambda>ev. Inr (Some ev)) q @ replicate m (Inr None)"
proof -
  let ?r = "reader_new (normalize_patterns patterns) (svc_reader_capacity svc) :: 'a reader_state"
  have svc1: "svc1 = svc\<lparr>svc_readers := hm_insert (session, reader_id) ?r (svc_readers svc)\<rparr>"
    using reg new by (auto simp: register_reader_in_def Let_def split: if_splits sum.splits)
  have "hm_get (svc_readers (publish_many env evs svc1)) (session, reader_id)
      = Some (fold offer (map (ingressed svc1) evs) ?r)"
    using ring ok fits_ring_cong [of svc1 svc env] by (intro publish_many_reader) (simp_all add: svc1 hm_simps)
  moreover have "r_queue (fold offer (map (ingressed svc1) evs) ?r) = q"
  proof -
    have "reader_ok ?r" using wf by (simp add: reader_ok_def reader_new_def svc_wf_def)
    moreover have "ingressed svc1 = (ingressed svc :: 'a event \<Rightarrow> 'a event)"
      by (simp add: fun_eq_iff ingressed_def svc1)
    ultimately show ?thesis
      by (simp add: offer_all q reader_new_def match_normalize_patterns filter_map comp_def)
        (simp add: ingressed_def)
  qed
  ultimately show ?thesis using pull_n_queue [of "publish_many env evs svc1" session reader_id _ m] by metis
qed

theorem subscribe_publish_pull_witness:
  "pull_n 2 1 ''r2'' (publish_many demo_env [demo_event ''/sys/up'' [1], demo_event ''/sys/up'' [2],
      demo_event ''/sys/up'' [3]] (fst (register_reader_in 1 ''r2'' [''/sys/**''] ring_svc)))
    = [Inr (Some (ingressed ring_svc (demo_event ''/sys/up'' [2]))),
       Inr (Some (ingressed ring_svc (demo_event ''/sys/up'' [3])))]"
proof -
  let ?e = "\<lambda>n. demo_event ''/sys/up'' [n]" and ?svc1 = "fst (register_reader_in 1 ''r2'' [''/sys/**''] ring_svc)"
  have d: "hm_get (svc_readers ring_svc) (1, ''r2'') = None" "svc_reader_capacity ring_svc = 2"
    by (simp_all add: ring_svc_def demo_svc_def new_with_capacity_def hm_get_def)
  have f1: "\<forall>ev \<in> set [?e 1, ?e 2, ?e 3]. fits_ring demo_env ring_svc ev"
    by (simp add: fits_ring_def ring_svc_def publisher_def demo_env_def demo_event_def ingressed_def SLOT_DATA_SIZE_def)
  have "check_global_patterns [''/sys/**''] = Inr ()" by code_simp
  then have r: "register_reader_in 1 ''r2'' [''/sys/**''] ring_svc = (?svc1, Inr ())"
    using d(1) by (simp add: register_reader_in_def Let_def)
  have m: "match_event_patterns [''/sys/**''] ''/sys/up''" by code_simp
  have c: "\<forall>ev \<in> set [?e 1, ?e 2, ?e 3]. check_global_event demo_env ''daemon only accepts global eventid'' (eventid ev) (data ev) = Inr ()"
    using demo_check by simp
  have f: "filter (\<lambda>ev. match_event_patterns [''/sys/**''] (eventid ev)) [?e 1, ?e 2, ?e 3] = [?e 1, ?e 2, ?e 3]"
    using m by (intro filter_True) (simp add: demo_event_def del: match_event_patterns.simps)
  from subscribe_publish_pull [OF ring_svc_wf f1 d(1) r c refl, of 0] show ?thesis
    unfolding f d(2) by (simp add: last_n_def numeral_2_eq_2 del: pull_n.simps)
qed

section \<open>Connections\<close>

text \<open>C18: the life of a connection. However a connection ends, whether the peer closes it, a read
  fails, a frame is malformed, a response cannot be encoded, or writing or flushing one fails, and
  whatever it and the rest of the daemon did meanwhile, no reader of its session is left when it
  has been handled. A reader of any other session is still registered with the patterns it had,
  even if the connection used its reader id, provided that the rest of the daemon left those
  patterns alone.\<close>

theorem connection_lifecycle:
  assumes wf: "svc_wf svc" and fresh: "svc_session_seq svc + 1 \<noteq> SHARED"
    and others: "\<And>i s. svc_wf s \<Longrightarrow> svc_wf (others i s)"
    and wakes: "\<And>i s. Notified s \<in> set (wakes i) \<Longrightarrow> svc_wf s"
    and h: "handle_native_tcp_connection env decode encode others wakes sock svc = Some (svc', out, r)"
  shows "svc_wf svc' \<and> (\<forall>reader_id. hm_get (svc_readers svc') (svc_session_seq svc + 1, reader_id) = None)
    \<and> (\<forall>k. fst k \<noteq> svc_session_seq svc + 1
        \<and> (\<forall>i s. map_option r_patterns (hm_get (svc_readers (others i s)) k) = map_option r_patterns (hm_get (svc_readers s) k))
        \<and> (\<forall>i s. Notified s \<in> set (wakes i)
             \<longrightarrow> map_option r_patterns (hm_get (svc_readers s) k) = map_option r_patterns (hm_get (svc_readers svc) k))
        \<longrightarrow> map_option r_patterns (hm_get (svc_readers svc') k) = map_option r_patterns (hm_get (svc_readers svc) k))"
proof -
  let ?s = "svc_session_seq svc + 1" and ?svc0 = "fst (open_session svc)"
  obtain svc1 where serve: "serve_native_tcp_session env decode encode others wakes sock ?s 0 (arrives sock) ?svc0 = Some (svc1, out, r)"
      and close: "svc' = fst (close_session ?s svc1)"
    using h by (auto simp: handle_native_tcp_connection_def open_session_def split: option.splits prod.splits)
  have step: "svc_wf s'" if "svc_wf s" "handle_protocol_request_in env ?s (wakes i) req s = Some (s', resp)"
      for i req s s' resp
    using svc_wf_handle [OF that(1) _ that(2)] wakes by blast
  have wf1: "svc_wf svc1"
    by (rule serve_invariant [of svc_wf, OF _ others step serve]) (simp_all add: wf)
  then have hm: "hm_wf (svc_readers svc1)" by (simp add: svc_wf_def)
  have readers: "svc_readers svc' = hm_retain (\<lambda>key. fst key \<noteq> ?s) (svc_readers svc1)"
    using fresh by (simp add: close close_session_def Let_def)
  have iso: "map_option r_patterns (hm_get (svc_readers svc1) k) = map_option r_patterns (hm_get (svc_readers svc) k)"
    if k: "fst k \<noteq> ?s"
      and id: "\<forall>i s. map_option r_patterns (hm_get (svc_readers (others i s)) k) = map_option r_patterns (hm_get (svc_readers s) k)"
        "\<forall>i s. Notified s \<in> set (wakes i) \<longrightarrow> map_option r_patterns (hm_get (svc_readers s) k) = map_option r_patterns (hm_get (svc_readers svc) k)"
    for k
  proof -
    let ?Q = "\<lambda>x. map_option r_patterns x = map_option r_patterns (hm_get (svc_readers svc) k)"
    let ?P = "\<lambda>s. svc_wf s \<and> ?Q (hm_get (svc_readers s) k)"
    have "?P svc1"
    proof (rule serve_invariant [of ?P, OF _ _ _ serve])
      fix i req s s' resp
      assume P: "?P s" and hd: "handle_protocol_request_in env ?s (wakes i) req s = Some (s', resp)"
      have "?Q (hm_get (svc_readers s') k)"
        by (rule handle_other_session [of s k ?s ?Q "wakes i", OF _ k _ _ _ hd])
          (use P id(2) in \<open>auto simp: svc_wf_def option.map_comp comp_def\<close>)
      then show "?P s'" using P step [OF _ hd] by blast
    qed (use wf id(1) others in auto)
    then show ?thesis by blast
  qed
  have "svc_wf svc'" unfolding close by (rule svc_wf_close [OF wf1])
  then show ?thesis using iso by (simp add: readers hm_get_retain [OF hm])
qed

theorem connection_lifecycle_witness:
  "\<exists>svc' out r. handle_native_tcp_connection demo_env (\<lambda>_. Inr (RegisterReader ''r1'' [''/sys/**'']))
      (\<lambda>_. Inr [9]) (\<lambda>_ s. s) (\<lambda>_. [])
      \<lparr>arrives = write_u32 1 @ [5], read_error = (UnexpectedEof, ''eof''), sends = \<lambda>_ _. ([0], Inl (OtherKind, ''broken pipe''))\<rparr>
      demo_svc = Some (svc', out, r)
    \<and> r = Inl (OtherKind, ''broken pipe'') \<and> hm_get (svc_readers svc') (1, ''r1'') = None"
proof -
  let ?dec = "\<lambda>_ :: bytes. Inr (RegisterReader ''r1'' [''/sys/**'']) :: bytes daemon_request kevent_result"
  let ?enc = "\<lambda>_ :: bytes daemon_response. Inr [9] :: bytes kevent_result"
  let ?sock = "\<lparr>arrives = write_u32 1 @ [5], read_error = (UnexpectedEof, ''eof''), sends = \<lambda>_ _. ([0], Inl (OtherKind, ''broken pipe''))\<rparr>"
  have seq: "svc_session_seq demo_svc = 0" by (simp add: demo_svc_def new_with_capacity_def)
  obtain svc2 where reg: "register_reader_in 1 ''r1'' [''/sys/**''] (fst (open_session demo_svc)) = (svc2, Inr ())"
  proof -
    have "check_global_patterns [''/sys/**''] = Inr ()" by code_simp
    then show ?thesis
      using that by (simp add: register_reader_in_def Let_def demo_svc_def new_with_capacity_def open_session_def)
  qed
  have serve: "serve_native_tcp_session demo_env ?dec ?enc (\<lambda>_ s. s) (\<lambda>_. []) ?sock 1 0 (write_u32 1 @ [5]) (fst (open_session demo_svc))
      = Some (svc2, [0], Inl (OtherKind, ''broken pipe''))"
    using reg by (subst serve_native_tcp_session.simps)
      (simp add: write_u32_def MAX_NATIVE_FRAME_SIZE_def write_response_def unit_response_def)
  have h: "handle_native_tcp_connection demo_env ?dec ?enc (\<lambda>_ s. s) (\<lambda>_. []) ?sock demo_svc
      = Some (fst (close_session 1 svc2), [0], Inl (OtherKind, ''broken pipe''))"
    using serve seq by (simp add: handle_native_tcp_connection_def open_session_def split: prod.splits)
  from connection_lifecycle [OF demo_svc_wf _ _ _ h] seq
  have "hm_get (svc_readers (fst (close_session 1 svc2))) (1, ''r1'') = None" by (simp add: SHARED_def)
  then show ?thesis using h by blast
qed

end
