(* ===== verification/Event_Bridge.thy ===== *)
theory Event_Bridge
  imports Event_Service
begin

text \<open>
  The TCP transport between a client and the daemon (\<^verbatim>\<open>kernel/buckyos-api/src/kevent_bridge.rs\<close>):
  framing, the decoding of responses, the publisher connection with its backoff gate, the
  statistics, and the loop that keeps one reader registered and pulls its events.

  The network is a parameter. One call of \<open>publish\<close> connects at most once and sends at most one
  request, so it takes the outcome of the connection attempt and the outcome of the request;
  \<open>pump_reader\<close> takes, for each turn of its loop, what the flags, the pattern set and the
  requests give. Requests that are sent are recorded.
\<close>

section \<open>Frames\<close>

definition write_frame :: "bytes \<Rightarrow> bytes io_result" where
  "write_frame payload =
     (if payload = [] \<or> length payload > MAX_NATIVE_FRAME_SIZE then
        Inl (InvalidData, ''invalid kevent native frame length: '' @ show_nat (length payload))
      else Inr (write_u32 (length payload) @ payload))"

text \<open>Reading from the bytes that arrive before the stream ends; the rest is left in the stream.\<close>

definition read_frame :: "bytes \<Rightarrow> (bytes \<times> bytes) io_result" where
  "read_frame stream =
     (case read_u32 stream of
        None \<Rightarrow> Inl (UnexpectedEof, ''early eof'')
      | Some (frame_len, rest) \<Rightarrow>
          if frame_len = 0 \<or> frame_len > MAX_NATIVE_FRAME_SIZE then
            Inl (InvalidData, ''invalid kevent native frame length: '' @ show_nat frame_len)
          else if length rest < frame_len then Inl (UnexpectedEof, ''early eof'')
          else Inr (take frame_len rest, drop frame_len rest))"

section \<open>Responses and errors\<close>

definition response_error :: "string \<Rightarrow> string \<Rightarrow> kevent_error" where
  "response_error c message =
     (if c = ''INVALID_EVENTID'' then InvalidEventId message
      else if c = ''INVALID_PATTERN'' then InvalidPattern message
      else if c = ''DAEMON_UNAVAILABLE'' then DaemonUnavailable message
      else if c = ''TIMER_INVALID_TARGET'' then TimerInvalidTarget message
      else if c = ''TIMER_NOT_FOUND'' then TimerNotFound message
      else if c = ''NOT_SUPPORTED'' then NotSupported message
      else if c = ''READER_CLOSED'' then ReaderClosed message
      else Internal message)"

fun response_to_result :: "'d daemon_response \<Rightarrow> 'd event option kevent_result" where
  "response_to_result (RespOk ev) = Inr ev"
| "response_to_result (RespErr c message) = Inl (response_error c message)"

fun is_transport_error :: "kevent_error \<Rightarrow> bool" where
  "is_transport_error (DaemonUnavailable _) = True"
| "is_transport_error (Internal _) = True"
| "is_transport_error _ = False"

section \<open>Backoff\<close>

definition BACKOFF_MIN_MS :: u64 where "BACKOFF_MIN_MS = 200"
definition BACKOFF_MAX_MS :: u64 where "BACKOFF_MAX_MS = 5000"
definition FAILURE_LOG_INTERVAL_MS :: u64 where "FAILURE_LOG_INTERVAL_MS = 60000"
definition MAX_READER_CLOSED_RETRIES :: nat where "MAX_READER_CLOSED_RETRIES = 3"
definition BRIDGE_PULL_TIMEOUT_MS :: u64 where "BRIDGE_PULL_TIMEOUT_MS = 5000"

definition saturating_mul :: "u64 \<Rightarrow> u64 \<Rightarrow> u64" where
  "saturating_mul a b = (if unat a * unat b < 2 ^ 64 then a * b else -1)"

definition backoff_delay :: "u64 \<Rightarrow> u32 \<Rightarrow> u64" where
  "backoff_delay rnd attempt =
     (let shift = unat (min attempt 5);
          capped = min (saturating_mul BACKOFF_MIN_MS (push_bit shift 1)) BACKOFF_MAX_MS;
          half = capped div 2;
          jitter = (if half > 0 then rnd mod half else 0)
      in half + jitter)"

section \<open>Statistics\<close>

record bridge_stats =
  consecutive_failures :: u64
  total_failures :: u64
  reconnects :: u64
  events_received :: u64
  publishes_dropped :: u64
  live_readers :: u64
  connected_readers :: u64
  publisher_connected :: bool
  last_error_at_ms :: u64
  last_ok_at_ms :: u64
  last_failure_log_ms :: u64
  last_error :: "string option"

definition empty_stats :: bridge_stats where
  "empty_stats = \<lparr>consecutive_failures = 0, total_failures = 0, reconnects = 0, events_received = 0,
     publishes_dropped = 0, live_readers = 0, connected_readers = 0, publisher_connected = False, last_error_at_ms = 0, last_ok_at_ms = 0,
     last_failure_log_ms = 0, last_error = None\<rparr>"

definition record_failure :: "u64 \<Rightarrow> kevent_error \<Rightarrow> bridge_stats \<Rightarrow> bridge_stats" where
  "record_failure now err st =
     (let streak = consecutive_failures st + 1;
          st = st\<lparr>consecutive_failures := streak, total_failures := total_failures st + 1,
                 last_error_at_ms := now, last_error := Some (error_to_string err)\<rparr>
      in if streak = 1 \<or> saturating_sub now (last_failure_log_ms st) \<ge> FAILURE_LOG_INTERVAL_MS
         then st\<lparr>last_failure_log_ms := now\<rparr> else st)"

definition record_ok :: "u64 \<Rightarrow> bridge_stats \<Rightarrow> bridge_stats" where
  "record_ok now st = st\<lparr>consecutive_failures := 0, last_ok_at_ms := now\<rparr>"

text \<open>\<open>ReaderGauge\<close>: the flag of one reader task and its share in the two counters of readers.\<close>

definition gauge_new :: "bridge_stats \<Rightarrow> bridge_stats \<times> bool" where
  "gauge_new st = (st\<lparr>live_readers := live_readers st + 1\<rparr>, False)"

definition gauge_set_connected :: "bool \<Rightarrow> bridge_stats \<times> bool \<Rightarrow> bridge_stats \<times> bool" where
  "gauge_set_connected connected g =
     (case g of (st, was) \<Rightarrow>
        if was = connected then (st, was)
        else if connected then (st\<lparr>connected_readers := connected_readers st + 1\<rparr>, True)
        else (st\<lparr>connected_readers := connected_readers st - 1\<rparr>, False))"

definition gauge_drop :: "bridge_stats \<times> bool \<Rightarrow> bridge_stats" where
  "gauge_drop g =
     (case gauge_set_connected False g of (st, _) \<Rightarrow> st\<lparr>live_readers := live_readers st - 1\<rparr>)"

section \<open>The publisher\<close>

record 'd publisher_link =
  pl_endpoint :: string
  pl_conn :: bool
  pl_next_connect_at_ms :: u64
  pl_attempt :: u32
  pl_stats :: bridge_stats
  pl_sent :: "'d daemon_request list"

definition new_publisher_link :: "string \<Rightarrow> 'd publisher_link" where
  "new_publisher_link endpoint = \<lparr>pl_endpoint = endpoint, pl_conn = False, pl_next_connect_at_ms = 0,
     pl_attempt = 0, pl_stats = empty_stats, pl_sent = []\<rparr>"

text \<open>\<open>KEventDaemonBridgeTransport::new\<close>.\<close>

definition new_bridge_transport :: "string \<Rightarrow> 'd publisher_link kevent_result" where
  "new_bridge_transport endpoint =
     (let endpoint = trim endpoint in
      if endpoint = [] then Inl (DaemonUnavailable ''kevent daemon bridge endpoint is empty'')
      else Inr (new_publisher_link endpoint))"

text \<open>What one call of \<open>publish\<close> meets: the clock when the gate is checked and when the attempt has
  ended, a random number, the outcome of connecting and the outcome of the request.\<close>

record 'd net =
  net_now :: u64
  net_done :: u64
  net_rnd :: u64
  net_connect :: "unit kevent_result"
  net_request :: "'d daemon_response kevent_result"

definition schedule_retry :: "'d net \<Rightarrow> 'd publisher_link \<Rightarrow> 'd publisher_link" where
  "schedule_retry net pl =
     pl\<lparr>pl_attempt := pl_attempt pl + 1,
        pl_next_connect_at_ms := net_done net + backoff_delay (net_rnd net) (pl_attempt pl)\<rparr>"

definition note_ok :: "'d net \<Rightarrow> 'd publisher_link \<Rightarrow> 'd publisher_link" where
  "note_ok net pl = pl\<lparr>pl_attempt := 0, pl_next_connect_at_ms := 0,
     pl_stats := record_ok (net_done net) (pl_stats pl)\<rparr>"

definition unit_result :: "'d daemon_response \<Rightarrow> unit kevent_result" where
  "unit_result resp = (case response_to_result resp of Inl e \<Rightarrow> Inl e | Inr _ \<Rightarrow> Inr ())"

definition link_publish :: "'d net \<Rightarrow> 'd event \<Rightarrow> 'd publisher_link
    \<Rightarrow> 'd publisher_link \<times> unit kevent_result" where
  "link_publish net ev pl =
     (if pl_conn pl then
        (let pl = pl\<lparr>pl_sent := pl_sent pl @ [PublishGlobal ev]\<rparr> in
         case net_request net of
           Inr resp \<Rightarrow> (note_ok net pl, unit_result resp)
         | Inl err \<Rightarrow>
             if is_transport_error err then
               (let pl = pl\<lparr>pl_conn := False, pl_stats := (pl_stats pl)\<lparr>publisher_connected := False\<rparr>\<rparr>;
                    pl = schedule_retry net pl
                in (pl\<lparr>pl_stats := record_failure (net_done net) err (pl_stats pl)\<rparr>, Inl err))
             else (pl, Inl err))
      else if net_now net < pl_next_connect_at_ms pl then
        (pl, Inl (DaemonUnavailable (''kevent daemon '' @ pl_endpoint pl @ '' unreachable, retrying later'')))
      else
        (case net_connect net of
           Inl err \<Rightarrow>
             (let pl = schedule_retry net pl
              in (pl\<lparr>pl_stats := record_failure (net_done net) err (pl_stats pl)\<rparr>, Inl err))
         | Inr _ \<Rightarrow>
             (let pl = pl\<lparr>pl_stats := (pl_stats pl)\<lparr>reconnects := reconnects (pl_stats pl) + 1\<rparr>,
                         pl_sent := pl_sent pl @ [PublishGlobal ev]\<rparr>
              in case net_request net of
                   Inr resp \<Rightarrow>
                     (note_ok net (pl\<lparr>pl_conn := True,
                        pl_stats := (pl_stats pl)\<lparr>publisher_connected := True\<rparr>\<rparr>), unit_result resp)
                 | Inl err \<Rightarrow>
                     if is_transport_error err then
                       (let pl = pl\<lparr>pl_stats := (pl_stats pl)\<lparr>publisher_connected := False\<rparr>\<rparr>;
                            pl = pl\<lparr>pl_stats := record_failure (net_done net) err (pl_stats pl)\<rparr>
                        in (schedule_retry net pl, Inl err))
                     else (pl, Inl err))))"

definition note_publish_dropped :: "'d publisher_link \<Rightarrow> 'd publisher_link" where
  "note_publish_dropped pl = pl\<lparr>pl_stats := (pl_stats pl)
     \<lparr>publishes_dropped := publishes_dropped (pl_stats pl) + 1\<rparr>\<rparr>"

section \<open>The reader loop\<close>

datatype pump_exit = Stopped | Idle | Failed kevent_error

text \<open>One turn of the loop in \<open>pump_reader\<close>: whether the link was stopped or marked dirty before it,
  the pattern set at the point of re-registration and after the pull, and the outcomes of the two
  requests.\<close>

record 'd pump_turn =
  turn_stopped :: bool
  turn_dirty :: bool
  turn_patterns :: "string list option"
  turn_register :: "'d daemon_response kevent_result"
  turn_pull :: "'d daemon_response kevent_result"
  turn_patterns_after :: "string list option"

record 'd pump_state =
  pump_dirty :: bool
  pump_streak :: nat
  pump_sent :: "'d daemon_request list"
  pump_delivered :: "'d event list"

definition and_then_result :: "'d daemon_response kevent_result \<Rightarrow> 'd event option kevent_result" where
  "and_then_result r = rbind r response_to_result"

text \<open>\<open>Inl\<close>: the loop returns; \<open>Inr\<close>: the next turn.\<close>

definition pump_pull :: "string \<Rightarrow> 'd pump_turn \<Rightarrow> 'd pump_state
    \<Rightarrow> (pump_exit \<times> 'd pump_state) + 'd pump_state" where
  "pump_pull reader_id t st =
     (let st = st\<lparr>pump_sent := pump_sent st @ [PullEvent reader_id (Some BRIDGE_PULL_TIMEOUT_MS)]\<rparr> in
      case and_then_result (turn_pull t) of
        Inr (Some ev) \<Rightarrow>
          (let st = st\<lparr>pump_streak := 0\<rparr> in
           if turn_patterns_after t = None then Inl (Stopped, st)
           else Inr (st\<lparr>pump_delivered := pump_delivered st @ [ev]\<rparr>))
      | Inr None \<Rightarrow>
          (let st = st\<lparr>pump_streak := 0\<rparr> in
           if turn_patterns_after t = None then Inl (Stopped, st) else Inr st)
      | Inl (ReaderClosed m) \<Rightarrow>
          (let st = st\<lparr>pump_dirty := True, pump_streak := pump_streak st + 1\<rparr> in
           if pump_streak st > MAX_READER_CLOSED_RETRIES then Inl (Failed (ReaderClosed m), st)
           else Inr st)
      | Inl err \<Rightarrow> Inl (Failed err, st))"

definition pump_turn_step :: "string \<Rightarrow> 'd pump_turn \<Rightarrow> 'd pump_state
    \<Rightarrow> (pump_exit \<times> 'd pump_state) + 'd pump_state" where
  "pump_turn_step reader_id t st =
     (if turn_stopped t then Inl (Stopped, st)
      else if pump_dirty st \<or> turn_dirty t then
        (let st = st\<lparr>pump_dirty := False\<rparr> in
         case turn_patterns t of
           None \<Rightarrow> Inl (Stopped, st)
         | Some [] \<Rightarrow> Inl (Idle, st)
         | Some patterns \<Rightarrow>
             (let st = st\<lparr>pump_sent := pump_sent st @ [RegisterReader reader_id patterns]\<rparr> in
              case and_then_result (turn_register t) of
                Inl err \<Rightarrow> Inl (Failed err, st\<lparr>pump_dirty := True\<rparr>)
              | Inr _ \<Rightarrow> pump_pull reader_id t st))
      else pump_pull reader_id t st)"

fun pump_reader :: "string \<Rightarrow> 'd pump_turn list \<Rightarrow> 'd pump_state \<Rightarrow> pump_exit option \<times> 'd pump_state" where
  "pump_reader reader_id [] st = (None, st)"
| "pump_reader reader_id (t # ts) st =
     (case pump_turn_step reader_id t st of
        Inl (ex, st') \<Rightarrow> (Some ex, st')
      | Inr st' \<Rightarrow> pump_reader reader_id ts st')"

end
