(* ===== verification/Event_Client.thy ===== *)
theory Event_Client
  imports Event_Bridge
begin

text \<open>
  The client library of the event bus (\<^verbatim>\<open>kernel/buckyos-api/src/kevent_client.rs\<close>):
  construction, readers, publication over the chosen transport, the import of events from the
  shared ring, timers, and the operations of a reader handle.

  The state \<open>kevent_client\<close> joins \<^verbatim>\<open>KEventClient\<close> and \<^verbatim>\<open>KEventClientInner\<close>; the region behind a
  shared-memory transport is one of its fields. Encoders, clock, process id, network outcomes
  and the caller's own publish channel are parameters. The task behind a timer, which sleeps
  and publishes, is not modelled; registering and cancelling timers is.
\<close>

section \<open>State\<close>

definition DEFAULT_READER_CAPACITY :: nat where "DEFAULT_READER_CAPACITY = 1024"
definition SHARED_RING_DRAIN_BATCH :: nat where "SHARED_RING_DRAIN_BATCH = 128"
definition PUBLISH_DROP_LOG_INTERVAL_MS :: u64 where "PUBLISH_DROP_LOG_INTERVAL_MS = 60000"

datatype client_mode = Local | Full | Light | LocalPubOnly

datatype 'd transport =
    NoTransport
  | SharedMemory shared_ring_buffer
  | DaemonBridge "'d publisher_link"
  | PublishOnlyBridge

record 'd kevent_client =
  cl_mode :: client_mode
  cl_source_node :: string
  cl_readers :: "(string, 'd reader_state) hmap"
  cl_timers :: "(string, unit) hmap"
  cl_transport :: "'d transport"
  cl_instance_nonce :: string
  cl_reader_seq :: u64
  cl_timer_seq :: u64
  cl_reader_capacity :: nat
  cl_shm_publish_dropped :: u64
  cl_shm_drop_last_log_ms :: u64
  cl_region :: shared_region

record 'd client_env =
  c_to_vec_event :: "'d event \<Rightarrow> (string, bytes) result"
  c_to_vec_data :: "'d \<Rightarrow> (string, bytes) result"
  c_from_slice :: "bytes \<Rightarrow> 'd event option"
  c_now :: u64
  c_pid :: u32
  c_net :: "'d net"
  c_bridge :: "'d event \<Rightarrow> unit kevent_result"

record event_reader =
  er_reader_id :: string
  er_has_global_patterns :: bool
  er_bridge_link :: "bool option"
  er_closed :: bool

definition shared_ring :: "'d transport \<Rightarrow> shared_ring_buffer option" where
  "shared_ring t = (case t of SharedMemory ring \<Rightarrow> Some ring | _ \<Rightarrow> None)"

definition is_daemon_bridge :: "'d transport \<Rightarrow> bool" where
  "is_daemon_bridge t = (case t of DaemonBridge _ \<Rightarrow> True | _ \<Rightarrow> False)"

definition build :: "string \<Rightarrow> client_mode \<Rightarrow> 'd transport \<Rightarrow> nat \<Rightarrow> string \<Rightarrow> shared_region
    \<Rightarrow> 'd kevent_client" where
  "build node mode transport capacity nonce region = \<lparr>cl_mode = mode, cl_source_node = node,
     cl_readers = [], cl_timers = [], cl_transport = transport, cl_instance_nonce = nonce,
     cl_reader_seq = 0, cl_timer_seq = 0, cl_reader_capacity = max capacity 1,
     cl_shm_publish_dropped = 0, cl_shm_drop_last_log_ms = 0, cl_region = region\<rparr>"

text \<open>\<open>opened\<close> is the result of opening the ring buffer.\<close>

definition new_shared_memory :: "string \<Rightarrow> (string, shared_region \<times> shared_ring_buffer) result
    \<Rightarrow> nat \<Rightarrow> string \<Rightarrow> 'd kevent_client kevent_result" where
  "new_shared_memory node opened capacity nonce =
     rbind (map_err (\<lambda>err. DaemonUnavailable (''kevent shared ringbuffer is unavailable: '' @ err)) opened)
       (\<lambda>(region, ring). Inr (build node Full (SharedMemory ring) capacity nonce region))"

definition new_daemon_bridge :: "string \<Rightarrow> string \<Rightarrow> nat \<Rightarrow> string \<Rightarrow> shared_region
    \<Rightarrow> 'd kevent_client kevent_result" where
  "new_daemon_bridge node endpoint capacity nonce region =
     rbind (new_bridge_transport endpoint)
       (\<lambda>link. Inr (build node Full (DaemonBridge link) capacity nonce region))"

definition new_light_daemon_bridge :: "string \<Rightarrow> string \<Rightarrow> string \<Rightarrow> shared_region
    \<Rightarrow> 'd kevent_client kevent_result" where
  "new_light_daemon_bridge node endpoint nonce region =
     rbind (new_bridge_transport endpoint)
       (\<lambda>link. Inr (build node Light (DaemonBridge link) DEFAULT_READER_CAPACITY nonce region))"

section \<open>Readers\<close>

text \<open>The validation loop, which also finds out whether a pattern is global.\<close>

fun check_patterns :: "string list \<Rightarrow> bool \<Rightarrow> bool kevent_result" where
  "check_patterns [] has_global = Inr has_global"
| "check_patterns (p # ps) has_global =
     rbind (validate_pattern p) (\<lambda>_. check_patterns ps (has_global \<or> is_global_pattern p))"

definition reader_id_of :: "string \<Rightarrow> u64 \<Rightarrow> string" where
  "reader_id_of nonce n = ''r_'' @ nonce @ ''_'' @ show_nat (unat n)"

definition create_event_reader :: "'d client_env \<Rightarrow> string list \<Rightarrow> 'd kevent_client
    \<Rightarrow> 'd kevent_client \<times> event_reader kevent_result" where
  "create_event_reader env patterns cl =
     (if patterns = [] then (cl, Inl (InvalidPattern ''patterns must not be empty''))
      else if cl_mode cl = Light \<or> cl_mode cl = LocalPubOnly then
        (cl, Inl (NotSupported ''current mode does not support create_event_reader''))
      else
        (case check_patterns patterns False of
           Inl e \<Rightarrow> (cl, Inl e)
         | Inr has_global \<Rightarrow>
             (let normalized = normalize_patterns patterns;
                  n = cl_reader_seq cl + 1;
                  reader_id = reader_id_of (cl_instance_nonce cl) n;
                  cl = cl\<lparr>cl_reader_seq := n,
                         cl_readers := hm_insert reader_id
                           (reader_new normalized (max (cl_reader_capacity cl) 1)) (cl_readers cl)\<rparr>;
                  handle = \<lparr>er_reader_id = reader_id, er_has_global_patterns = has_global,
                            er_bridge_link = None, er_closed = False\<rparr>
              in if cl_mode cl = Full \<and> has_global then
                   (case cl_transport cl of
                      SharedMemory ring \<Rightarrow>
                        (case prime_cursors (c_now env) (consume ring) (cl_region cl) of
                           (inner, region) \<Rightarrow>
                             (cl\<lparr>cl_transport := SharedMemory (ring\<lparr>consume := inner\<rparr>),
                                 cl_region := region\<rparr>, Inr handle))
                    | DaemonBridge _ \<Rightarrow> (cl, Inr (handle\<lparr>er_bridge_link := Some False\<rparr>))
                    | _ \<Rightarrow> (cl, Inr handle))
                 else (cl, Inr handle))))"

definition dispatch_event :: "'d event \<Rightarrow> 'd kevent_client \<Rightarrow> 'd kevent_client" where
  "dispatch_event ev cl = cl\<lparr>cl_readers := deliver_all ev (cl_readers cl)\<rparr>"

section \<open>Publishing\<close>

definition note_shm_publish_dropped :: "u64 \<Rightarrow> 'd kevent_client \<Rightarrow> 'd kevent_client" where
  "note_shm_publish_dropped now cl =
     (let dropped = cl_shm_publish_dropped cl + 1;
          cl = cl\<lparr>cl_shm_publish_dropped := dropped\<rparr>
      in if dropped = 1
           \<or> saturating_sub now (cl_shm_drop_last_log_ms cl) \<ge> PUBLISH_DROP_LOG_INTERVAL_MS
         then cl\<lparr>cl_shm_drop_last_log_ms := now\<rparr> else cl)"

definition publish_global_best_effort :: "'d client_env \<Rightarrow> 'd event \<Rightarrow> 'd kevent_client
    \<Rightarrow> 'd kevent_client \<times> unit kevent_result" where
  "publish_global_best_effort env ev cl =
     (case cl_transport cl of
        SharedMemory ring \<Rightarrow>
          (case c_to_vec_event env ev of
             Inl err \<Rightarrow> (cl, Inl (Internal (''failed to encode event: '' @ err)))
           | Inr payload \<Rightarrow>
               if length payload > SLOT_DATA_SIZE then
                 (cl, Inl (InvalidEventId (''event too large for shared ring: ''
                    @ show_nat (length payload) @ '' bytes, max '' @ show_nat SLOT_DATA_SIZE)))
               else
                 (case publish_payload (c_now env) (publish ring) payload (cl_region cl) of
                    (region, Inl _) \<Rightarrow>
                      (note_shm_publish_dropped (c_now env) (cl\<lparr>cl_region := region\<rparr>), Inr ())
                  | (region, Inr _) \<Rightarrow> (cl\<lparr>cl_region := region\<rparr>, Inr ())))
      | DaemonBridge link \<Rightarrow>
          (case link_publish (c_net env) ev link of
             (link', Inr _) \<Rightarrow> (cl\<lparr>cl_transport := DaemonBridge link'\<rparr>, Inr ())
           | (link', Inl err) \<Rightarrow>
               if is_transport_error err
               then (cl\<lparr>cl_transport := DaemonBridge (note_publish_dropped link')\<rparr>, Inr ())
               else (cl\<lparr>cl_transport := DaemonBridge link'\<rparr>, Inl err))
      | PublishOnlyBridge \<Rightarrow>
          (case c_bridge env ev of
             Inr _ \<Rightarrow> (cl, Inr ())
           | Inl err \<Rightarrow>
               if is_transport_error err then (note_shm_publish_dropped (c_now env) cl, Inr ())
               else (cl, Inl err))
      | NoTransport \<Rightarrow> (cl, Inl (NotSupported ''client has no global event transport'')))"

definition client_event :: "'d client_env \<Rightarrow> string \<Rightarrow> 'd \<Rightarrow> 'd kevent_client \<Rightarrow> 'd event" where
  "client_event env eid d cl = \<lparr>eventid = eid, source_node = cl_source_node cl, source_pid = c_pid env,
     ingress_node = (if is_global_eventid eid then Some (cl_source_node cl) else None),
     timestamp = c_now env, data = d\<rparr>"

definition pub_event :: "'d client_env \<Rightarrow> string \<Rightarrow> 'd \<Rightarrow> 'd kevent_client
    \<Rightarrow> 'd kevent_client \<times> unit kevent_result" where
  "pub_event env eid d cl =
     (case rbind (validate_eventid eid) (\<lambda>_. validate_event_data_size (c_to_vec_data env) d) of
        Inl e \<Rightarrow> (cl, Inl e)
      | Inr _ \<Rightarrow>
          (let ev = client_event env eid d cl;
               is_global = is_global_eventid eid;
               cl = (if \<not> is_global \<or> \<not> is_daemon_bridge (cl_transport cl)
                     then dispatch_event ev cl else cl)
           in case cl_mode cl of
                Local \<Rightarrow> (cl, Inr ())
              | LocalPubOnly \<Rightarrow> (cl, Inr ())
              | Full \<Rightarrow> if is_global then publish_global_best_effort env ev cl else (cl, Inr ())
              | Light \<Rightarrow>
                  if \<not> is_global then
                    (cl, Inl (NotSupported ''light mode only supports global event publishing''))
                  else publish_global_best_effort env ev cl))"

definition ingest_global_event :: "'d event \<Rightarrow> 'd kevent_client \<Rightarrow> 'd kevent_client \<times> unit kevent_result" where
  "ingest_global_event ev cl =
     (if \<not> is_global_eventid (eventid ev) then
        (cl, Inl (InvalidEventId ''ingest_global_event only accepts global eventid''))
      else
        (case validate_eventid (eventid ev) of
           Inl e \<Rightarrow> (cl, Inl e)
         | Inr _ \<Rightarrow>
             (let ev = (if ingress_node ev = None
                        then ev\<lparr>ingress_node := Some (source_node ev)\<rparr> else ev)
              in (dispatch_event ev cl, Inr ()))))"

section \<open>Import from the shared ring\<close>

definition import_step :: "'d event \<Rightarrow> 'd kevent_client \<Rightarrow> 'd kevent_client" where
  "import_step ev cl = (if \<not> is_global_eventid (eventid ev) then cl else dispatch_event ev cl)"

definition import_shared_events :: "'d client_env \<Rightarrow> nat \<Rightarrow> 'd kevent_client \<Rightarrow> 'd kevent_client \<times> nat" where
  "import_shared_events env max_events cl =
     (case shared_ring (cl_transport cl) of
        None \<Rightarrow> (cl, 0)
      | Some ring \<Rightarrow>
          (case drain_events (c_from_slice env) (c_now env) max_events (consume ring) (cl_region cl) of
             (inner, region, events) \<Rightarrow>
               (let cl = cl\<lparr>cl_transport := SharedMemory (ring\<lparr>consume := inner\<rparr>), cl_region := region\<rparr>
                in (fold import_step events cl, length events))))"

section \<open>Timers\<close>

record 'd timer_options =
  interval_ms :: u64
  repeat :: bool
  initial_delay_ms :: "u64 option"
  timer_data :: "'d option"

definition create_timer :: "string \<Rightarrow> 'd timer_options \<Rightarrow> 'd kevent_client
    \<Rightarrow> 'd kevent_client \<times> string kevent_result" where
  "create_timer eid options cl =
     (if cl_mode cl = Light \<or> cl_mode cl = LocalPubOnly then
        (cl, Inl (NotSupported ''current mode does not support create_timer''))
      else if is_global_eventid eid then
        (cl, Inl (TimerInvalidTarget ''timer target must be local eventid''))
      else
        (case validate_eventid eid of
           Inl e \<Rightarrow> (cl, Inl e)
         | Inr _ \<Rightarrow>
             if interval_ms options = 0 then
               (cl, Inl (TimerInvalidTarget ''interval_ms must be > 0''))
             else
               (let n = cl_timer_seq cl + 1; timer_id = ''t_'' @ show_nat (unat n) in
                (cl\<lparr>cl_timer_seq := n, cl_timers := hm_insert timer_id () (cl_timers cl)\<rparr>,
                 Inr timer_id))))"

definition cancel_timer :: "string \<Rightarrow> 'd kevent_client \<Rightarrow> 'd kevent_client \<times> unit kevent_result" where
  "cancel_timer timer_id cl =
     (case hm_get (cl_timers cl) timer_id of
        Some _ \<Rightarrow> (cl\<lparr>cl_timers := hm_remove timer_id (cl_timers cl)\<rparr>, Inr ())
      | None \<Rightarrow> (cl, Inl (TimerNotFound timer_id)))"

section \<open>Reader handles\<close>

definition add_patterns :: "string list \<Rightarrow> event_reader \<Rightarrow> 'd kevent_client
    \<Rightarrow> event_reader \<times> 'd kevent_client \<times> unit kevent_result" where
  "add_patterns patterns er cl =
     (if patterns = [] then (er, cl, Inr ())
      else
        (case check_patterns patterns False of
           Inl e \<Rightarrow> (er, cl, Inl e)
         | Inr has_global \<Rightarrow>
             if has_global \<and> \<not> er_has_global_patterns er then
               (er, cl, Inl (NotSupported (''cannot add global patterns to a reader with no global subscriptions; ''
                  @ ''create a new reader instead'')))
             else
               (case hm_get (cl_readers cl) (er_reader_id er) of
                  None \<Rightarrow> (er, cl, Inl (ReaderClosed (er_reader_id er)))
                | Some st \<Rightarrow>
                    (let current = r_patterns st;
                         normalized = normalize_patterns (current @ patterns);
                         added = filter is_global_pattern (filter (\<lambda>p. p \<notin> set current) normalized);
                         removed = filter is_global_pattern (filter (\<lambda>p. p \<notin> set normalized) current);
                         cl = cl\<lparr>cl_readers := hm_insert (er_reader_id er)
                                (st\<lparr>r_patterns := normalized\<rparr>) (cl_readers cl)\<rparr>;
                         er = (if added \<noteq> [] \<or> removed \<noteq> []
                               then er\<lparr>er_bridge_link := map_option (\<lambda>_. True) (er_bridge_link er)\<rparr>
                               else er)
                     in (er, cl, Inr ())))))"

definition remove_patterns :: "string list \<Rightarrow> event_reader \<Rightarrow> 'd kevent_client
    \<Rightarrow> event_reader \<times> 'd kevent_client \<times> unit kevent_result" where
  "remove_patterns patterns er cl =
     (if patterns = [] then (er, cl, Inr ())
      else
        (case hm_get (cl_readers cl) (er_reader_id er) of
           None \<Rightarrow> (er, cl, Inl (ReaderClosed (er_reader_id er)))
         | Some st \<Rightarrow>
             (let nxt = filter (\<lambda>p. p \<notin> set patterns) (r_patterns st) in
              if nxt = [] then
                (er, cl, Inl (InvalidPattern ''reader must keep at least one pattern''))
              else
                (let removed = filter (\<lambda>p. p \<notin> set nxt \<and> is_global_pattern p) (r_patterns st);
                     cl = cl\<lparr>cl_readers := hm_insert (er_reader_id er) (st\<lparr>r_patterns := nxt\<rparr>)
                            (cl_readers cl)\<rparr>;
                     er = (if removed \<noteq> []
                           then er\<lparr>er_bridge_link := map_option (\<lambda>_. True) (er_bridge_link er)\<rparr>
                           else er)
                 in (er, cl, Inr ())))))"

text \<open>How one wait of \<open>pull_event\<close> ends, and the client other tasks left then.\<close>

datatype 'c pull_wake = Woken 'c | Expired 'c

definition pop_reader :: "string \<Rightarrow> 'd kevent_client \<Rightarrow> 'd kevent_client \<times> 'd event option" where
  "pop_reader reader_id cl =
     (case hm_get (cl_readers cl) reader_id of
        None \<Rightarrow> (cl, None)
      | Some st \<Rightarrow>
          (case reader_pop st of
             (st', r) \<Rightarrow> (cl\<lparr>cl_readers := hm_insert reader_id st' (cl_readers cl)\<rparr>, r)))"

fun pull_event :: "string \<Rightarrow> u64 option \<Rightarrow> 'd kevent_client pull_wake list \<Rightarrow> 'd kevent_client
    \<Rightarrow> ('d kevent_client \<times> 'd event option kevent_result) option" where
  "pull_event reader_id timeout_ms wakes cl =
     (case hm_get (cl_readers cl) reader_id of
        None \<Rightarrow> Some (cl, Inl (ReaderClosed reader_id))
      | Some _ \<Rightarrow>
          (case pop_reader reader_id cl of
             (cl', Some ev) \<Rightarrow> Some (cl', Inr (Some ev))
           | (_, None) \<Rightarrow>
               if timeout_ms = Some 0 then Some (cl, Inr None)
               else
                 (case wakes of
                    [] \<Rightarrow> None
                  | Woken cl' # ws \<Rightarrow> pull_event reader_id timeout_ms ws cl'
                  | Expired cl' # ws \<Rightarrow>
                      if timeout_ms = None then pull_event reader_id timeout_ms ws cl'
                      else
                        (case pop_reader reader_id cl' of
                           (cl'', r) \<Rightarrow> Some (cl'', Inr r)))))"

declare pull_event.simps [simp del]

definition close_reader :: "event_reader \<Rightarrow> 'd kevent_client \<Rightarrow> event_reader \<times> 'd kevent_client" where
  "close_reader er cl =
     (if er_closed er then (er, cl)
      else (er\<lparr>er_closed := True, er_bridge_link := None\<rparr>,
            cl\<lparr>cl_readers := hm_remove (er_reader_id er) (cl_readers cl)\<rparr>))"

end
