(* ===== verification/Event_Bridge_Correct.thy ===== *)
theory Event_Bridge_Correct
  imports Event_Bridge Event_Service_Correct
begin

unbundle bit_operations_syntax

text \<open>
  The transport: frames survive the wire, errors keep their kind across it, the publisher never
  sends an event twice, and the reader loop delivers what it pulled and registers the current
  pattern set before it pulls again.
\<close>

section \<open>Frames and errors\<close>

lemma u8_of_nat: "unat (of_nat n :: u8) = n mod 256"
  by (simp add: unat_of_nat)

lemma read_write_u32:
  assumes "n < 2 ^ 32"
  shows "read_u32 (write_u32 n @ rest) = Some (n, rest)"
proof -
  have "((n div 2 ^ 24 mod 256 * 256 + n div 2 ^ 16 mod 256) * 256 + n div 2 ^ 8 mod 256) * 256 + n mod 256 = n"
  proof -
    have 1: "n div 2 ^ 24 mod 256 = n div 2 ^ 24" using assms by simp
    have 2: "n div 2 ^ 24 * 256 + n div 2 ^ 16 mod 256 = n div 2 ^ 16"
      using div_mult_mod_eq [of "n div 2 ^ 16" 256] by (simp add: div_mult2_eq [symmetric])
    have 3: "n div 2 ^ 16 * 256 + n div 2 ^ 8 mod 256 = n div 2 ^ 8"
      using div_mult_mod_eq [of "n div 2 ^ 8" 256] by (simp add: div_mult2_eq [symmetric])
    have 4: "n div 2 ^ 8 * 256 + n mod 256 = n"
      using div_mult_mod_eq [of n 256] by simp
    show ?thesis unfolding 1 2 3 4 ..
  qed
  then show ?thesis by (simp only: write_u32_def append_Cons append_Nil read_u32.simps u8_of_nat)
qed

lemma read_write_frame:
  assumes "write_frame p = Inr bs"
  shows "read_frame (bs @ rest) = Inr (p, rest)"
proof -
  have p: "p \<noteq> []" "length p \<le> MAX_NATIVE_FRAME_SIZE" "bs = write_u32 (length p) @ p"
    using assms by (auto simp: write_frame_def split: if_splits)
  then have "read_u32 (bs @ rest) = Some (length p, p @ rest)"
    using read_write_u32 [of "length p" "p @ rest"] by (simp add: MAX_NATIVE_FRAME_SIZE_def)
  then show ?thesis using p by (simp add: read_frame_def)
qed

section \<open>Backoff\<close>

text \<open>The delay of the \<open>n\<close>-th attempt lies in the upper half of a band that doubles up to five
  seconds.\<close>

definition backoff_band :: "nat \<Rightarrow> nat" where
  "backoff_band n = min (200 * 2 ^ min n 5) 5000"

lemma half_jitter:
  fixes h r :: u64
  assumes "0 < unat h" and "2 * unat h < 2 ^ 64"
  shows "unat h \<le> unat (h + r mod h) \<and> unat (h + r mod h) < 2 * unat h"
proof -
  have "unat (r mod h) = unat r mod unat h" by (rule unat_mod)
  moreover have "unat r mod unat h < unat h" using assms(1) by simp
  moreover have "unat (h + r mod h) = unat h + unat (r mod h)"
    using calculation assms(2) by (simp add: unat_word_ariths)
  ultimately show ?thesis by simp
qed

lemma backoff_delay_bounds:
  "backoff_band (unat attempt) div 2 \<le> unat (backoff_delay rnd attempt)
   \<and> unat (backoff_delay rnd attempt) < backoff_band (unat attempt)"
proof -
  let ?k = "min (unat attempt) 5"
  have k: "unat (min attempt 5) = ?k"
    by (simp add: min_def word_le_nat_alt)
  have "?k \<le> 5" by simp
  then have "?k \<in> {0, 1, 2, 3, 4, 5}" by auto
  then have capped: "min (saturating_mul BACKOFF_MIN_MS (push_bit ?k 1)) BACKOFF_MAX_MS
      = of_nat (backoff_band (unat attempt))"
    and band: "backoff_band (unat attempt) \<in> {200, 400, 800, 1600, 3200, 5000}"
    by (auto simp: backoff_band_def saturating_mul_def BACKOFF_MIN_MS_def BACKOFF_MAX_MS_def min_def
        push_bit_eq_mult)
  let ?h = "of_nat (backoff_band (unat attempt)) div 2 :: u64"
  have h: "unat ?h = backoff_band (unat attempt) div 2"
    using band by auto
  have "backoff_delay rnd attempt = ?h + rnd mod ?h"
    using h band unfolding backoff_delay_def Let_def k capped by (auto simp: word_less_nat_alt)
  moreover have "0 < unat ?h" "2 * unat ?h < 2 ^ 64" "2 * unat ?h = backoff_band (unat attempt)"
    using band unfolding h by auto
  ultimately show ?thesis using half_jitter [of ?h rnd] h by simp
qed

text \<open>The counters of readers return to what they were when the task of a reader ends, however often
  it connected.\<close>

lemma gauge_balanced: "gauge_drop (fold gauge_set_connected bs (gauge_new st)) = st"
proof -
  define G where "G c = (st\<lparr>live_readers := live_readers st + 1,
    connected_readers := connected_readers st + (if c then 1 else 0)\<rparr>, c)" for c
  have "gauge_set_connected b (G c) = G b" for b c by (cases b; cases c) (simp_all add: G_def gauge_set_connected_def)
  then have "fold gauge_set_connected bs (G c) = G (last (c # bs))" for c
    by (induction bs arbitrary: c) simp_all
  moreover have "gauge_new st = G False" by (simp add: G_def gauge_new_def)
  moreover have "gauge_drop (G c) = st" for c by (simp add: G_def gauge_drop_def gauge_set_connected_def)
  ultimately show ?thesis by simp
qed

section \<open>Correctness of the transport\<close>

text \<open>C28: the wire. A frame that is written is read back whole, and what follows it stays in the
  stream; an error the daemon answers with arrives as an error of the same kind, and is a
  transport error for the client exactly when it was one for the daemon.\<close>

theorem wire_roundtrip:
  "(\<forall>p bs rest. write_frame p = Inr bs \<longrightarrow> read_frame (bs @ rest) = Inr (p, rest))
   \<and> (\<forall>e. \<exists>e'. response_to_result (err_to_response e :: 'd daemon_response) = Inl e' \<and> code e' = code e
        \<and> error_message e' = error_to_string e \<and> is_transport_error e' = is_transport_error e)"
proof (intro conjI allI impI)
  fix e
  show "\<exists>e'. response_to_result (err_to_response e :: 'd daemon_response) = Inl e' \<and> code e' = code e
      \<and> error_message e' = error_to_string e \<and> is_transport_error e' = is_transport_error e"
    by (cases e) (simp_all add: err_to_response_def response_error_def)
qed (rule read_write_frame)

theorem wire_roundtrip_witness:
  "write_frame [1, 2, 3] = Inr [0, 0, 0, 3, 1, 2, 3] \<and> read_frame [0, 0, 0, 3, 1, 2, 3, 9] = Inr ([1, 2, 3], [9])"
proof -
  have w: "write_frame [1, 2, 3] = Inr [0, 0, 0, 3, 1, 2, 3]"
    by (simp add: write_frame_def write_u32_def MAX_NATIVE_FRAME_SIZE_def)
  from wire_roundtrip [THEN conjunct1, THEN spec, THEN spec, THEN spec, THEN mp, OF w, of "[9]"] w
  show ?thesis by simp
qed

text \<open>The channel fails in a call with an error: there is no connection and the attempt to open one
  fails, or the request fails on the connection there is or on the one just opened.\<close>

definition channel_fails :: "'d net \<Rightarrow> 'd publisher_link \<Rightarrow> kevent_error \<Rightarrow> bool" where
  "channel_fails net pl e \<longleftrightarrow>
     (if pl_conn pl then net_request net = Inl e \<and> is_transport_error e
      else \<not> net_now net < pl_next_connect_at_ms pl
        \<and> (net_connect net = Inl e
           \<or> net_connect net = Inr () \<and> net_request net = Inl e \<and> is_transport_error e))"

text \<open>C14: the publisher. A call sends its event at most once, over the connection it has or one it
  opens, and never again after a failure; it succeeds only if the daemon acknowledged it, and then the
  backoff is reset. After a failure of the channel, in connecting or in the request, there is no
  connection, the failure is counted, and until the backoff time has passed further calls fail at
  once, send nothing and change nothing; the delay lies in the upper half of a band that doubles
  with every failure from 200 ms up to 5 s.\<close>

theorem publisher_at_most_once:
  assumes "link_publish net ev pl = (pl', r)"
  shows "pl_sent pl' = pl_sent pl @ (if pl_conn pl
       \<or> \<not> net_now net < pl_next_connect_at_ms pl \<and> net_connect net = Inr () then [PublishGlobal ev] else [])
    \<and> (r = Inr () \<longrightarrow> (\<exists>e. net_request net = Inr (RespOk e)) \<and> pl_conn pl' \<and> pl_attempt pl' = 0
         \<and> pl_next_connect_at_ms pl' = 0)
    \<and> (\<not> pl_conn pl \<and> net_now net < pl_next_connect_at_ms pl \<longrightarrow> pl' = pl \<and> (\<exists>m. r = Inl (DaemonUnavailable m)))
    \<and> (\<forall>e. channel_fails net pl e \<longrightarrow> r = Inl e \<and> \<not> pl_conn pl' \<and> pl_attempt pl' = pl_attempt pl + 1
          \<and> consecutive_failures (pl_stats pl') = consecutive_failures (pl_stats pl) + 1
          \<and> (\<exists>d. pl_next_connect_at_ms pl' = net_done net + d \<and> unat d < backoff_band (unat (pl_attempt pl))
               \<and> backoff_band (unat (pl_attempt pl)) div 2 \<le> unat d))"
proof -
  have u: "unit_result resp = Inr () \<longleftrightarrow> (\<exists>e. resp = RespOk e)" for resp :: "'a daemon_response"
    by (cases resp) (auto simp: unit_result_def)
  note b = backoff_delay_bounds [of "pl_attempt pl" "net_rnd net"]
  have fails: "r = Inl e \<and> \<not> pl_conn pl' \<and> pl_attempt pl' = pl_attempt pl + 1
      \<and> consecutive_failures (pl_stats pl') = consecutive_failures (pl_stats pl) + 1
      \<and> pl_next_connect_at_ms pl' = net_done net + backoff_delay (net_rnd net) (pl_attempt pl)"
    if "channel_fails net pl e" for e
    using assms that
    by (auto simp: channel_fails_def link_publish_def Let_def schedule_retry_def record_failure_def split: if_splits)
  show ?thesis
  proof (intro conjI allI impI)
    show "pl_sent pl' = pl_sent pl @ (if pl_conn pl
        \<or> \<not> net_now net < pl_next_connect_at_ms pl \<and> net_connect net = Inr () then [PublishGlobal ev] else [])"
      using assms by (auto simp: link_publish_def Let_def note_ok_def schedule_retry_def split: if_splits sum.splits)
  next
    assume "r = Inr ()"
    then show "\<exists>e. net_request net = Inr (RespOk e)" "pl_conn pl'" "pl_attempt pl' = 0" "pl_next_connect_at_ms pl' = 0"
      using assms by (auto simp: link_publish_def Let_def note_ok_def u split: if_splits sum.splits)
  next
    assume "\<not> pl_conn pl \<and> net_now net < pl_next_connect_at_ms pl"
    then show "pl' = pl" "\<exists>m. r = Inl (DaemonUnavailable m)" using assms by (auto simp: link_publish_def)
  qed (use fails b in blast)+
qed

definition demo_net :: "unit kevent_result \<Rightarrow> 'd daemon_response kevent_result \<Rightarrow> 'd net" where
  "demo_net con req = \<lparr>net_now = 1000, net_done = 1001, net_rnd = 7, net_connect = con, net_request = req\<rparr>"

theorem publisher_at_most_once_witness:
  "\<exists>pl' d. link_publish (demo_net (Inl (DaemonUnavailable ''x'')) (Inr (RespOk None))) (demo_event ''/sys/up'' [1])
      (new_publisher_link ''host'') = (pl', Inl (DaemonUnavailable ''x''))
    \<and> pl_sent pl' = [] \<and> \<not> pl_conn pl' \<and> pl_next_connect_at_ms pl' = 1001 + d \<and> 100 \<le> unat d \<and> unat d < 200"
proof -
  let ?net = "demo_net (Inl (DaemonUnavailable ''x'')) (Inr (RespOk None)) :: bytes net"
  let ?ev = "demo_event ''/sys/up'' [1]" and ?pl = "new_publisher_link ''host'' :: bytes publisher_link"
  obtain pl' r where l: "link_publish ?net ?ev ?pl = (pl', r)" by fastforce
  note p = publisher_at_most_once [OF l]
  have c: "channel_fails ?net ?pl (DaemonUnavailable ''x'')"
    by (simp add: channel_fails_def demo_net_def new_publisher_link_def)
  have f: "pl_sent ?pl = []" "\<not> pl_conn ?pl" "net_connect ?net \<noteq> Inr ()" "net_done ?net = 1001" "pl_attempt ?pl = 0"
    by (simp_all add: demo_net_def new_publisher_link_def)
  have "backoff_band 0 = 200" by (simp add: backoff_band_def)
  then show ?thesis using l p c f by auto
qed

text \<open>The event a turn's pull brought.\<close>

definition pulled :: "'d pump_turn \<Rightarrow> 'd event list" where
  "pulled t = (case and_then_result (turn_pull t) of Inr (Some ev) \<Rightarrow> [ev] | _ \<Rightarrow> [])"

lemma pump_pull_continue:
  assumes "pump_pull reader_id t st = Inr st'"
  shows "pump_delivered st' = pump_delivered st @ pulled t
    \<and> pump_sent st' = pump_sent st @ [PullEvent reader_id (Some BRIDGE_PULL_TIMEOUT_MS)]
    \<and> pump_streak st' \<le> MAX_READER_CLOSED_RETRIES
    \<and> ((\<exists>m. and_then_result (turn_pull t) = Inl (ReaderClosed m)) \<longrightarrow>
         pump_dirty st' \<and> pump_streak st' = Suc (pump_streak st))"
  using assms by (auto simp: pump_pull_def Let_def pulled_def split: sum.splits option.splits
      if_splits kevent_error.splits)

lemma pump_step_continue:
  assumes "pump_turn_step reader_id t st = Inr st'"
  shows "pump_delivered st' = pump_delivered st @ pulled t
    \<and> (if pump_dirty st \<or> turn_dirty t
       then \<exists>ps. turn_patterns t = Some ps \<and> ps \<noteq> [] \<and> pump_sent st' = pump_sent st
         @ [RegisterReader reader_id ps, PullEvent reader_id (Some BRIDGE_PULL_TIMEOUT_MS)]
       else pump_sent st' = pump_sent st @ [PullEvent reader_id (Some BRIDGE_PULL_TIMEOUT_MS)])
    \<and> pump_streak st' \<le> MAX_READER_CLOSED_RETRIES
    \<and> ((\<exists>m. and_then_result (turn_pull t) = Inl (ReaderClosed m)) \<longrightarrow>
         pump_dirty st' \<and> pump_streak st' = Suc (pump_streak st))"
  using assms pump_pull_continue
  by (auto simp: pump_turn_step_def Let_def split: if_splits option.splits list.splits sum.splits
      dest!: pump_pull_continue)

text \<open>C29: the reader loop. While the loop runs it has delivered every event its pulls brought, once
  and in order. A turn that finds the link dirty, because the patterns were edited or the daemon
  lost the reader, sends the full current pattern set before it pulls. The daemon can answer
  READER_CLOSED at most three times in a row before the loop gives the connection up.\<close>

theorem pump_reader_correct:
  assumes "pump_reader reader_id ts st = (None, st')"
  shows "pump_delivered st' = pump_delivered st @ concat (map pulled ts)
    \<and> (\<forall>t st1 st2. t \<in> set ts \<and> pump_turn_step reader_id t st1 = Inr st2 \<and> (pump_dirty st1 \<or> turn_dirty t) \<longrightarrow>
         (\<exists>ps. turn_patterns t = Some ps \<and> ps \<noteq> [] \<and> pump_sent st2 = pump_sent st1
           @ [RegisterReader reader_id ps, PullEvent reader_id (Some BRIDGE_PULL_TIMEOUT_MS)]))
    \<and> ((\<forall>t \<in> set ts. \<exists>m. and_then_result (turn_pull t) = Inl (ReaderClosed m)) \<and> ts \<noteq> [] \<longrightarrow>
         pump_streak st + length ts \<le> MAX_READER_CLOSED_RETRIES)"
proof (intro conjI allI impI)
  show "pump_delivered st' = pump_delivered st @ concat (map pulled ts)"
    using assms by (induction reader_id ts st rule: pump_reader.induct)
      (auto split: sum.splits prod.splits dest!: pump_step_continue)
next
  fix t st1 st2
  assume a: "t \<in> set ts \<and> pump_turn_step reader_id t st1 = Inr st2 \<and> (pump_dirty st1 \<or> turn_dirty t)"
  then have "pump_turn_step reader_id t st1 = Inr st2" by blast
  from pump_step_continue [OF this] a
  show "\<exists>ps. turn_patterns t = Some ps \<and> ps \<noteq> [] \<and> pump_sent st2 = pump_sent st1
      @ [RegisterReader reader_id ps, PullEvent reader_id (Some BRIDGE_PULL_TIMEOUT_MS)]" by simp
next
  assume "(\<forall>t \<in> set ts. \<exists>m. and_then_result (turn_pull t) = Inl (ReaderClosed m)) \<and> ts \<noteq> []"
  then show "pump_streak st + length ts \<le> MAX_READER_CLOSED_RETRIES"
    using assms
  proof (induction reader_id ts st rule: pump_reader.induct)
    case (2 reader_id t ts st)
    then obtain st1 where s: "pump_turn_step reader_id t st = Inr st1" "pump_reader reader_id ts st1 = (None, st')"
      by (auto split: sum.splits prod.splits)
    then have "pump_streak st1 = Suc (pump_streak st)" "pump_streak st1 \<le> MAX_READER_CLOSED_RETRIES"
      using pump_step_continue [OF s(1)] "2.prems" by auto
    then show ?case using "2.IH" [OF s(1)] s(2) "2.prems" by (cases "ts = []") auto
  qed simp
qed

definition demo_turn :: "bool \<Rightarrow> bytes daemon_response kevent_result \<Rightarrow> bytes pump_turn" where
  "demo_turn dirty pull = \<lparr>turn_stopped = False, turn_dirty = dirty, turn_patterns = Some [''/sys/**''],
     turn_register = Inr (RespOk None), turn_pull = pull, turn_patterns_after = Some [''/sys/**'']\<rparr>"

theorem pump_reader_correct_witness:
  "pump_delivered (snd (pump_reader ''r'' [demo_turn True (Inr (RespOk (Some (demo_event ''/sys/up'' [1])))),
      demo_turn False (Inr (RespErr ''READER_CLOSED'' ''gone''))]
      \<lparr>pump_dirty = False, pump_streak = 0, pump_sent = [], pump_delivered = []\<rparr>)) = [demo_event ''/sys/up'' [1]]"
proof -
  let ?ts = "[demo_turn True (Inr (RespOk (Some (demo_event ''/sys/up'' [1])))),
      demo_turn False (Inr (RespErr ''READER_CLOSED'' ''gone''))]"
  let ?st = "\<lparr>pump_dirty = False, pump_streak = 0, pump_sent = [], pump_delivered = []\<rparr> :: bytes pump_state"
  obtain ex st' where p: "pump_reader ''r'' ?ts ?st = (ex, st')" by fastforce
  then have "ex = None"
    by (simp add: pump_turn_step_def demo_turn_def pump_pull_def and_then_result_def response_error_def
        MAX_READER_CLOSED_RETRIES_def)
  from pump_reader_correct [OF p [unfolded this]] show ?thesis
    unfolding p by (simp add: pulled_def demo_turn_def and_then_result_def)
qed

end
