(* ===== verification/Event_Client_Correct.thy ===== *)
theory Event_Client_Correct
  imports Event_Client Event_Ring_Correct Event_Service_Correct Event_Bridge_Correct
begin

text \<open>
  What the client library promises: an event published by one process over shared memory reaches
  the matching readers of that process and of every other process exactly once; how pattern edits
  change what a reader receives; that reader ids do not repeat; and what becomes of an event the
  daemon refuses.
\<close>

section \<open>One event over the shared ring\<close>

lemma publish_all_one: "publish_all now pub [p] region = fst (publish_payload now pub p region)"
  by (simp add: publish_all_def)

text \<open>A consumer that has read everything, and then one more payload is published by another
  process.\<close>

lemma caught_up_pending:
  assumes rep: "region_rep region H" and i: "pub_ring_id pub < MAX_RINGS"
    and ready: "ready region (pub_ring_id pub)" and np: "\<not> pub_poisoned pub" and ok: "payload_ok p"
    and bound: "Suc (length (H (pub_ring_id pub))) < 2 ^ 64"
    and cur: "hm_get (cursors inner) (pub_ring_id pub) = Some c"
      "cur_generation c = generation (directory region ! pub_ring_id pub)"
    and other: "con_ring_id inner \<noteq> pub_ring_id pub" and cok: "cursors_ok {..<MAX_RINGS} inner region"
    and none: "\<forall>j < MAX_RINGS. pending region inner H j = []"
  shows "concat (map (pending (fst (publish_payload now pub p region)) inner
    (H(pub_ring_id pub := H (pub_ring_id pub) @ [p]))) [0..<MAX_RINGS]) = [p]"
proof -
  let ?i = "pub_ring_id pub" and ?H = "H(pub_ring_id pub := H (pub_ring_id pub) @ [p])"
  have b: "length (H ?i) + length [p] < 2 ^ 64" and l: "list_all payload_ok [p]" using bound ok by simp_all
  note q = pending_publish_all [OF rep i ready l np b cur other, of now, unfolded publish_all_one]
  have "drop (oldest_available (length (H ?i)) (cursor_pos c)) (H ?i) = []"
    using none i ready other cur by (auto simp: pending_def start_cursor_same)
  then have "length (H ?i) \<le> cursor_pos c"
    by (cases "H ?i") (auto simp: oldest_available_def RING_CAPACITY_def)
  moreover have "cursor_pos c \<le> length (H ?i)"
  proof -
    have "ring_rep (rings region ! ?i) (H ?i)" using rep i ready by (simp add: region_rep_def)
    moreover have "read_seq c \<le> head_seq (rings region ! ?i)" using cok cur i by (simp add: cursors_ok_def)
    ultimately show ?thesis by (simp add: ring_rep_def word_le_nat_alt)
  qed
  ultimately have "drop (oldest_available (length (H ?i @ [p])) (cursor_pos c)) (H ?i @ [p]) = [p]"
    by (simp add: oldest_available_def RING_CAPACITY_def max.absorb1)
  then have at: "pending (fst (publish_payload now pub p region)) inner ?H ?i = [p]" using q [of ?i] by simp
  show ?thesis
    using concat_map_single [of "[0..<MAX_RINGS]" ?i "pending (fst (publish_payload now pub p region)) inner ?H"]
      at q none i by simp
qed

text \<open>The publisher itself sees nothing new.\<close>

lemma own_pending:
  assumes "con_ring_id inner = pub_ring_id pub" and "\<forall>j < MAX_RINGS. pending region inner H j = []"
    and "j < MAX_RINGS"
  shows "pending (fst (publish_payload now pub p region)) inner (H(pub_ring_id pub := H (pub_ring_id pub) @ [p])) j = []"
  using assms publish_all_other_ring [of j pub now "[p]" region, unfolded publish_all_one]
  by (cases "j = pub_ring_id pub") (auto simp: pending_def)

lemma drain_events_eq:
  assumes "region_rep region H" and "cursors_ok {..<MAX_RINGS} inner region" and "\<not> con_poisoned inner"
  shows "snd (snd (drain_events from_slice now n inner region))
    = List.map_filter from_slice (take n (concat (map (pending region inner H) [0..<MAX_RINGS])))"
  using drain_payloads_eq(1) [OF assms, of now n] by (auto simp: drain_events_def split: prod.splits)

lemma import_shared_events_eq:
  assumes "cl_transport cl = SharedMemory ring"
    and "snd (snd (drain_events (c_from_slice env) (c_now env) n (consume ring) (cl_region cl))) = evs"
  shows "snd (import_shared_events env n cl) = length evs"
    and "cl_readers (fst (import_shared_events env n cl))
      = fold (\<lambda>ev rs. if is_global_eventid (eventid ev) then deliver_all ev rs else rs) evs (cl_readers cl)"
proof -
  have "cl_readers (fold import_step evs cl) =
      fold (\<lambda>ev rs. if is_global_eventid (eventid ev) then deliver_all ev rs else rs) evs (cl_readers cl)"
    for cl :: "'a kevent_client"
    by (induction evs arbitrary: cl) (simp_all add: import_step_def dispatch_event_def)
  then show "cl_readers (fst (import_shared_events env n cl))
      = fold (\<lambda>ev rs. if is_global_eventid (eventid ev) then deliver_all ev rs else rs) evs (cl_readers cl)"
    using assms by (auto simp: import_shared_events_def shared_ring_def Let_def split: prod.splits)
  show "snd (import_shared_events env n cl) = length evs"
    using assms by (auto simp: import_shared_events_def shared_ring_def Let_def split: prod.splits)
qed

text \<open>A client of the shared region that has imported everything published so far.\<close>

definition caught_up :: "shared_region \<Rightarrow> (nat \<Rightarrow> bytes list) \<Rightarrow> shared_ring_buffer \<Rightarrow> bool" where
  "caught_up region H ring \<longleftrightarrow> con_ring_id (consume ring) = pub_ring_id (publish ring)
     \<and> pub_ring_id (publish ring) < MAX_RINGS \<and> ready region (pub_ring_id (publish ring))
     \<and> \<not> pub_poisoned (publish ring) \<and> \<not> con_poisoned (consume ring)
     \<and> cursors_ok {..<MAX_RINGS} (consume ring) region
     \<and> (\<forall>j < MAX_RINGS. pending region (consume ring) H j = [])"

text \<open>C13: exactly once between processes. Two Full-mode processes share the region and have read
  all of it; the second knows the first's ring. The first publishes a global event that is valid
  and fits a slot. Each matching reader of the first process gets the event once, at
  publication; each matching reader of the second gets it once, at its next import; and the first
  process's own import does not bring the event back.\<close>

theorem shared_memory_exactly_once:
  assumes rep: "region_rep region H" and A: "cl_transport clA = SharedMemory ringA" "cl_mode clA = Full" "cl_region clA = region"
    and B: "cl_transport clB = SharedMemory ringB"
    and upA: "caught_up region H ringA" and upB: "caught_up region H ringB"
    and dist: "pub_ring_id (publish ringA) \<noteq> pub_ring_id (publish ringB)"
    and cur: "hm_get (cursors (consume ringB)) (pub_ring_id (publish ringA)) = Some c"
      "cur_generation c = generation (directory region ! pub_ring_id (publish ringA))"
    and bound: "Suc (length (H (pub_ring_id (publish ringA)))) < 2 ^ 64"
    and valid: "validate_eventid eid = Inr ()" "is_global_eventid eid" "validate_event_data_size (c_to_vec_data env) d = Inr ()"
    and codec: "c_to_vec_event env (client_event env eid d clA) = Inr bs" "c_from_slice env bs = Some (client_event env eid d clA)"
    and size: "payload_ok bs"
    and pub: "pub_event env eid d clA = (clA', r)" and n: "0 < n"
  shows "r = Inr () \<and> cl_readers clA' = deliver_all (client_event env eid d clA) (cl_readers clA)
    \<and> cl_readers (fst (import_shared_events env n (clB\<lparr>cl_region := cl_region clA'\<rparr>)))
        = deliver_all (client_event env eid d clA) (cl_readers clB)
    \<and> snd (import_shared_events env n (clB\<lparr>cl_region := cl_region clA'\<rparr>)) = 1
    \<and> cl_readers (fst (import_shared_events env n clA')) = cl_readers clA'
    \<and> snd (import_shared_events env n clA') = 0"
proof -
  let ?ev = "client_event env eid d clA" and ?i = "pub_ring_id (publish ringA)"
  let ?region' = "fst (publish_payload (c_now env) (publish ringA) bs region)" and ?H = "H(?i := H ?i @ [bs])"
  have upA': "?i < MAX_RINGS" "ready region ?i" "\<not> pub_poisoned (publish ringA)" using upA by (simp_all add: caught_up_def)
  have clA': "clA' = clA\<lparr>cl_readers := deliver_all ?ev (cl_readers clA), cl_region := ?region'\<rparr> \<and> r = Inr ()"
  proof -
    obtain region' where "publish_payload (c_now env) (publish ringA) bs region = (region', Inr ())"
      using publish_payload_rings(2) [OF size upA'(3), of "c_now env" region]
      by (cases "publish_payload (c_now env) (publish ringA) bs region") simp
    then show ?thesis
      using pub A valid codec(1) size
      by (simp add: pub_event_def Let_def is_daemon_bridge_def publish_global_best_effort_def
          dispatch_event_def payload_ok_def)
  qed
  have rep': "region_rep ?region' ?H"
    by (rule region_rep_publish [OF rep upA'(1,2) size upA'(3) bound])
  have cok: "cursors_ok {..<MAX_RINGS} (consume ring) ?region'" if "caught_up region H ring" for ring
    using cursors_ok_publish_all [OF rep upA'(1,2) _ upA'(3), of "[bs]" "consume ring" "c_now env"] that size bound
    by (simp add: publish_all_one caught_up_def)
  have pB: "concat (map (pending ?region' (consume ringB) ?H) [0..<MAX_RINGS]) = [bs]"
    using caught_up_pending [OF rep upA' size bound cur, of "c_now env"] dist upB by (auto simp: caught_up_def)
  have pA: "concat (map (pending ?region' (consume ringA) ?H) [0..<MAX_RINGS]) = []"
    using own_pending [of "consume ringA" "publish ringA" region H] upA by (auto simp: caught_up_def)
  have evB: "snd (snd (drain_events (c_from_slice env) (c_now env) n (consume ringB) ?region')) = [?ev]"
    using drain_events_eq [OF rep' cok [OF upB], where from_slice = "c_from_slice env" and n = n] pB codec(2) n upB
    by (cases n) (simp_all add: caught_up_def List.map_filter_simps)
  have evA: "snd (snd (drain_events (c_from_slice env) (c_now env) n (consume ringA) ?region')) = []"
    using drain_events_eq [OF rep' cok [OF upA], where from_slice = "c_from_slice env" and n = n] pA upA
    by (simp add: caught_up_def List.map_filter_simps)
  have g: "is_global_eventid (eventid ?ev)" using valid(2) by (simp add: client_event_def)
  show ?thesis
    using import_shared_events_eq [of "clB\<lparr>cl_region := cl_region clA'\<rparr>" ringB env n "[?ev]"]
      import_shared_events_eq [of clA' ringA env n "[]"] evA evB clA' A B g by simp
qed

definition demo_ring :: "nat \<Rightarrow> shared_ring_buffer" where
  "demo_ring i = \<lparr>publish = publisher i, consume = fst (prime_cursors 0 (fresh_consumer i) two_rings)\<rparr>"

lemma demo_ring_caught_up:
  assumes "i = 0 \<or> i = 1"
  shows "caught_up two_rings (\<lambda>_. []) (demo_ring i)"
proof -
  have i: "i < MAX_RINGS" using assms by (auto simp: MAX_RINGS_def)
  have np: "\<not> con_poisoned (fresh_consumer i)" "cursors (fresh_consumer i) = []" "con_ring_id (fresh_consumer i) = i"
    by (simp_all add: fresh_consumer_def)
  show ?thesis
    using i assms np two_rings_entry [OF i] cursors_ok_prime [OF np(1) fresh_consumer_ok]
      pending_primed [OF two_rings_rep np(1,2)]
    by (simp add: caught_up_def demo_ring_def publisher_def prime_cursors_frame)
qed

definition demo_client :: "nat \<Rightarrow> bytes kevent_client" where
  "demo_client i = build ''node_a'' Full (SharedMemory (demo_ring i)) 8 ''0000abcd'' two_rings"

definition demo_cenv :: "bytes client_env" where
  "demo_cenv = \<lparr>c_to_vec_event = (\<lambda>ev. Inr (data ev)), c_to_vec_data = Inr,
     c_from_slice = (\<lambda>bs. Some \<lparr>eventid = ''/sys/up'', source_node = ''node_a'', source_pid = 7,
        ingress_node = Some ''node_a'', timestamp = 5, data = bs\<rparr>),
     c_now = 5, c_pid = 7, c_net = demo_net (Inr ()) (Inr (RespOk None)), c_bridge = (\<lambda>_. Inr ())\<rparr>"

theorem shared_memory_exactly_once_witness:
  "snd (import_shared_events demo_cenv 4 ((demo_client 1)
     \<lparr>cl_region := cl_region (fst (pub_event demo_cenv ''/sys/up'' [9] (demo_client 0)))\<rparr>)) = 1
   \<and> snd (import_shared_events demo_cenv 4 (fst (pub_event demo_cenv ''/sys/up'' [9] (demo_client 0)))) = 0"
proof -
  have A: "cl_transport (demo_client 0) = SharedMemory (demo_ring 0)" "cl_mode (demo_client 0) = Full"
      "cl_region (demo_client 0) = two_rings" and B: "cl_transport (demo_client 1) = SharedMemory (demo_ring 1)"
    by (simp_all add: demo_client_def build_def)
  have v: "validate_eventid ''/sys/up'' = Inr ()" "is_global_eventid ''/sys/up''" by code_simp+
  have sz: "validate_event_data_size (c_to_vec_data demo_cenv) [9] = Inr ()"
    by (simp add: validate_event_data_size_def demo_cenv_def MAX_EVENT_DATA_SIZE_BYTES_def)
  have codec: "c_to_vec_event demo_cenv (client_event demo_cenv ''/sys/up'' [9] (demo_client 0)) = Inr [9]"
      "c_from_slice demo_cenv [9] = Some (client_event demo_cenv ''/sys/up'' [9] (demo_client 0))"
    using v(2) by (simp_all add: demo_cenv_def client_event_def demo_client_def build_def)
  have ids: "pub_ring_id (publish (demo_ring 0)) = 0" "pub_ring_id (publish (demo_ring 1)) = 1"
    by (simp_all add: demo_ring_def publisher_def)
  have r0: "ready two_rings 0" "(0::nat) < MAX_RINGS" using two_rings_entry [of 0] by (simp_all add: MAX_RINGS_def)
  have "\<exists>c. hm_get (cursors (consume (demo_ring 1))) 0 = Some c \<and> cur_generation c = generation (directory two_rings ! 0)"
    using r0 by (simp add: demo_ring_def prime_cursors_frame fresh_consumer_def)
  then obtain c where c: "hm_get (cursors (consume (demo_ring 1))) (pub_ring_id (publish (demo_ring 0))) = Some c"
      "cur_generation c = generation (directory two_rings ! pub_ring_id (publish (demo_ring 0)))"
    unfolding ids by blast
  have p: "payload_ok [9]" by (simp add: payload_ok_def SLOT_DATA_SIZE_def)
  obtain cl' r where pub: "pub_event demo_cenv ''/sys/up'' [9] (demo_client 0) = (cl', r)" by fastforce
  from shared_memory_exactly_once [OF two_rings_rep A B demo_ring_caught_up demo_ring_caught_up _ c _ v sz codec p pub, of 4]
  show ?thesis unfolding pub fst_conv using ids by simp
qed

section \<open>Readers of a client\<close>

lemma match_event_patterns_append:
  "match_event_patterns (ps @ qs) eid \<longleftrightarrow> match_event_patterns ps eid \<or> match_event_patterns qs eid"
  by (induction ps) auto

text \<open>Pattern edits. A successful \<open>add_patterns\<close> keeps the events the reader has queued and
  every other reader; from then on the reader takes the events it took before and those the new
  patterns select, no others. The link to the daemon is left clean only where the reader's global
  patterns are the ones the daemon already has.\<close>

theorem add_patterns_correct:
  assumes "hm_get (cl_readers cl) (er_reader_id er) = Some st"
    and "add_patterns patterns er cl = (er', cl', Inr ())"
  shows "\<exists>st'. hm_get (cl_readers cl') (er_reader_id er) = Some st' \<and> r_queue st' = r_queue st
    \<and> (\<forall>eid. match_event_patterns (r_patterns st') eid
          \<longleftrightarrow> match_event_patterns (r_patterns st) eid \<or> match_event_patterns patterns eid)
    \<and> (er_bridge_link er' = Some False \<longrightarrow> er_bridge_link er = Some False
          \<and> {p \<in> set (r_patterns st'). is_global_pattern p} = {p \<in> set (r_patterns st). is_global_pattern p})
    \<and> (\<forall>k. k \<noteq> er_reader_id er \<longrightarrow> hm_get (cl_readers cl') k = hm_get (cl_readers cl) k)"
proof (cases "patterns = []")
  case True
  then show ?thesis using assms by (auto simp: add_patterns_def)
next
  case False
  let ?n = "normalize_patterns (r_patterns st @ patterns)"
  obtain g where g: "check_patterns patterns False = Inr g" "\<not> (g \<and> \<not> er_has_global_patterns er)"
    using assms(2) False by (auto simp: add_patterns_def split: sum.splits if_splits)
  have cl': "cl' = cl\<lparr>cl_readers := hm_insert (er_reader_id er) (st\<lparr>r_patterns := ?n\<rparr>) (cl_readers cl)\<rparr>"
    and er': "er_bridge_link er' = Some False \<longrightarrow> er_bridge_link er = Some False
      \<and> {p \<in> set ?n. is_global_pattern p} = {p \<in> set (r_patterns st). is_global_pattern p}"
    using assms g False by (auto simp: add_patterns_def Let_def filter_empty_conv split: if_splits)
  show ?thesis
    using er' by (intro exI [of _ "st\<lparr>r_patterns := ?n\<rparr>"])
      (simp add: cl' hm_simps match_normalize_patterns match_event_patterns_append)
qed

text \<open>The reader is subscribed to one subtree and has an event queued; a second subtree is added
  while its link to the daemon is clean.\<close>

definition demo_handle :: event_reader where
  "demo_handle = \<lparr>er_reader_id = ''r_1'', er_has_global_patterns = True, er_bridge_link = Some False, er_closed = False\<rparr>"

definition demo_reading :: "bytes kevent_client" where
  "demo_reading = (demo_client 0)\<lparr>cl_readers := [(''r_1'', (reader_new [''/sys/**''] 8)\<lparr>r_queue := [demo_event ''/sys/up'' [1]]\<rparr>)]\<rparr>"

theorem add_patterns_correct_witness:
  "\<exists>er' cl' st'. add_patterns [''/app/**''] demo_handle demo_reading = (er', cl', Inr ())
     \<and> hm_get (cl_readers cl') ''r_1'' = Some st' \<and> r_queue st' = [demo_event ''/sys/up'' [1]]
     \<and> match_event_patterns (r_patterns st') ''/app/x'' \<and> match_event_patterns (r_patterns st') ''/sys/up''
     \<and> er_bridge_link er' = Some True"
proof -
  let ?st = "(reader_new [''/sys/**''] 8)\<lparr>r_queue := [demo_event ''/sys/up'' [1]]\<rparr> :: bytes reader_state"
  have st: "hm_get (cl_readers demo_reading) (er_reader_id demo_handle) = Some ?st"
    by (simp add: demo_reading_def demo_handle_def hm_get_def)
  have c: "check_patterns [''/app/**''] False = Inr True" by code_simp
  have n: "normalize_patterns ([''/sys/**''] @ [''/app/**'']) = [''/sys/**'', ''/app/**'']"
    "is_global_pattern ''/app/**''" by code_simp+
  obtain er' cl' where e: "add_patterns [''/app/**''] demo_handle demo_reading = (er', cl', Inr ())"
    and l: "er_bridge_link er' = Some True"
    using st c n by (auto simp: add_patterns_def Let_def reader_new_def demo_handle_def)
  have m: "match_event_patterns [''/sys/**''] ''/sys/up''" "match_event_patterns [''/app/**''] ''/app/x''"
    by code_simp+
  from add_patterns_correct [OF st e] e l m show ?thesis
    by (auto simp: demo_handle_def reader_new_def simp del: match_event_patterns.simps)
qed

section \<open>An event the daemon refuses\<close>

text \<open>C30: a lost event between two components. A client publishes over the daemon bridge an event
  whose data is within the 64 KiB both sides allow, and the daemon, which mirrors events into a
  shared ring, refuses it because its encoding does not fit a slot. The refusal reaches the client
  as an internal error, which the client takes for a broken channel: \<open>pub_event\<close> reports success,
  while no reader of the daemon and none of the client has received the event.\<close>

theorem refused_event_reported_published:
  assumes cl: "cl_transport cl = DaemonBridge link" "pl_conn link" "cl_mode cl = Full"
    and valid: "validate_eventid eid = Inr ()" "is_global_eventid eid" "validate_event_data_size (c_to_vec_data env) d = Inr ()"
    and ev: "ev = client_event env eid d cl"
    and denv: "to_vec_data denv = c_to_vec_data env"
    and ring: "svc_shared_ring svc = Some ring" "to_vec_event denv (ingressed svc ev) = Inr bs" "length bs > SLOT_DATA_SIZE"
    and daemon: "handle_protocol_request_in denv session wakes (PublishGlobal ev) svc = Some (svc', resp)"
    and net: "net_request (c_net env) = Inr resp"
  shows "svc' = svc \<and> snd (pub_event env eid d cl) = Inr ()
    \<and> cl_readers (fst (pub_event env eid d cl)) = cl_readers cl"
proof -
  have "check_global_event denv ''daemon only accepts global eventid'' (eventid ev) (data ev) = Inr ()"
    using valid denv by (simp add: check_global_event_def ev client_event_def)
  then have "accept_external_global denv ev svc = (svc, Inl (Internal (''payload too large: ''
      @ show_nat (length bs) @ '' > '' @ show_nat SLOT_DATA_SIZE)))"
    using ring by (rule accept_large_event)
  then have svc': "svc' = svc" and resp: "\<exists>m. resp = RespErr ''INTERNAL'' m"
    using daemon by (auto simp: unit_response_def err_to_response_def)
  then obtain m where r: "unit_result resp = Inl (Internal m)"
    by (auto simp: unit_result_def response_error_def)
  have "link_publish (c_net env) ev link
      = (note_ok (c_net env) (link\<lparr>pl_sent := pl_sent link @ [PublishGlobal ev]\<rparr>), Inl (Internal m))"
    using cl net r by (simp add: link_publish_def Let_def)
  then show ?thesis
    using svc' cl valid
    by (simp add: pub_event_def Let_def ev [symmetric] is_daemon_bridge_def publish_global_best_effort_def)
qed

theorem refused_event_reported_published_witness:
  "\<exists>d. length d \<le> MAX_EVENT_DATA_SIZE_BYTES \<and> (\<exists>env link resp.
     handle_protocol_request_in demo_env 1 [] (PublishGlobal (client_event env ''/sys/up'' d
       (build ''node_a'' Full (DaemonBridge link) 8 ''0000abcd'' zero_region)))
       (set_shared_ring \<lparr>pub_ring_id = 0, pub_poisoned = False\<rparr> demo_svc)
       = Some (set_shared_ring \<lparr>pub_ring_id = 0, pub_poisoned = False\<rparr> demo_svc, resp)
     \<and> net_request (c_net env) = Inr resp
     \<and> snd (pub_event env ''/sys/up'' d (build ''node_a'' Full (DaemonBridge link) 8 ''0000abcd'' zero_region)) = Inr ())"
proof -
  obtain d :: bytes where d: "length d = 3000" using Ex_list_of_length by blast
  let ?svc = "set_shared_ring \<lparr>pub_ring_id = 0, pub_poisoned = False\<rparr> demo_svc"
  let ?link = "(new_publisher_link ''127.0.0.1:3183'')\<lparr>pl_conn := True\<rparr> :: bytes publisher_link"
  let ?cl = "build ''node_a'' Full (DaemonBridge ?link) 8 ''0000abcd'' zero_region"
  let ?ev = "client_event demo_cenv ''/sys/up'' d ?cl"
  obtain svc' resp where h: "handle_protocol_request_in demo_env 1 [] (PublishGlobal ?ev) ?svc = Some (svc', resp)"
    by (cases "accept_external_global demo_env ?ev ?svc") simp
  let ?env = "demo_cenv\<lparr>c_net := demo_net (Inr ()) (Inr resp)\<rparr>"
  have ev: "client_event ?env ''/sys/up'' d ?cl = ?ev" by (simp add: client_event_def)
  have v: "validate_eventid ''/sys/up'' = Inr ()" "is_global_eventid ''/sys/up''" by code_simp+
  have sz: "validate_event_data_size (c_to_vec_data ?env) d = Inr ()"
    using d by (simp add: validate_event_data_size_def demo_cenv_def MAX_EVENT_DATA_SIZE_BYTES_def)
  have enc: "to_vec_event demo_env (ingressed ?svc ?ev) = Inr d" "to_vec_data demo_env = c_to_vec_data ?env"
    by (simp_all add: demo_env_def ingressed_def client_event_def demo_cenv_def)
  have cl: "cl_transport ?cl = DaemonBridge ?link" "pl_conn ?link" "cl_mode ?cl = Full" by (simp_all add: build_def)
  have r: "svc_shared_ring ?svc = Some \<lparr>pub_ring_id = 0, pub_poisoned = False\<rparr>" "length d > SLOT_DATA_SIZE"
    "net_request (c_net ?env) = Inr resp"
    using d by (simp_all add: set_shared_ring_def SLOT_DATA_SIZE_def demo_net_def)
  from refused_event_reported_published [OF cl v sz ev [symmetric] enc(2) r(1) enc(1) r(2) h r(3)]
  show ?thesis using h r(3) d ev by (intro exI [of _ d] conjI exI [of _ ?env] exI [of _ ?link] exI [of _ resp])
      (simp_all add: MAX_EVENT_DATA_SIZE_BYTES_def del: handle_protocol_request_in.simps)
qed

end
