(* ===== verification/Scheduler.thy ===== *)
theory Scheduler
  imports Complex_Main Prelude
begin

text \<open>
  The service scheduler of \<open>scheduler/src/scheduler.rs\<close>: services, nodes, instances, the node
  review, the placement of instances with its shadow ledger, and the service information it
  publishes. The clock is read through \<open>sched_clock\<close>: the time a new instance of a service on a
  node is stamped with, and the time of the service information. Floating-point numbers are
  rationals; every operation on \<open>f64\<close> is followed by the rounding \<open>rd\<close>, a parameter. The 32-bit
  floats of the GPU ratings are only compared.
\<close>

section \<open>Data\<close>

datatype service_spec_type = Kernel | Service | App | Agent

definition spec_type_from :: "string \<Rightarrow> service_spec_type" where
  "spec_type_from s =
     (if s = ''kernel'' then Kernel
      else if s = ''service'' then Service
      else if s = ''frame'' then Service
      else if s = ''agent'' then Agent
      else if s = ''app'' then App
      else App)"

fun is_app_like :: "service_spec_type \<Rightarrow> bool" where
  "is_app_like App = True"
| "is_app_like Agent = True"
| "is_app_like _ = False"

datatype service_spec_state =
  SpecNew | SpecDeployed | SpecDeployFailed | SpecAbnormal | SpecDisable | SpecDeleted

fun spec_state_display :: "service_spec_state \<Rightarrow> string" where
  "spec_state_display SpecNew = ''New''"
| "spec_state_display SpecDeployed = ''Deployed''"
| "spec_state_display SpecDeployFailed = ''DeployFailed''"
| "spec_state_display SpecAbnormal = ''Abnormal''"
| "spec_state_display SpecDisable = ''Disable''"
| "spec_state_display SpecDeleted = ''Deleted''"

definition spec_state_from :: "string \<Rightarrow> service_spec_state" where
  "spec_state_from s =
     (if s = ''New'' then SpecNew
      else if s = ''Deployed'' then SpecDeployed
      else if s = ''DeployFailed'' then SpecDeployFailed
      else if s = ''Abnormal'' then SpecAbnormal
      else if s = ''Unavailable'' then SpecDisable
      else if s = ''Deleted'' then SpecDeleted
      else SpecDisable)"

text \<open>\<open>ServiceState\<close> of \<open>buckyos_api\<close>, the state of a service in the configuration.\<close>

datatype service_state =
  SvcNew | SvcRunning | SvcStopped | SvcStopping | SvcRestarting | SvcUpdating | SvcDeleted

fun spec_state_of_config :: "service_state \<Rightarrow> service_spec_state" where
  "spec_state_of_config SvcNew = SpecNew"
| "spec_state_of_config SvcRunning = SpecDeployed"
| "spec_state_of_config SvcStopped = SpecDisable"
| "spec_state_of_config SvcStopping = SpecDisable"
| "spec_state_of_config SvcRestarting = SpecAbnormal"
| "spec_state_of_config SvcUpdating = SpecAbnormal"
| "spec_state_of_config SvcDeleted = SpecDeleted"

fun to_config_state :: "service_spec_state \<Rightarrow> (string, service_state) result" where
  "to_config_state SpecNew = Inr SvcNew"
| "to_config_state SpecDeployed = Inr SvcRunning"
| "to_config_state SpecDisable = Inr SvcStopped"
| "to_config_state SpecDeleted = Inr SvcDeleted"
| "to_config_state st = Inl (''cannot persist scheduler-only service state ''
     @ spec_state_display st @ '' to config'')"

datatype instance_state = InstPrepare | InstRunning | InstSuspended | InstDeleted

text \<open>\<open>to_lowercase\<close> on the ASCII letters; no other character has a lower case form among the letters
  of the four names.\<close>

definition to_lowercase :: "string \<Rightarrow> string" where
  "to_lowercase s = map (\<lambda>c. if 65 \<le> (of_char c :: nat) \<and> (of_char c :: nat) \<le> 90
     then char_of ((of_char c :: nat) + 32) else c) s"

definition instance_state_from :: "string \<Rightarrow> instance_state" where
  "instance_state_from s =
     (let s = to_lowercase s in
      if s = ''prepare'' then InstPrepare
      else if s = ''running'' then InstRunning
      else if s = ''suspended'' then InstSuspended
      else if s = ''deleted'' then InstDeleted
      else InstPrepare)"

fun instance_state_to_string :: "instance_state \<Rightarrow> string" where
  "instance_state_to_string InstPrepare = ''prepare''"
| "instance_state_to_string InstRunning = ''running''"
| "instance_state_to_string InstSuspended = ''suspended''"
| "instance_state_to_string InstDeleted = ''deleted''"

datatype user_type = Admin | OrdinaryUser | Limited

definition user_type_from :: "string \<Rightarrow> user_type" where
  "user_type_from s =
     (if s = ''admin'' then Admin
      else if s = ''user'' then OrdinaryUser
      else if s = ''limited'' then Limited
      else OrdinaryUser)"

record user_item =
  userid :: string
  user_type :: user_type
  res_pool_id :: "string option"

record service_spec =
  sp_id :: string
  sp_app_id :: string
  sp_app_index :: u16
  sp_owner_id :: string
  sp_type :: service_spec_type
  sp_state :: service_spec_state
  best_instance_count :: u32
  need_container :: bool
  required_cpu_mhz :: u32
  required_memory :: u64
  required_gpu_tflops :: rat
  required_gpu_mem :: u64
  node_affinity :: "string option"
  network_affinity :: "string option"
  service_ports_config :: "(string, u16) hmap"

datatype op_task_body = NodeInitBaseService

datatype op_task_state = TaskNew | TaskRunning | TaskDone | TaskFailed

record op_task =
  task_id :: string
  creator_id :: "string option"
  task_body :: op_task_body
  create_time :: u64
  create_step_id :: u64
  max_timeout_sec :: u64
  task_status :: op_task_state
  start_time :: u64

record node_resource =
  total_capacity :: u64
  used_capacity :: u64

datatype node_type = OOD | Server | Desktop | Mobile | Sensor | IoTController | UnknownClient string

definition node_type_from :: "string \<Rightarrow> node_type" where
  "node_type_from s =
     (if s = ''ood'' then OOD
      else if s = ''server'' then Server
      else if s = ''desktop'' then Desktop
      else if s = ''mobile'' then Mobile
      else if s = ''sensor'' then Sensor
      else if s = ''controller'' then IoTController
      else UnknownClient s)"

datatype node_state =
  NodeNew | NodePrepare | NodeReady | NodeAbnormal | NodeUnavailable | NodeRemoving | NodeDeleted

fun node_state_display :: "node_state \<Rightarrow> string" where
  "node_state_display NodeNew = ''New''"
| "node_state_display NodePrepare = ''Prepare''"
| "node_state_display NodeReady = ''Ready''"
| "node_state_display NodeAbnormal = ''Abnormal''"
| "node_state_display NodeUnavailable = ''Unavailable''"
| "node_state_display NodeRemoving = ''Removing''"
| "node_state_display NodeDeleted = ''Deleted''"

definition node_state_from :: "string \<Rightarrow> node_state" where
  "node_state_from s =
     (if s = ''New'' then NodeNew
      else if s = ''Prepare'' then NodePrepare
      else if s = ''Ready'' then NodeReady
      else if s = ''Abnormal'' then NodeAbnormal
      else if s = ''Unavailable'' then NodeUnavailable
      else if s = ''Removing'' then NodeRemoving
      else if s = ''Deleted'' then NodeDeleted
      else NodeNew)"

record node_item =
  nd_id :: string
  nd_type :: node_type
  labels :: "string list"
  network_zone :: string
  support_container :: bool
  nd_state :: node_state
  available_cpu_mhz :: u32
  total_cpu_mhz :: u32
  available_memory :: u64
  total_memory :: u64
  available_gpu_memory :: u64
  total_gpu_memory :: u64
  gpu_tflops :: rat
  resources :: "(string, node_resource) hmap"
  op_tasks :: "op_task list"

record replica_instance =
  ri_node_id :: string
  ri_spec_id :: string
  res_limits :: "(string, rat) hmap"
  ri_instance_id :: string
  last_update_time :: u64
  ri_state :: instance_state
  service_ports :: "(string, u16) hmap"

definition is_app_instance :: "replica_instance \<Rightarrow> bool" where
  "is_app_instance ri = (CHR ''@'' \<in> set (ri_spec_id ri))"

datatype service_info =
    SingleInstance replica_instance
  | RandomCluster "(string, u32 \<times> replica_instance) hmap"

datatype scheduler_action =
    ChangeNodeStatus string node_state
  | CreateOPTask op_task
  | ChangeServiceStatus string service_spec_state
  | InstanceReplica replica_instance
  | UpdateInstance string replica_instance
  | RemoveInstance string string string
  | UpdateServiceInfo string service_info

text \<open>The derived \<open>PartialEq\<close> instances: field by field, the maps as maps.\<close>

definition replica_instance_eq :: "replica_instance \<Rightarrow> replica_instance \<Rightarrow> bool" where
  "replica_instance_eq a b \<longleftrightarrow> ri_node_id a = ri_node_id b \<and> ri_spec_id a = ri_spec_id b
     \<and> hm_eq (=) (res_limits a) (res_limits b) \<and> ri_instance_id a = ri_instance_id b
     \<and> last_update_time a = last_update_time b \<and> ri_state a = ri_state b
     \<and> hm_eq (=) (service_ports a) (service_ports b)"

fun service_info_eq :: "service_info \<Rightarrow> service_info \<Rightarrow> bool" where
  "service_info_eq (SingleInstance a) (SingleInstance b) = replica_instance_eq a b"
| "service_info_eq (RandomCluster m) (RandomCluster m') =
     hm_eq (\<lambda>(w, a) (w', b). w = w' \<and> replica_instance_eq a b) m m'"
| "service_info_eq _ _ = False"

definition service_spec_eq :: "service_spec \<Rightarrow> service_spec \<Rightarrow> bool" where
  "service_spec_eq a b \<longleftrightarrow> a\<lparr>service_ports_config := []\<rparr> = b\<lparr>service_ports_config := []\<rparr>
     \<and> hm_eq (=) (service_ports_config a) (service_ports_config b)"

definition node_item_eq :: "node_item \<Rightarrow> node_item \<Rightarrow> bool" where
  "node_item_eq a b \<longleftrightarrow> a\<lparr>resources := []\<rparr> = b\<lparr>resources := []\<rparr>
     \<and> hm_eq (=) (resources a) (resources b)"

section \<open>Identifiers\<close>

definition parse_instance_id :: "string \<Rightarrow> (string, string \<times> string \<times> string) result" where
  "parse_instance_id instance_id =
     (case split_on CHR ''@'' instance_id of
        [a, b, c] \<Rightarrow> Inr (a, b, c)
      | [a, b] \<Rightarrow> Inr (a, ''root'', b)
      | _ \<Rightarrow> Inl (''Invalid instance_id format: '' @ instance_id))"

definition parse_spec_id :: "string \<Rightarrow> (string, string \<times> string) result" where
  "parse_spec_id spec_id =
     (case split_on CHR ''@'' spec_id of
        [a, b] \<Rightarrow> Inr (a, b)
      | _ \<Rightarrow> Inr (spec_id, ''root''))"

definition create_replica_instance_id :: "service_spec \<Rightarrow> string \<Rightarrow> string" where
  "create_replica_instance_id spec node_id = sp_id spec @ ''@'' @ node_id"

section \<open>The scheduler\<close>

definition SMALL_SYSTEM_NODE_COUNT :: nat where "SMALL_SYSTEM_NODE_COUNT = 7"
definition INSTANCE_ALIVE_TIME :: u64 where "INSTANCE_ALIVE_TIME = 90"
definition SERVICE_INFO_REFRESH_INTERVAL :: u64 where "SERVICE_INFO_REFRESH_INTERVAL = 30"
definition BASE_APP_PORT :: u16 where "BASE_APP_PORT = 10000"

record node_scheduler =
  schedule_step_id :: u64
  users :: "(string, user_item) hmap"
  default_user_id :: string
  nodes :: "(string, node_item) hmap"
  specs :: "(string, service_spec) hmap"
  replica_instances :: "(string, replica_instance) hmap"
  service_infos :: "(string, service_info) hmap"
  service_info_refresh_times :: "(string, u64) hmap"
  schedule_time :: u64

record sched_clock =
  created_at :: "string \<Rightarrow> string \<Rightarrow> u64"
  now_calc :: u64

definition new_empty :: "u64 \<Rightarrow> u64 \<Rightarrow> node_scheduler" where
  "new_empty now step_id = \<lparr>schedule_step_id = step_id, users = [], default_user_id = [],
     nodes = [], specs = [], replica_instances = [], service_infos = [],
     service_info_refresh_times = [], schedule_time = now\<rparr>"

definition add_user :: "user_item \<Rightarrow> node_scheduler \<Rightarrow> node_scheduler" where
  "add_user user s =
     (let s = (if default_user_id s = [] then s\<lparr>default_user_id := userid user\<rparr> else s)
      in s\<lparr>users := hm_insert (userid user) user (users s)\<rparr>)"

definition add_node :: "node_item \<Rightarrow> node_scheduler \<Rightarrow> node_scheduler" where
  "add_node node s = s\<lparr>nodes := hm_insert (nd_id node) node (nodes s)\<rparr>"

definition add_service_spec :: "service_spec \<Rightarrow> node_scheduler \<Rightarrow> node_scheduler" where
  "add_service_spec spec s = s\<lparr>specs := hm_insert (sp_id spec) spec (specs s)\<rparr>"

definition add_replica_instance :: "replica_instance \<Rightarrow> node_scheduler \<Rightarrow> node_scheduler" where
  "add_replica_instance inst s =
     s\<lparr>replica_instances := hm_insert (ri_instance_id inst) inst (replica_instances s)\<rparr>"

definition needs_snapshot_persist :: "node_scheduler option \<Rightarrow> node_scheduler \<Rightarrow> bool" where
  "needs_snapshot_persist last_snapshot s =
     (case last_snapshot of
        None \<Rightarrow> True
      | Some l \<Rightarrow> default_user_id s \<noteq> default_user_id l
          \<or> \<not> hm_eq (=) (users s) (users l)
          \<or> \<not> hm_eq node_item_eq (nodes s) (nodes l)
          \<or> \<not> hm_eq service_spec_eq (specs s) (specs l)
          \<or> \<not> hm_eq replica_instance_eq (replica_instances s) (replica_instances l)
          \<or> \<not> hm_eq service_info_eq (service_infos s) (service_infos l)
          \<or> \<not> hm_eq (=) (service_info_refresh_times s) (service_info_refresh_times l))"

section \<open>Review of the nodes\<close>

text \<open>\<open>check_node_op_tasks\<close> is empty in the source and adds no action.\<close>

definition resort_node :: "string \<Rightarrow> node_scheduler \<times> scheduler_action list
    \<Rightarrow> node_scheduler \<times> scheduler_action list" where
  "resort_node node_id = (\<lambda>(s, acts).
     case hm_get (nodes s) node_id of
       None \<Rightarrow> (s, acts)
     | Some node \<Rightarrow>
         (case nd_state node of
            NodeNew \<Rightarrow>
              (s\<lparr>nodes := hm_insert node_id (node\<lparr>nd_state := NodePrepare\<rparr>) (nodes s)\<rparr>,
               acts @ [ChangeNodeStatus (nd_id node) NodePrepare])
          | NodeRemoving \<Rightarrow>
              (s\<lparr>nodes := hm_insert node_id (node\<lparr>nd_state := NodeDeleted\<rparr>) (nodes s)\<rparr>,
               acts @ [ChangeNodeStatus (nd_id node) NodeDeleted])
          | _ \<Rightarrow> (s, acts)))"

definition resort_nodes :: "node_scheduler \<Rightarrow> node_scheduler \<times> scheduler_action list" where
  "resort_nodes s = fold resort_node (hm_keys (nodes s)) (s, [])"

section \<open>Placement\<close>

definition filter_node_for_instance :: "node_item \<Rightarrow> service_spec \<Rightarrow> bool" where
  "filter_node_for_instance node spec =
     (if nd_state node \<noteq> NodeReady then False
      else if nd_type node \<noteq> OOD \<and> nd_type node \<noteq> Server then False
      else if need_container spec \<and> \<not> support_container node then False
      else if available_cpu_mhz node < required_cpu_mhz spec
           \<or> available_memory node < required_memory spec then False
      else if available_gpu_memory node < required_gpu_mem spec
           \<or> gpu_tflops node < required_gpu_tflops spec then False
      else
        (case node_affinity spec of
           Some affinity \<Rightarrow> if affinity \<notin> set (labels node) then False else True
         | None \<Rightarrow> True))"

definition f64_of :: "(rat \<Rightarrow> rat) \<Rightarrow> 'a::len word \<Rightarrow> rat" where
  "f64_of rd w = rd (of_nat (unat w))"

definition score_node :: "(rat \<Rightarrow> rat) \<Rightarrow> node_item \<Rightarrow> service_spec \<Rightarrow> rat" where
  "score_node rd node spec =
     (let score = 0;
          score =
            (if total_cpu_mhz node > 0 then
               (let cpu_ratio = rd (rd (f64_of rd (available_cpu_mhz node) - f64_of rd (required_cpu_mhz spec))
                      / f64_of rd (total_cpu_mhz node));
                    mem_ratio = rd (rd (f64_of rd (available_memory node) - f64_of rd (required_memory spec))
                      / f64_of rd (max (total_memory node) 1))
                in rd (score + rd (rd (rd (cpu_ratio + mem_ratio) / 2) * 100)))
             else score);
          score =
            (if total_cpu_mhz node > 0 then
               (let idle_ratio = rd (f64_of rd (available_cpu_mhz node) / f64_of rd (total_cpu_mhz node))
                in rd (score + rd (idle_ratio * 50)))
             else score);
          score =
            (case network_affinity spec of
               Some affinity \<Rightarrow> if network_zone node = affinity then rd (score + 30) else score
             | None \<Rightarrow> score)
      in score)"

text \<open>\<open>app_index * 16 + BASE_APP_PORT\<close> wraps in a release build.\<close>

definition alloc_replica_instance_port :: "u16 \<Rightarrow> string \<Rightarrow> u16 option \<Rightarrow> u16" where
  "alloc_replica_instance_port app_index service_name expose_port =
     (if service_name = ''www'' then
        (if app_index = 0 then (case expose_port of Some p \<Rightarrow> p | None \<Rightarrow> 0)
         else app_index * 16 + BASE_APP_PORT)
      else (case expose_port of Some p \<Rightarrow> p | None \<Rightarrow> 0))"

definition alloc_ports :: "service_spec \<Rightarrow> (string, u16) hmap" where
  "alloc_ports spec = fold (\<lambda>(service_name, expose_port) ports.
     hm_insert service_name (alloc_replica_instance_port (sp_app_index spec) service_name (Some expose_port)) ports)
     (service_ports_config spec) []"

definition new_instance :: "sched_clock \<Rightarrow> service_spec \<Rightarrow> (string, u16) hmap \<Rightarrow> node_item \<Rightarrow> replica_instance" where
  "new_instance clock spec ports node = \<lparr>ri_node_id = nd_id node, ri_spec_id = sp_id spec, res_limits = [],
     ri_instance_id = create_replica_instance_id spec (nd_id node),
     last_update_time = created_at clock (sp_id spec) (nd_id node), ri_state = InstRunning,
     service_ports = ports\<rparr>"

definition candidate_nodes :: "service_spec \<Rightarrow> node_item list \<Rightarrow> node_item list" where
  "candidate_nodes spec node_list = filter (\<lambda>node. filter_node_for_instance node spec) node_list"

text \<open>\<open>sort_by\<close> is stable, as is \<open>sort_key\<close>.\<close>

definition select_nodes :: "(rat \<Rightarrow> rat) \<Rightarrow> service_spec \<Rightarrow> node_item list \<Rightarrow> node_item list" where
  "select_nodes rd spec candidates =
     (let scored = map (\<lambda>node. (score_node rd node spec, node)) candidates;
          instance_count = min (best_instance_count spec) (of_nat (length candidates) :: u32)
      in map snd (take (unat instance_count) (sort_key (\<lambda>(score, _). - score) scored)))"

definition create_replica_instance :: "(rat \<Rightarrow> rat) \<Rightarrow> sched_clock \<Rightarrow> service_spec \<Rightarrow> node_item list
    \<Rightarrow> (string, replica_instance list) result" where
  "create_replica_instance rd clock spec node_list =
     (let candidates = candidate_nodes spec node_list in
      if candidates = [] then Inl ''No suitable node found for service_spec''
      else Inr (map (new_instance clock spec (alloc_ports spec)) (select_nodes rd spec candidates)))"

text \<open>The shadow ledger: what an instance takes from the node it is put on.\<close>

definition take_resources :: "service_spec \<Rightarrow> node_item \<Rightarrow> node_item" where
  "take_resources spec node = node\<lparr>
     available_cpu_mhz := saturating_sub (available_cpu_mhz node) (required_cpu_mhz spec),
     available_memory := saturating_sub (available_memory node) (required_memory spec),
     available_gpu_memory := saturating_sub (available_gpu_memory node) (required_gpu_mem spec)\<rparr>"

text \<open>\<open>iter_mut().find(..)\<close>: the first node with the id.\<close>

fun update_first :: "('a \<Rightarrow> bool) \<Rightarrow> ('a \<Rightarrow> 'a) \<Rightarrow> 'a list \<Rightarrow> 'a list" where
  "update_first P f [] = []"
| "update_first P f (x # xs) = (if P x then f x # xs else x # update_first P f xs)"

definition deduct :: "service_spec \<Rightarrow> replica_instance \<Rightarrow> node_item list \<Rightarrow> node_item list" where
  "deduct spec inst shadow = update_first (\<lambda>n. nd_id n = ri_node_id inst) (take_resources spec) shadow"

definition existing_instances :: "service_spec \<Rightarrow> node_scheduler \<Rightarrow> replica_instance list" where
  "existing_instances spec s = filter (\<lambda>i. ri_spec_id i = sp_id spec \<and> ri_state i \<noteq> InstDeleted)
     (hm_values (replica_instances s))"

definition reconcile_spec_instances :: "(rat \<Rightarrow> rat) \<Rightarrow> sched_clock \<Rightarrow> service_spec \<Rightarrow> node_item list
    \<Rightarrow> node_scheduler \<Rightarrow> (string, replica_instance list \<times> node_item list) result" where
  "reconcile_spec_instances rd clock spec shadow s =
     (let existing = existing_instances spec s;
          existing_count = (of_nat (length existing) :: u32);
          desired_count = best_instance_count spec
      in if existing_count \<ge> desired_count then Inr ([], shadow)
         else
           (let existing_node_ids = map ri_node_id existing;
                available = filter (\<lambda>node. nd_id node \<notin> set existing_node_ids) shadow;
                missing_count = desired_count - existing_count;
                desired_spec = spec\<lparr>best_instance_count := missing_count\<rparr>
            in rbind (create_replica_instance rd clock desired_spec available)
                 (\<lambda>instances. Inr (instances, fold (deduct spec) instances shadow))))"

section \<open>Changes of the services\<close>

definition set_spec_state :: "string \<Rightarrow> service_spec_state \<Rightarrow> node_scheduler \<Rightarrow> node_scheduler" where
  "set_spec_state spec_id st s =
     (case hm_get (specs s) spec_id of
        Some spec \<Rightarrow> s\<lparr>specs := hm_insert spec_id (spec\<lparr>sp_state := st\<rparr>) (specs s)\<rparr>
      | None \<Rightarrow> s)"

text \<open>One turn of each of the loops over instances: removal, and suspension.\<close>

definition remove_instance :: "string \<Rightarrow> node_scheduler \<times> scheduler_action list
    \<Rightarrow> node_scheduler \<times> scheduler_action list" where
  "remove_instance instance_id = (\<lambda>(s, acts).
     case hm_get (replica_instances s) instance_id of
       Some inst \<Rightarrow>
         (s\<lparr>replica_instances := hm_remove instance_id (replica_instances s)\<rparr>,
          acts @ [RemoveInstance (ri_spec_id inst) (ri_instance_id inst) (ri_node_id inst)])
     | None \<Rightarrow> (s, acts))"

definition suspend_instance :: "string \<Rightarrow> node_scheduler \<times> scheduler_action list
    \<Rightarrow> node_scheduler \<times> scheduler_action list" where
  "suspend_instance instance_id = (\<lambda>(s, acts).
     case hm_get (replica_instances s) instance_id of
       Some inst \<Rightarrow>
         (let inst = inst\<lparr>ri_state := InstSuspended\<rparr> in
          (s\<lparr>replica_instances := hm_insert instance_id inst (replica_instances s)\<rparr>,
           acts @ [UpdateInstance (ri_instance_id inst) inst]))
     | None \<Rightarrow> (s, acts))"

definition instance_ids_where :: "(replica_instance \<Rightarrow> bool) \<Rightarrow> node_scheduler \<Rightarrow> string list" where
  "instance_ids_where P s = map fst (filter (\<lambda>(_, inst). P inst) (replica_instances s))"

text \<open>The body of the loop of \<open>schedule_spec_change\<close> for one service. An error ends the loop; the
  scheduler keeps what was changed up to there.\<close>

definition spec_change_step :: "(rat \<Rightarrow> rat) \<Rightarrow> sched_clock \<Rightarrow> string
    \<Rightarrow> node_scheduler \<Rightarrow> node_item list \<Rightarrow> scheduler_action list
    \<Rightarrow> (string, node_scheduler \<times> node_item list \<times> scheduler_action list) result" where
  "spec_change_step rd clock spec_id s shadow acts =
     (case hm_get (specs s) spec_id of
        None \<Rightarrow> Inr (s, shadow, acts)
      | Some spec \<Rightarrow>
          (if sp_state spec = SpecNew \<or> sp_state spec = SpecDeployed then
             rbind (reconcile_spec_instances rd clock spec shadow s) (\<lambda>(instances, shadow).
               let s = fold add_replica_instance instances s;
                   acts = acts @ map InstanceReplica instances
               in if sp_state spec = SpecNew then
                    Inr (set_spec_state spec_id SpecDeployed s, shadow,
                         acts @ [ChangeServiceStatus spec_id SpecDeployed])
                  else Inr (s, shadow, acts))
           else if sp_state spec = SpecDeleted then
             (case fold remove_instance (instance_ids_where (\<lambda>i. ri_spec_id i = spec_id) s) (s, acts) of
                (s, acts) \<Rightarrow> Inr (set_spec_state spec_id SpecDeleted s, shadow,
                  acts @ [ChangeServiceStatus spec_id SpecDeleted]))
           else if sp_state spec = SpecDisable then
             (if \<not> is_app_like (sp_type spec) then Inr (s, shadow, acts)
              else
                (case fold suspend_instance (instance_ids_where (\<lambda>i. ri_spec_id i = spec_id
                     \<and> ri_state i \<noteq> InstSuspended \<and> ri_state i \<noteq> InstDeleted) s) (s, acts) of
                   (s, acts) \<Rightarrow> Inr (s, shadow, acts)))
           else Inr (s, shadow, acts)))"

fun spec_change_loop :: "(rat \<Rightarrow> rat) \<Rightarrow> sched_clock \<Rightarrow> string list
    \<Rightarrow> node_scheduler \<Rightarrow> node_item list \<Rightarrow> scheduler_action list
    \<Rightarrow> node_scheduler \<times> (string, scheduler_action list) result" where
  "spec_change_loop rd clock [] s shadow acts = (s, Inr acts)"
| "spec_change_loop rd clock (spec_id # spec_ids) s shadow acts =
     (case spec_change_step rd clock spec_id s shadow acts of
        Inl e \<Rightarrow> (s, Inl e)
      | Inr (s', shadow', acts') \<Rightarrow> spec_change_loop rd clock spec_ids s' shadow' acts')"

definition ready_nodes :: "node_scheduler \<Rightarrow> node_item list" where
  "ready_nodes s = filter (\<lambda>node. nd_state node = NodeReady) (hm_values (nodes s))"

definition schedule_spec_change :: "(rat \<Rightarrow> rat) \<Rightarrow> sched_clock \<Rightarrow> node_scheduler
    \<Rightarrow> node_scheduler \<times> (string, scheduler_action list) result" where
  "schedule_spec_change rd clock s = spec_change_loop rd clock (hm_keys (specs s)) s (ready_nodes s) []"

definition spec_differs :: "service_spec \<Rightarrow> service_spec \<Rightarrow> bool" where
  "spec_differs spec last_spec \<longleftrightarrow> sp_state spec \<noteq> sp_state last_spec
     \<or> best_instance_count spec \<noteq> best_instance_count last_spec
     \<or> required_cpu_mhz spec \<noteq> required_cpu_mhz last_spec
     \<or> required_memory spec \<noteq> required_memory last_spec
     \<or> node_affinity spec \<noteq> node_affinity last_spec
     \<or> network_affinity spec \<noteq> network_affinity last_spec"

definition is_spec_changed :: "node_scheduler option \<Rightarrow> node_scheduler \<Rightarrow> bool" where
  "is_spec_changed last_snapshot s =
     (case last_snapshot of
        None \<Rightarrow> True
      | Some l \<Rightarrow>
          length (specs s) \<noteq> length (specs l)
          \<or> list_ex (\<lambda>(spec_id, spec). case hm_get (specs l) spec_id of
                None \<Rightarrow> True | Some last_spec \<Rightarrow> spec_differs spec last_spec) (specs s))"

section \<open>Service information\<close>

text \<open>The inverted index: the instances of each service.\<close>

definition index_instance :: "replica_instance \<Rightarrow> (string, replica_instance list) hmap
    \<Rightarrow> (string, replica_instance list) hmap" where
  "index_instance inst idx =
     (let old = (case hm_get idx (ri_spec_id inst) of Some is \<Rightarrow> is | None \<Rightarrow> [])
      in hm_insert (ri_spec_id inst) (old @ [inst]) idx)"

definition spec_instances :: "node_scheduler \<Rightarrow> (string, replica_instance list) hmap" where
  "spec_instances s = fold index_instance (hm_values (replica_instances s)) []"

text \<open>\<open>now - last_update_time\<close> wraps in a release build.\<close>

definition note_alive :: "u64 \<Rightarrow> replica_instance \<Rightarrow> (string, u32 \<times> replica_instance) hmap
    \<Rightarrow> (string, u32 \<times> replica_instance) hmap" where
  "note_alive now inst info_map =
     (if ri_state inst = InstRunning then
        (if now - last_update_time inst < INSTANCE_ALIVE_TIME
         then hm_insert (ri_instance_id inst) (100, inst) info_map else info_map)
      else info_map)"

definition calc_info :: "u64 \<Rightarrow> replica_instance list option \<Rightarrow> service_info" where
  "calc_info now instances =
     (let info_map = (case instances of Some is \<Rightarrow> fold (note_alive now) is [] | None \<Rightarrow> [])
      in case info_map of
           [(_, _, inst)] \<Rightarrow> SingleInstance inst
         | _ \<Rightarrow> RandomCluster info_map)"

definition old_refresh_time :: "node_scheduler option \<Rightarrow> string \<Rightarrow> u64" where
  "old_refresh_time last_snapshot spec_id =
     (case last_snapshot of
        None \<Rightarrow> 0
      | Some l \<Rightarrow>
          (case hm_get (service_info_refresh_times l) spec_id of
             Some t \<Rightarrow> t
           | None \<Rightarrow>
               (case hm_get (service_infos l) spec_id of
                  Some _ \<Rightarrow> schedule_time l
                | None \<Rightarrow> 0)))"

definition calc_service_info :: "u64 \<Rightarrow> node_scheduler option
    \<Rightarrow> (string, replica_instance list) hmap \<Rightarrow> string
    \<Rightarrow> node_scheduler \<times> scheduler_action list \<Rightarrow> node_scheduler \<times> scheduler_action list" where
  "calc_service_info now last_snapshot idx spec_id = (\<lambda>(s, acts).
     let new_info = calc_info now (hm_get idx spec_id);
         old_info = (case last_snapshot of None \<Rightarrow> None | Some l \<Rightarrow> hm_get (service_infos l) spec_id);
         old_time = old_refresh_time last_snapshot spec_id;
         set_time = (\<lambda>t s. s\<lparr>service_info_refresh_times := hm_insert spec_id t (service_info_refresh_times s)\<rparr>);
         set_info = (\<lambda>i s. s\<lparr>service_infos := hm_insert spec_id i (service_infos s)\<rparr>)
     in case old_info of
          None \<Rightarrow>
            (set_info new_info (set_time now s), acts @ [UpdateServiceInfo spec_id new_info])
        | Some old \<Rightarrow>
            if \<not> service_info_eq old new_info then
              (if saturating_sub now old_time < SERVICE_INFO_REFRESH_INTERVAL then
                 (set_time old_time (set_info old s), acts)
               else (set_info new_info (set_time now s), acts @ [UpdateServiceInfo spec_id new_info]))
            else (set_info new_info (set_time old_time s), acts))"

definition calc_service_infos :: "u64 \<Rightarrow> node_scheduler option \<Rightarrow> node_scheduler
    \<Rightarrow> node_scheduler \<times> scheduler_action list" where
  "calc_service_infos now last_snapshot s =
     fold (calc_service_info now last_snapshot (spec_instances s)) (hm_keys (specs s)) (s, [])"

section \<open>A round\<close>

definition schedule :: "(rat \<Rightarrow> rat) \<Rightarrow> sched_clock \<Rightarrow> node_scheduler option \<Rightarrow> node_scheduler
    \<Rightarrow> node_scheduler \<times> (string, scheduler_action list) result" where
  "schedule rd clock last_snapshot s =
     (if nodes s = [] then (s, Inl ''No nodes found'')
      else
        (let is_small_system = length (nodes s) \<le> SMALL_SYSTEM_NODE_COUNT in
         case resort_nodes s of
           (s, actions) \<Rightarrow>
             if actions \<noteq> [] \<and> is_small_system then (s, Inr actions)
             else
               (case (if is_spec_changed last_snapshot s then schedule_spec_change rd clock s else (s, Inr [])) of
                  (s, Inl e) \<Rightarrow> (s, Inl e)
                | (s, Inr spec_actions) \<Rightarrow>
                    (case calc_service_infos (now_calc clock) last_snapshot s of
                       (s, info_actions) \<Rightarrow> (s, Inr (actions @ spec_actions @ info_actions))))))"

end
