(* ===== verification/Scheduler_Lemmas.thy ===== *)
theory Scheduler_Lemmas
  imports Scheduler "HOL-Library.Multiset"
begin

text \<open>
  The library behind the scheduler's properties: what the map operations do to the list of
  instances of one service, the ledger of a resource as an interface with its accounting law, the
  choice of nodes, and what one turn of the placement loop does and leaves alone.
\<close>

section \<open>Maps as lists\<close>

lemma hm_insert_existing:
  assumes "hm_wf m" and "k \<in> set (hm_keys m)"
  shows "hm_insert k v m = map (\<lambda>(k', v'). (k', if k' = k then v else v')) m"
  using assms
proof (induction m)
  case (Cons p m)
  have "map (\<lambda>(k', v'). (k', if k' = k then v else v')) m = m" if "k \<notin> set (hm_keys m)"
    using that by (intro map_idI) (auto simp: hm_keys_def image_iff)
  then show ?case using Cons by (cases p) (auto simp: hm_insert_def hm_wf_def hm_keys_def)
qed (simp add: hm_keys_def)

lemma hm_keys_insert: "set (hm_keys (hm_insert k v m)) = insert k (set (hm_keys m))"
  by (induction m) (auto simp: hm_insert_def hm_keys_def)

lemma filter_values_insert:
  assumes "\<not> P v" and "\<And>v'. hm_get m k = Some v' \<Longrightarrow> \<not> P v'"
  shows "filter P (hm_values (hm_insert k v m)) = filter P (hm_values m)"
  using assms by (induction m) (auto simp: hm_insert_def hm_values_def hm_get_def split: if_splits)

lemma set_values_insert:
  assumes "hm_wf m"
  shows "set (hm_insert k v m) = insert (k, v) {e \<in> set m. fst e \<noteq> k}"
  using assms by (induction m) (auto simp: hm_insert_def hm_wf_def image_iff)

lemma hm_remove_filter: "hm_remove k m = filter (\<lambda>(k', _). k' \<noteq> k) m"
  by (simp add: hm_remove_def AList.delete_eq eq_commute)

section \<open>The ledger of a resource\<close>

primrec all_fit :: "('n \<Rightarrow> 's \<Rightarrow> bool) \<Rightarrow> ('s \<Rightarrow> 'n \<Rightarrow> 'n) \<Rightarrow> 'n \<Rightarrow> 's list \<Rightarrow> bool" where
  "all_fit fits take_from n [] = True"
| "all_fit fits take_from n (sp # sps) = (fits n sp \<and> all_fit fits take_from (take_from sp n) sps)"

lemma all_fit_snoc:
  "all_fit fits take_from n (sps @ [sp]) \<longleftrightarrow> all_fit fits take_from n sps \<and> fits (fold take_from sps n) sp"
  by (induction sps arbitrary: n) auto

text \<open>A resource of which a node has some and a service needs some; what fits is available, and
  taking it leaves the rest.\<close>

locale resource_ledger =
  fixes avail :: "'n \<Rightarrow> nat"
    and need :: "'s \<Rightarrow> nat"
    and take_from :: "'s \<Rightarrow> 'n \<Rightarrow> 'n"
    and fits :: "'n \<Rightarrow> 's \<Rightarrow> bool"
  assumes fits_need: "fits n sp \<Longrightarrow> need sp \<le> avail n"
    and avail_take: "avail (take_from sp n) = avail n - need sp"
begin

lemma ledger_balance:
  assumes "all_fit fits take_from n sps"
  shows "sum_list (map need sps) + avail (fold take_from sps n) = avail n"
  using assms
proof (induction sps arbitrary: n)
  case (Cons sp sps)
  then have "sum_list (map need sps) + avail (fold take_from sps (take_from sp n)) = avail n - need sp"
    by (simp add: avail_take)
  moreover have "need sp \<le> avail n" using Cons.prems fits_need by simp
  ultimately show ?case by simp
qed simp

lemma ledger_bound: "all_fit fits take_from n sps \<Longrightarrow> sum_list (map need sps) \<le> avail n"
  using ledger_balance by (metis le_add1)

lemma avail_decreases: "avail (fold take_from sps n) \<le> avail n"
proof (induction sps arbitrary: n)
  case (Cons sp sps)
  show ?case using Cons [of "take_from sp n"] by (simp add: avail_take)
qed simp

end

abbreviation node_fits :: "node_item \<Rightarrow> service_spec \<Rightarrow> bool" where
  "node_fits \<equiv> filter_node_for_instance"

lemma node_fits_iff:
  "node_fits node spec \<longleftrightarrow> nd_state node = NodeReady \<and> (nd_type node = OOD \<or> nd_type node = Server)
     \<and> (need_container spec \<longrightarrow> support_container node)
     \<and> required_cpu_mhz spec \<le> available_cpu_mhz node \<and> required_memory spec \<le> available_memory node
     \<and> required_gpu_mem spec \<le> available_gpu_memory node \<and> required_gpu_tflops spec \<le> gpu_tflops node
     \<and> (\<forall>affinity. node_affinity spec = Some affinity \<longrightarrow> affinity \<in> set (labels node))"
  by (auto simp: filter_node_for_instance_def not_less split: option.splits)

text \<open>What makes a node suitable for a service, as a specification of the filter.\<close>

definition suitable :: "node_item \<Rightarrow> service_spec \<Rightarrow> bool" where
  "suitable node spec \<longleftrightarrow> nd_state node = NodeReady \<and> nd_type node \<in> {OOD, Server}
     \<and> (need_container spec \<longrightarrow> support_container node)
     \<and> unat (required_cpu_mhz spec) \<le> unat (available_cpu_mhz node)
     \<and> unat (required_memory spec) \<le> unat (available_memory node)
     \<and> unat (required_gpu_mem spec) \<le> unat (available_gpu_memory node)
     \<and> required_gpu_tflops spec \<le> gpu_tflops node
     \<and> (case node_affinity spec of None \<Rightarrow> True | Some label \<Rightarrow> label \<in> set (labels node))"

lemma node_fits_suitable: "node_fits node spec = suitable node spec"
  by (auto simp: node_fits_iff suitable_def word_le_nat_alt split: option.splits)

interpretation cpu: resource_ledger "\<lambda>n. unat (available_cpu_mhz n)" "\<lambda>sp. unat (required_cpu_mhz sp)"
    take_resources node_fits
  by unfold_locales (auto simp: node_fits_iff word_le_nat_alt take_resources_def unat_saturating_sub)

interpretation mem: resource_ledger "\<lambda>n. unat (available_memory n)" "\<lambda>sp. unat (required_memory sp)"
    take_resources node_fits
  by unfold_locales (auto simp: node_fits_iff word_le_nat_alt take_resources_def unat_saturating_sub)

interpretation gpu: resource_ledger "\<lambda>n. unat (available_gpu_memory n)" "\<lambda>sp. unat (required_gpu_mem sp)"
    take_resources node_fits
  by unfold_locales (auto simp: node_fits_iff word_le_nat_alt take_resources_def unat_saturating_sub)

text \<open>Nothing but the three resources changes.\<close>

lemma take_resources_frame [simp]:
  "nd_id (take_resources sp n) = nd_id n" "nd_state (take_resources sp n) = nd_state n"
  "nd_type (take_resources sp n) = nd_type n" "support_container (take_resources sp n) = support_container n"
  "labels (take_resources sp n) = labels n" "gpu_tflops (take_resources sp n) = gpu_tflops n"
  by (simp_all add: take_resources_def)

lemma fold_take_frame [simp]:
  "nd_id (fold take_resources sps n) = nd_id n" "nd_state (fold take_resources sps n) = nd_state n"
  "nd_type (fold take_resources sps n) = nd_type n"
  "support_container (fold take_resources sps n) = support_container n"
  "labels (fold take_resources sps n) = labels n" "gpu_tflops (fold take_resources sps n) = gpu_tflops n"
  by (induction sps arbitrary: n) simp_all

lemma fits_before:
  assumes "node_fits (fold take_resources sps n) sp"
  shows "node_fits n sp"
  using assms cpu.avail_decreases [of sps n] mem.avail_decreases [of sps n] gpu.avail_decreases [of sps n]
  by (auto simp: node_fits_iff word_le_nat_alt)

lemma all_fit_fits:
  assumes "all_fit node_fits take_resources n sps" and "sp \<in> set sps"
  shows "node_fits n sp"
  using assms
proof (induction sps arbitrary: n)
  case (Cons sp' sps)
  show ?case
  proof (cases "sp = sp'")
    case False
    then have "node_fits (fold take_resources [sp'] n) sp" using Cons by simp
    then show ?thesis by (rule fits_before)
  qed (use Cons.prems in simp)
qed simp

text \<open>The number of instances wanted, and the state of the service, do not matter for a node.\<close>

lemma fits_cong [simp]:
  "node_fits n (sp\<lparr>best_instance_count := c\<rparr>) = node_fits n sp" "node_fits n (sp\<lparr>sp_state := st\<rparr>) = node_fits n sp"
  by (simp_all add: node_fits_iff)

lemma take_cong [simp]:
  "take_resources (sp\<lparr>best_instance_count := c\<rparr>) = take_resources sp" "take_resources (sp\<lparr>sp_state := st\<rparr>) = take_resources sp"
  by (simp_all add: take_resources_def fun_eq_iff)

section \<open>The choice of nodes\<close>

lemma mset_sorted_nodes:
  "mset (map snd (sort_key (\<lambda>(score, _). - score) (map (\<lambda>node. (score_node rd node spec, node)) cs))) = mset cs"
  by (simp add: multiset.map_comp comp_def)

lemma select_nodes_prefix:
  "select_nodes rd spec cs = take (unat (min (best_instance_count spec) (of_nat (length cs) :: u32)))
     (map snd (sort_key (\<lambda>(score, _). - score) (map (\<lambda>node. (score_node rd node spec, node)) cs)))"
  by (simp add: select_nodes_def Let_def take_map)

lemma select_nodes_subset: "set (select_nodes rd spec cs) \<subseteq> set cs"
  unfolding select_nodes_prefix mset_sorted_nodes [of rd spec cs, THEN mset_eq_setD, symmetric]
  by (rule set_take_subset)

lemma select_nodes_distinct:
  assumes "distinct (map nd_id cs)"
  shows "distinct (map nd_id (select_nodes rd spec cs))"
proof -
  let ?xs = "map snd (sort_key (\<lambda>(score, _). - score) (map (\<lambda>node. (score_node rd node spec, node)) cs))"
  have "mset (map nd_id ?xs) = mset (map nd_id cs)"
    unfolding mset_map [of nd_id] mset_sorted_nodes ..
  from mset_eq_imp_distinct_iff [OF this] have "distinct (map nd_id ?xs)" using assms by simp
  then show ?thesis unfolding select_nodes_prefix take_map [symmetric] by (rule distinct_take)
qed

lemma length_select_nodes:
  assumes "length cs < 2 ^ 32"
  shows "length (select_nodes rd spec cs) = min (unat (best_instance_count spec)) (length cs)"
proof -
  have "unat (of_nat (length cs) :: u32) = length cs" using assms unat_of_nat_small [where 'a = 32] by simp
  then show ?thesis by (simp add: select_nodes_prefix min_def word_le_nat_alt)
qed

lemma select_nodes_best:
  assumes "n \<in> set (select_nodes rd spec cs)" and "m \<in> set cs" and "m \<notin> set (select_nodes rd spec cs)"
  shows "score_node rd m spec \<le> score_node rd n spec"
proof -
  let ?f = "\<lambda>(score, _ :: node_item). - score"
  let ?ys = "sort_key ?f (map (\<lambda>node. (score_node rd node spec, node)) cs)"
  let ?k = "unat (min (best_instance_count spec) (of_nat (length cs) :: u32))"
  have sel: "select_nodes rd spec cs = map snd (take ?k ?ys)" by (simp add: select_nodes_def Let_def)
  obtain y where y: "y \<in> set (take ?k ?ys)" "snd y = n" using assms(1) sel by auto
  have yn: "y = (score_node rd n spec, n)" using in_set_takeD [OF y(1)] y(2) by auto
  have "(score_node rd m spec, m) \<in> set (take ?k ?ys) \<union> set (drop ?k ?ys)"
    unfolding set_append [symmetric] append_take_drop_id using assms(2) by auto
  moreover have "(score_node rd m spec, m) \<notin> set (take ?k ?ys)" using assms(3) sel by force
  ultimately have z: "(score_node rd m spec, m) \<in> set (drop ?k ?ys)" by blast
  have "sorted (map ?f (take ?k ?ys @ drop ?k ?ys))" by simp
  then have "\<forall>a \<in> set (take ?k ?ys). \<forall>b \<in> set (drop ?k ?ys). ?f a \<le> ?f b"
    unfolding map_append sorted_append by auto
  then have "?f (score_node rd n spec, n) \<le> ?f (score_node rd m spec, m)" using y(1) z yn by blast
  then show ?thesis by simp
qed

lemma candidate_nodes_cong [simp]: "candidate_nodes (sp\<lparr>best_instance_count := c\<rparr>) ns = candidate_nodes sp ns"
  by (simp add: candidate_nodes_def)

lemma score_node_cong [simp]: "score_node rd n (sp\<lparr>best_instance_count := c\<rparr>) = score_node rd n sp"
  unfolding score_node_def by simp

lemma new_instance_fields [simp]:
  "ri_node_id (new_instance clock sp ports n) = nd_id n" "ri_spec_id (new_instance clock sp ports n) = sp_id sp"
  "ri_instance_id (new_instance clock sp ports n) = sp_id sp @ ''@'' @ nd_id n"
  "ri_state (new_instance clock sp ports n) = InstRunning"
  by (simp_all add: new_instance_def create_replica_instance_id_def)

section \<open>Reconciling one service\<close>

lemma update_first_distinct:
  assumes "distinct (map g xs)"
  shows "update_first (\<lambda>x. g x = k) f xs = map (\<lambda>x. if g x = k then f x else x) xs"
  using assms
proof (induction xs)
  case (Cons x xs)
  have "map (\<lambda>y. if g y = k then f y else y) xs = xs" if "g x = k"
    using that Cons.prems by (intro map_idI) (auto simp: image_iff)
  then show ?case using Cons by auto
qed simp

lemma fold_deduct:
  assumes "distinct (map nd_id shadow)" and "distinct (map ri_node_id insts)"
  shows "fold (deduct spec) insts shadow
    = map (\<lambda>n. if nd_id n \<in> set (map ri_node_id insts) then take_resources spec n else n) shadow"
  using assms
proof (induction insts arbitrary: shadow)
  case (Cons i insts)
  let ?sh = "map (\<lambda>n. if nd_id n = ri_node_id i then take_resources spec n else n) shadow"
  have ids: "map nd_id ?sh = map nd_id shadow" by auto
  have "fold (deduct spec) (i # insts) shadow = fold (deduct spec) insts ?sh"
    using Cons.prems(1) update_first_distinct [of nd_id shadow] by (simp add: deduct_def)
  also have "\<dots> = map (\<lambda>n. if nd_id n \<in> set (map ri_node_id insts) then take_resources spec n else n) ?sh"
    using Cons.prems(2) by (intro Cons.IH) (simp_all only: ids Cons.prems(1) list.map distinct.simps)
  finally show ?case using Cons.prems(2) by auto
qed simp

text \<open>The instances a service has, the deleted ones apart, and the nodes it may still be put on: the
  suitable ones without such an instance.\<close>

definition live_instances :: "service_spec \<Rightarrow> node_scheduler \<Rightarrow> replica_instance list" where
  "live_instances spec s = filter (\<lambda>i. ri_spec_id i = sp_id spec \<and> ri_state i \<noteq> InstDeleted)
     (hm_values (replica_instances s))"

lemma existing_live: "existing_instances spec s = live_instances spec s"
  by (simp add: existing_instances_def live_instances_def)

definition open_nodes :: "service_spec \<Rightarrow> node_scheduler \<Rightarrow> node_item list \<Rightarrow> node_item list" where
  "open_nodes spec s shadow =
     filter (\<lambda>n. suitable n spec \<and> nd_id n \<notin> set (map ri_node_id (live_instances spec s))) shadow"

lemma open_nodes_candidates:
  "candidate_nodes spec (filter (\<lambda>n. nd_id n \<notin> set (map ri_node_id (existing_instances spec s))) shadow)
     = open_nodes spec s shadow"
  by (simp add: open_nodes_def candidate_nodes_def existing_live node_fits_suitable conj_commute)

lemma open_nodes_distinct: "distinct (map nd_id shadow) \<Longrightarrow> distinct (map nd_id (open_nodes spec s shadow))"
  unfolding open_nodes_def by (intro distinct_map_filter)

lemma open_nodes_iff:
  "n \<in> set (open_nodes spec s shadow) \<longleftrightarrow> n \<in> set shadow \<and> node_fits n spec
     \<and> (\<forall>i \<in> set (existing_instances spec s). ri_node_id i \<noteq> nd_id n)"
  by (auto simp: open_nodes_def existing_live node_fits_suitable image_iff)

definition missing :: "service_spec \<Rightarrow> node_scheduler \<Rightarrow> u32" where
  "missing spec s = best_instance_count spec - of_nat (length (existing_instances spec s))"

definition satisfied :: "service_spec \<Rightarrow> node_scheduler \<Rightarrow> bool" where
  "satisfied spec s \<longleftrightarrow> best_instance_count spec \<le> of_nat (length (existing_instances spec s))"

lemma reconcile_eq:
  "reconcile_spec_instances rd clock spec shadow s =
     (if satisfied spec s then Inr ([], shadow)
      else if open_nodes spec s shadow = [] then Inl ''No suitable node found for service_spec''
      else let insts = map (new_instance clock (spec\<lparr>best_instance_count := missing spec s\<rparr>) (alloc_ports spec))
             (select_nodes rd (spec\<lparr>best_instance_count := missing spec s\<rparr>) (open_nodes spec s shadow))
           in Inr (insts, fold (deduct spec) insts shadow))"
  by (simp add: reconcile_spec_instances_def Let_def satisfied_def missing_def open_nodes_candidates
      create_replica_instance_def alloc_ports_def del: set_map)

text \<open>What a successful reconciliation gives: instances of the service, each on a node of its own that
  fits and has none of them yet.\<close>

lemma reconcile_Inr:
  assumes "distinct (map nd_id shadow)" and "reconcile_spec_instances rd clock spec shadow s = Inr (insts, shadow')"
  shows "distinct (map ri_node_id insts)"
    and "\<And>i. i \<in> set insts \<Longrightarrow> ri_spec_id i = sp_id spec \<and> ri_instance_id i = sp_id spec @ ''@'' @ ri_node_id i
      \<and> ri_state i = InstRunning \<and> (\<exists>n \<in> set (open_nodes spec s shadow). nd_id n = ri_node_id i)"
    and "shadow' = map (\<lambda>n. if nd_id n \<in> set (map ri_node_id insts) then take_resources spec n else n) shadow"
proof -
  let ?sp = "spec\<lparr>best_instance_count := missing spec s\<rparr>"
  let ?sel = "select_nodes rd ?sp (open_nodes spec s shadow)"
  have cases: "insts = [] \<and> shadow' = shadow
    \<or> insts = map (new_instance clock ?sp (alloc_ports spec)) ?sel \<and> shadow' = fold (deduct spec) insts shadow"
    using assms(2) unfolding reconcile_eq Let_def by (auto split: if_splits)
  have "distinct (map nd_id ?sel)" using assms(1) by (intro select_nodes_distinct open_nodes_distinct)
  then show d: "distinct (map ri_node_id insts)" using cases by (auto simp: comp_def)
  show "ri_spec_id i = sp_id spec \<and> ri_instance_id i = sp_id spec @ ''@'' @ ri_node_id i
      \<and> ri_state i = InstRunning \<and> (\<exists>n \<in> set (open_nodes spec s shadow). nd_id n = ri_node_id i)"
    if i: "i \<in> set insts" for i
  proof -
    obtain n where n: "n \<in> set ?sel" "i = new_instance clock ?sp (alloc_ports spec) n" using cases i by auto
    then have "n \<in> set (open_nodes spec s shadow)" using select_nodes_subset by blast
    then show ?thesis using n(2) by (auto intro!: bexI [of _ n])
  qed
  show "shadow' = map (\<lambda>n. if nd_id n \<in> set (map ri_node_id insts) then take_resources spec n else n) shadow"
    using cases fold_deduct [OF assms(1) d, of spec] by (elim disjE conjE) simp_all
qed

end
