(* ===== verification/Scheduler_Steps.thy ===== *)
theory Scheduler_Steps
  imports Scheduler_Lemmas
begin

text \<open>
  Well-formed schedulers, and the steps that change the instances: adding, removing and suspending
  them, one turn of the loop over the services, and the whole loop.
\<close>

section \<open>Well-formed schedulers\<close>

text \<open>The maps are keyed by the ids of what they hold, an instance id is the service id and the node
  id with an \<open>@\<close> between, and node ids contain no \<open>@\<close>.\<close>

definition nodes_wf :: "(string, node_item) hmap \<Rightarrow> bool" where
  "nodes_wf m \<longleftrightarrow> hm_wf m \<and> (\<forall>(k, n) \<in> set m. nd_id n = k \<and> CHR ''@'' \<notin> set k)"

definition specs_wf :: "(string, service_spec) hmap \<Rightarrow> bool" where
  "specs_wf m \<longleftrightarrow> hm_wf m \<and> (\<forall>(k, sp) \<in> set m. sp_id sp = k)"

definition inst_ok :: "replica_instance \<Rightarrow> bool" where
  "inst_ok i \<longleftrightarrow> ri_instance_id i = ri_spec_id i @ ''@'' @ ri_node_id i \<and> CHR ''@'' \<notin> set (ri_node_id i)"

definition insts_wf :: "(string, replica_instance) hmap \<Rightarrow> bool" where
  "insts_wf m \<longleftrightarrow> hm_wf m \<and> (\<forall>(k, i) \<in> set m. ri_instance_id i = k \<and> inst_ok i)"

definition sched_wf :: "node_scheduler \<Rightarrow> bool" where
  "sched_wf s \<longleftrightarrow> nodes_wf (nodes s) \<and> specs_wf (specs s) \<and> insts_wf (replica_instances s)"

lemma instance_id_inj:
  assumes "sp @ ''@'' @ n = sp' @ ''@'' @ n'" and "CHR ''@'' \<notin> set n" and "CHR ''@'' \<notin> set n'"
  shows "sp = sp' \<and> n = n'"
proof -
  have eq: "rev n @ CHR ''@'' # rev sp = rev n' @ CHR ''@'' # rev sp'"
    using arg_cong [OF assms(1), of rev] by simp
  have "takeWhile (\<lambda>c. c \<noteq> CHR ''@'') (rev m @ CHR ''@'' # q) = rev m" if "CHR ''@'' \<notin> set m" for m q
    using that by (subst takeWhile_append2) auto
  from this [OF assms(2), of "rev sp"] this [OF assms(3), of "rev sp'"] have "rev n = rev n'"
    unfolding eq by simp
  then show ?thesis using eq by simp
qed

lemma same_instance_id:
  assumes "inst_ok i" and "inst_ok j" and "ri_instance_id i = ri_instance_id j"
  shows "ri_spec_id i = ri_spec_id j \<and> ri_node_id i = ri_node_id j"
  using assms instance_id_inj [of "ri_spec_id i" "ri_node_id i" "ri_spec_id j" "ri_node_id j"]
  unfolding inst_ok_def by metis

lemma insts_wf_get: "insts_wf m \<Longrightarrow> hm_get m k = Some i \<Longrightarrow> ri_instance_id i = k \<and> inst_ok i"
  unfolding insts_wf_def by (auto simp: hm_get_in_set)

lemma insts_wf_maps: "insts_wf m \<Longrightarrow> hm_wf m"
  by (simp add: insts_wf_def)

lemma insts_wf_insert:
  assumes "insts_wf m" and "inst_ok i"
  shows "insts_wf (hm_insert (ri_instance_id i) i m)"
  using assms by (auto simp: insts_wf_def hm_simps set_values_insert)

definition inst_list :: "node_scheduler \<Rightarrow> string \<Rightarrow> replica_instance list" where
  "inst_list s j = filter (\<lambda>i. ri_spec_id i = j) (hm_values (replica_instances s))"

lemma existing_inst_list: "existing_instances spec s = filter (\<lambda>i. ri_state i \<noteq> InstDeleted) (inst_list s (sp_id spec))"
  by (simp add: existing_instances_def inst_list_def conj_commute)

section \<open>Adding, removing and suspending instances\<close>

lemma add_replica_insts: "replica_instances (add_replica_instance i s) = hm_insert (ri_instance_id i) i (replica_instances s)"
  by (simp add: add_replica_instance_def)

lemma fold_add_frame [simp]:
  "nodes (fold add_replica_instance is s) = nodes s" "specs (fold add_replica_instance is s) = specs s"
  by (induction "is" arbitrary: s) (simp_all add: add_replica_instance_def)

lemma fold_add_wf:
  assumes "insts_wf (replica_instances s)" and "\<forall>i \<in> set is. inst_ok i"
  shows "insts_wf (replica_instances (fold add_replica_instance is s))"
  using assms by (induction "is" arbitrary: s) (simp_all add: add_replica_insts insts_wf_insert)

lemma fold_add_other:
  assumes "insts_wf (replica_instances s)" and "\<forall>i \<in> set is. inst_ok i \<and> ri_spec_id i = k" and "j \<noteq> k"
  shows "inst_list (fold add_replica_instance is s) j = inst_list s j"
  using assms(1,2)
proof (induction "is" arbitrary: s)
  case (Cons i "is")
  have "ri_spec_id v \<noteq> j" if "hm_get (replica_instances s) (ri_instance_id i) = Some v" for v
    using insts_wf_get [OF Cons.prems(1) that] same_instance_id [of v i] Cons.prems(2) assms(3) by auto
  then have "inst_list (add_replica_instance i s) j = inst_list s j"
    using Cons.prems(2) assms(3) by (auto simp: inst_list_def add_replica_insts intro!: filter_values_insert)
  moreover have "insts_wf (replica_instances (add_replica_instance i s))"
    using Cons.prems by (simp add: add_replica_insts insts_wf_insert)
  ultimately show ?case using Cons.IH [of "add_replica_instance i s"] Cons.prems(2) by simp
qed simp

lemma fold_add_get:
  assumes "distinct (map ri_instance_id is)" and "insts_wf (replica_instances s)" and "\<forall>i \<in> set is. inst_ok i"
  shows "hm_get (replica_instances (fold add_replica_instance is s)) k
    = (case find (\<lambda>i. ri_instance_id i = k) is of Some i \<Rightarrow> Some i | None \<Rightarrow> hm_get (replica_instances s) k)"
  using assms
proof (induction "is" arbitrary: s)
  case (Cons i "is")
  have "find (\<lambda>j. ri_instance_id j = ri_instance_id i) is = None"
    using Cons.prems(1) by (auto simp: find_None_iff image_iff)
  moreover have "insts_wf (replica_instances (add_replica_instance i s))" "hm_wf (replica_instances s)"
    using Cons.prems by (simp_all add: insts_wf_insert add_replica_insts insts_wf_maps)
  ultimately show ?case using Cons.IH [of "add_replica_instance i s"] Cons.prems
    by (auto simp: add_replica_insts hm_simps split: option.splits)
qed simp

primrec placed :: "string \<Rightarrow> scheduler_action list \<Rightarrow> string list" where
  "placed n [] = []"
| "placed n (a # as) = (case a of
     InstanceReplica i \<Rightarrow> (if ri_node_id i = n then [ri_spec_id i] else []) | _ \<Rightarrow> []) @ placed n as"

lemma placed_append [simp]: "placed n (as @ bs) = placed n as @ placed n bs"
  by (induction as) auto

text \<open>The instances of a service that the actions create.\<close>

primrec announced :: "string \<Rightarrow> scheduler_action list \<Rightarrow> replica_instance list" where
  "announced k [] = []"
| "announced k (a # as) = (case a of
     InstanceReplica i \<Rightarrow> (if ri_spec_id i = k then [i] else []) | _ \<Rightarrow> []) @ announced k as"

lemma announced_append [simp]: "announced k (as @ bs) = announced k as @ announced k bs"
  by (induction as) auto

lemma announced_new: "announced k (map InstanceReplica is) = filter (\<lambda>i. ri_spec_id i = k) is"
  by (induction "is") auto

lemma fold_remove_announced:
  "fold remove_instance ids (s, acts) = (s', acts') \<Longrightarrow> announced k acts' = announced k acts"
  by (induction ids arbitrary: s acts) (auto simp: remove_instance_def split: option.splits)

lemma fold_suspend_announced:
  "fold suspend_instance ids (s, acts) = (s', acts') \<Longrightarrow> announced k acts' = announced k acts"
  by (induction ids arbitrary: s acts) (auto simp: suspend_instance_def Let_def split: option.splits)

lemma remove_instance_eqs:
  "hm_get (replica_instances s) k = None \<Longrightarrow> remove_instance k (s, acts) = (s, acts)"
  "hm_get (replica_instances s) k = Some i \<Longrightarrow> remove_instance k (s, acts)
     = (s\<lparr>replica_instances := hm_remove k (replica_instances s)\<rparr>,
        acts @ [RemoveInstance (ri_spec_id i) (ri_instance_id i) (ri_node_id i)])"
  by (simp_all add: remove_instance_def)

lemma fold_remove_instance:
  assumes "fold remove_instance ids (s, acts) = (s', acts')"
  shows "s' = s\<lparr>replica_instances := filter (\<lambda>(k, _). k \<notin> set ids) (replica_instances s)\<rparr>
    \<and> (\<forall>n. placed n acts' = placed n acts) \<and> set acts \<subseteq> set acts'
    \<and> (hm_wf (replica_instances s) \<longrightarrow> (\<forall>k i. k \<in> set ids \<and> hm_get (replica_instances s) k = Some i
         \<longrightarrow> RemoveInstance (ri_spec_id i) (ri_instance_id i) (ri_node_id i) \<in> set acts'))"
  using assms
proof (induction ids arbitrary: s acts)
  case (Cons k ids)
  show ?case
  proof (cases "hm_get (replica_instances s) k")
    case None
    then have "filter (\<lambda>(j, _). j \<notin> set (k # ids)) (replica_instances s) = filter (\<lambda>(j, _). j \<notin> set ids) (replica_instances s)"
      by (intro filter_cong) (auto simp: hm_get_None hm_keys_def image_iff)
    then show ?thesis using Cons.IH [of s acts] Cons.prems None by (auto simp: remove_instance_eqs)
  next
    case (Some i)
    let ?s = "s\<lparr>replica_instances := hm_remove k (replica_instances s)\<rparr>"
    have f: "fold remove_instance ids (?s, acts @ [RemoveInstance (ri_spec_id i) (ri_instance_id i) (ri_node_id i)]) = (s', acts')"
      using Cons.prems Some by (simp add: remove_instance_eqs)
    have e: "filter (\<lambda>(j, _). j \<notin> set ids) (hm_remove k (replica_instances s))
        = filter (\<lambda>(j, _). j \<notin> set (k # ids)) (replica_instances s)"
      unfolding hm_remove_filter filter_filter by (rule filter_cong) auto
    have g: "hm_get (hm_remove k (replica_instances s)) j = (if j = k then None else hm_get (replica_instances s) j)"
      "hm_wf (hm_remove k (replica_instances s))" if "hm_wf (replica_instances s)" for j
      using that by (simp_all add: hm_simps)
    note ih = Cons.IH [OF f]
    have "RemoveInstance (ri_spec_id v) (ri_instance_id v) (ri_node_id v) \<in> set acts'"
      if "hm_wf (replica_instances s)" "j \<in> set (k # ids)" "hm_get (replica_instances s) j = Some v" for j v
    proof (cases "j = k")
      case True
      then show ?thesis using ih that Some by auto
    next
      case False
      then have "j \<in> set ids" "hm_get (hm_remove k (replica_instances s)) j = Some v" using that g(1) by simp_all
      then show ?thesis using ih g(2) [OF that(1)] by simp
    qed
    then show ?thesis using ih by (auto simp: e)
  qed
qed simp

lemma suspend_instance_eqs:
  "hm_get (replica_instances s) k = None \<Longrightarrow> suspend_instance k (s, acts) = (s, acts)"
  "hm_get (replica_instances s) k = Some i \<Longrightarrow> suspend_instance k (s, acts)
     = (s\<lparr>replica_instances := hm_insert k (i\<lparr>ri_state := InstSuspended\<rparr>) (replica_instances s)\<rparr>,
        acts @ [UpdateInstance (ri_instance_id i) (i\<lparr>ri_state := InstSuspended\<rparr>)])"
  by (simp_all add: suspend_instance_def Let_def)

lemma map_values_at:
  assumes "hm_wf m" and "hm_get m k = Some v"
  shows "hm_insert k (f v) m = map (\<lambda>(j, w). (j, if j = k then f w else w)) m"
proof -
  have "k \<in> set (hm_keys m)" using assms(2) hm_get_None [of m k] by auto
  then have "hm_insert k (f v) m = map (\<lambda>(j, w). (j, if j = k then f v else w)) m"
    by (rule hm_insert_existing [OF assms(1)])
  also have "\<dots> = map (\<lambda>(j, w). (j, if j = k then f w else w)) m"
    using assms by (intro map_cong) (auto simp: hm_get_in_set [symmetric])
  finally show ?thesis .
qed

definition suspended :: "replica_instance \<Rightarrow> replica_instance" where
  "suspended i = i\<lparr>ri_state := InstSuspended\<rparr>"

lemma suspended_fields [simp]:
  "ri_spec_id (suspended i) = ri_spec_id i" "ri_node_id (suspended i) = ri_node_id i"
  "ri_instance_id (suspended i) = ri_instance_id i" "ri_state (suspended i) = InstSuspended"
  "suspended (suspended i) = suspended i" "inst_ok (suspended i) = inst_ok i"
  by (simp_all add: suspended_def inst_ok_def)

lemma fold_suspend_instance:
  assumes "fold suspend_instance ids (s, acts) = (s', acts')" and "hm_wf (replica_instances s)"
  shows "s' = s\<lparr>replica_instances := map (\<lambda>(k, i). (k, if k \<in> set ids then suspended i else i)) (replica_instances s)\<rparr>
    \<and> (\<forall>n. placed n acts' = placed n acts)"
  using assms
proof (induction ids arbitrary: s acts)
  case Nil
  then show ?case by (simp add: case_prod_beta)
next
  case (Cons k ids)
  show ?case
  proof (cases "hm_get (replica_instances s) k")
    case None
    then have "map (\<lambda>(j, i). (j, if j \<in> set (k # ids) then suspended i else i)) (replica_instances s)
        = map (\<lambda>(j, i). (j, if j \<in> set ids then suspended i else i)) (replica_instances s)"
      by (intro map_cong) (auto simp: hm_get_None hm_keys_def image_iff)
    then show ?thesis using Cons.IH [of s acts] Cons.prems None by (auto simp: suspend_instance_eqs)
  next
    case (Some i)
    let ?m = "map (\<lambda>(j, w). (j, if j = k then suspended w else w)) (replica_instances s)"
    let ?s = "s\<lparr>replica_instances := ?m\<rparr>"
    have m: "hm_insert k (suspended i) (replica_instances s) = ?m" by (rule map_values_at [OF Cons.prems(2) Some])
    have f: "fold suspend_instance ids (?s, acts @ [UpdateInstance (ri_instance_id i) (suspended i)]) = (s', acts')"
      using Cons.prems Some by (simp add: suspend_instance_eqs m [symmetric] suspended_def)
    have w: "hm_wf (replica_instances ?s)" using Cons.prems(2) by (simp add: hm_wf_map_values)
    have "map (\<lambda>(j, i). (j, if j \<in> set ids then suspended i else i)) ?m
        = map (\<lambda>(j, i). (j, if j \<in> set (k # ids) then suspended i else i)) (replica_instances s)"
      by auto
    then show ?thesis using Cons.IH [OF f w] by simp
  qed
qed

section \<open>One turn of the loop\<close>

lemma set_spec_state_frame [simp]:
  "nodes (set_spec_state k st s) = nodes s" "replica_instances (set_spec_state k st s) = replica_instances s"
  "inst_list (set_spec_state k st s) j = inst_list s j"
  by (simp_all add: set_spec_state_def inst_list_def split: option.splits)

lemma set_spec_state_get:
  assumes "hm_wf (specs s)"
  shows "hm_get (specs (set_spec_state k st s)) j
    = (if j = k then map_option (\<lambda>sp. sp\<lparr>sp_state := st\<rparr>) (hm_get (specs s) j) else hm_get (specs s) j)"
  using assms by (auto simp: set_spec_state_def hm_simps split: option.splits)

lemma set_spec_state_wf: "specs_wf (specs s) \<Longrightarrow> specs_wf (specs (set_spec_state k st s))"
  by (auto simp: set_spec_state_def specs_wf_def hm_simps set_values_insert hm_get_in_set split: option.splits)

lemma specs_wf_get: "specs_wf m \<Longrightarrow> hm_get m k = Some sp \<Longrightarrow> sp_id sp = k"
  unfolding specs_wf_def by (auto simp: hm_get_in_set)

text \<open>The shadow nodes: distinct ids without \<open>@\<close>.\<close>

definition shadow_ok :: "node_item list \<Rightarrow> bool" where
  "shadow_ok shadow \<longleftrightarrow> distinct (map nd_id shadow) \<and> (\<forall>n \<in> set shadow. CHR ''@'' \<notin> set (nd_id n))"

lemma filter_insts_wf: "insts_wf m \<Longrightarrow> insts_wf (filter P m)"
  by (auto simp: insts_wf_def hm_wf_def distinct_map_filter)

lemma suspend_insts_wf:
  "insts_wf m \<Longrightarrow> insts_wf (map (\<lambda>(k, i). (k, if P i then suspended i else i)) m)"
  by (auto simp: insts_wf_def hm_wf_map_values)

lemma ids_where_iff:
  assumes "hm_wf m" and "(k, i) \<in> set m"
  shows "k \<in> set (map fst (filter (\<lambda>(_, i). P i) m)) \<longleftrightarrow> P i"
proof -
  have u: "i' = i" if "(k, i') \<in> set m" for i'
    using eq_key_imp_eq_value [OF _ that assms(2)] assms(1) by (simp add: hm_wf_def)
  show ?thesis
  proof
    assume "k \<in> set (map fst (filter (\<lambda>(_, i). P i) m))"
    then obtain i' where "(k, i') \<in> set m" "P i'" by auto
    then show "P i" using u by simp
  next
    assume "P i"
    then have "(k, i) \<in> set (filter (\<lambda>(_, i). P i) m)" using assms(2) by simp
    then show "k \<in> set (map fst (filter (\<lambda>(_, i). P i) m))" by (metis fst_conv image_eqI set_map)
  qed
qed

lemma removed_insts:
  assumes "hm_wf (replica_instances s)"
  shows "filter (\<lambda>(k, _). k \<notin> set (instance_ids_where P s)) (replica_instances s)
    = filter (\<lambda>(_, i). \<not> P i) (replica_instances s)"
  using ids_where_iff [OF assms, of _ _ P] unfolding instance_ids_where_def
  by (intro filter_cong) (auto simp del: set_map set_filter)

lemma suspended_insts:
  assumes "hm_wf (replica_instances s)"
  shows "map (\<lambda>(k, i). (k, if k \<in> set (instance_ids_where P s) then suspended i else i)) (replica_instances s)
    = map (\<lambda>(k, i). (k, if P i then suspended i else i)) (replica_instances s)"
  using ids_where_iff [OF assms, of _ _ P] unfolding instance_ids_where_def
  by (intro map_cong) (auto simp del: set_map set_filter)

lemma hm_values_filter: "hm_values (filter (\<lambda>(_, i). P i) m) = filter P (hm_values m)"
  by (induction m) (auto simp: hm_values_def)

lemma hm_values_map: "hm_values (map (\<lambda>(k, i). (k, f i)) m) = map f (hm_values m)"
  by (simp add: hm_values_def comp_def case_prod_beta)

lemma placed_new:
  assumes "distinct (map ri_node_id insts)" and "\<forall>i \<in> set insts. ri_spec_id i = k"
  shows "placed n (map InstanceReplica insts) = (if n \<in> set (map ri_node_id insts) then [k] else [])"
  using assms
proof (induction insts)
  case (Cons i insts)
  have "placed (ri_node_id i) (map InstanceReplica insts) = []" 
    using Cons.prems by (induction insts) auto
  then show ?case using Cons by auto
qed simp

text \<open>What a turn does to the ledger: a set of nodes, all of which fit, gets the service.\<close>

definition ledger_step :: "string \<Rightarrow> service_spec \<Rightarrow> node_item list \<Rightarrow> scheduler_action list
    \<Rightarrow> node_item list \<Rightarrow> scheduler_action list \<Rightarrow> bool" where
  "ledger_step k spec shadow acts shadow' acts' \<longleftrightarrow> (\<exists>P.
     (\<forall>n. placed n acts' = placed n acts @ (if n \<in> P then [k] else []))
     \<and> shadow' = map (\<lambda>n. if nd_id n \<in> P then take_resources spec n else n) shadow
     \<and> (\<forall>n \<in> set shadow. nd_id n \<in> P \<longrightarrow> node_fits n spec) \<and> P \<subseteq> nd_id ` set shadow)"

lemma ledger_step_none:
  assumes "\<forall>n. placed n acts' = placed n acts"
  shows "ledger_step k spec shadow acts shadow acts'"
  using assms unfolding ledger_step_def by (intro exI [of _ "{}"]) simp

lemma ledger_step_new:
  assumes sh: "shadow_ok shadow" and "reconcile_spec_instances rd clock spec shadow s = Inr (insts, shadow')"
    and "sp_id spec = k" and "\<forall>n. placed n rest = []"
  shows "ledger_step k spec shadow acts shadow' (acts @ map InstanceReplica insts @ rest)"
proof -
  have d: "distinct (map nd_id shadow)" using sh by (simp add: shadow_ok_def)
  note r = reconcile_Inr [OF d assms(2)]
  let ?P = "set (map ri_node_id insts)"
  have on: "\<exists>m \<in> set shadow. nd_id m = q \<and> node_fits m spec" if "q \<in> ?P" for q
  proof -
    from that obtain i where i: "i \<in> set insts" "q = ri_node_id i" by auto
    then obtain m where "m \<in> set (open_nodes spec s shadow)" "nd_id m = ri_node_id i" using r(2) by blast
    then show ?thesis using i(2) by (auto simp: open_nodes_iff)
  qed
  have "node_fits n spec" if n: "n \<in> set shadow" "nd_id n \<in> ?P" for n
  proof -
    obtain m where m: "m \<in> set shadow" "nd_id m = nd_id n" "node_fits m spec" using on [OF n(2)] by blast
    then have "m = n" using d n(1) by (simp add: distinct_map inj_on_def)
    then show ?thesis using m(3) by simp
  qed
  moreover have "?P \<subseteq> nd_id ` set shadow" using on by blast
  moreover have "placed n (map InstanceReplica insts) = (if n \<in> ?P then [k] else [])" for n
    using placed_new [OF r(1)] r(2) assms(3) by blast
  ultimately show ?thesis
    unfolding ledger_step_def using r(3) assms(4) by (intro exI [of _ ?P]) simp
qed

lemma inst_list_iff:
  assumes "insts_wf (replica_instances s)"
  shows "i \<in> set (inst_list s k) \<longleftrightarrow> hm_get (replica_instances s) (ri_instance_id i) = Some i \<and> ri_spec_id i = k"
proof -
  have w: "hm_wf (replica_instances s)" using assms by (rule insts_wf_maps)
  have u: "(ri_instance_id i, i) \<in> set (replica_instances s)" if "(j, i) \<in> set (replica_instances s)" for j
    using that assms by (auto simp: insts_wf_def)
  have "i \<in> snd ` set (replica_instances s) \<longleftrightarrow> (ri_instance_id i, i) \<in> set (replica_instances s)"
    using u by (auto intro: image_eqI [of _ snd "(ri_instance_id i, i)"])
  then show ?thesis by (auto simp: inst_list_def hm_values_def hm_get_in_set [OF w])
qed

lemma fold_suspend_acts:
  "fold suspend_instance ids (s, acts) = (s', acts') \<Longrightarrow> set acts \<subseteq> set acts'"
  by (induction ids arbitrary: s acts) (auto simp: suspend_instance_def Let_def split: option.splits, fastforce)

lemma fold_suspend_update:
  assumes "fold suspend_instance ids (s, acts) = (s', acts')" and "hm_wf (replica_instances s)"
    and "k \<in> set ids" and "hm_get (replica_instances s) k = Some i"
  shows "UpdateInstance (ri_instance_id i) (suspended i) \<in> set acts'"
  using assms
proof (induction ids arbitrary: s acts)
  case (Cons j ids)
  obtain s1 acts1 where step: "suspend_instance j (s, acts) = (s1, acts1)" by fastforce
  then have f: "fold suspend_instance ids (s1, acts1) = (s', acts')" using Cons.prems(1) by simp
  show ?case
  proof (cases "j = k")
    case True
    then have "UpdateInstance (ri_instance_id i) (suspended i) \<in> set acts1"
      using step Cons.prems(4) by (auto simp: suspend_instance_eqs(2) suspended_def)
    then show ?thesis using fold_suspend_acts [OF f] by blast
  next
    case False
    have "hm_wf (replica_instances s1)" "hm_get (replica_instances s1) k = Some i"
      using step False Cons.prems(2,4) by (auto simp: suspend_instance_def Let_def hm_simps split: option.splits)
    then show ?thesis using Cons.IH [OF f] Cons.prems(3) False by simp
  qed
qed simp

text \<open>Adding instances of a service: they are its instances, and so are those it had, unless one of the
  new ones has taken their id.\<close>

lemma fold_add_inst_list:
  assumes "distinct (map ri_instance_id is)" and w: "insts_wf (replica_instances s)"
    and ok: "\<forall>i \<in> set is. inst_ok i \<and> ri_spec_id i = k"
  shows "set (inst_list (fold add_replica_instance is s) k)
    = set is \<union> {i \<in> set (inst_list s k). ri_instance_id i \<notin> ri_instance_id ` set is}"
proof (intro set_eqI)
  fix i :: replica_instance
  let ?find = "find (\<lambda>j. ri_instance_id j = ri_instance_id i) is"
  have w': "insts_wf (replica_instances (fold add_replica_instance is s))" using fold_add_wf [OF w] ok by blast
  have "i \<in> set (inst_list (fold add_replica_instance is s) k)
      \<longleftrightarrow> (case ?find of Some j \<Rightarrow> j = i | None \<Rightarrow> hm_get (replica_instances s) (ri_instance_id i) = Some i) \<and> ri_spec_id i = k"
    using fold_add_get [OF assms(1) w, of "ri_instance_id i"] ok
    by (auto simp: inst_list_iff [OF w'] split: option.splits)
  also have "\<dots> \<longleftrightarrow> i \<in> set is \<union> {i \<in> set (inst_list s k). ri_instance_id i \<notin> ri_instance_id ` set is}"
  proof (cases ?find)
    case None
    then have "ri_instance_id i \<notin> ri_instance_id ` set is" by (auto simp: find_None_iff)
    then show ?thesis using None by (auto simp: inst_list_iff [OF w])
  next
    case (Some j)
    then have j: "j \<in> set is" "ri_instance_id j = ri_instance_id i" by (auto simp: find_Some_iff)
    moreover have "i \<in> set is \<longleftrightarrow> j = i" using j assms(1) by (auto simp: distinct_map inj_on_def)
    ultimately show ?thesis using Some ok by (auto simp: image_iff)
  qed
  finally show "i \<in> set (inst_list (fold add_replica_instance is s) k)
    \<longleftrightarrow> i \<in> set is \<union> {i \<in> set (inst_list s k). ri_instance_id i \<notin> ri_instance_id ` set is}" .
qed

text \<open>How many instances a service gets: no more than it lacks, and at least one if it lacks any.\<close>

definition fills :: "service_spec \<Rightarrow> replica_instance list \<Rightarrow> replica_instance list \<Rightarrow> bool" where
  "fills spec old new \<longleftrightarrow> (let live = length (filter (\<lambda>i. ri_state i \<noteq> InstDeleted) old) in
     length new \<le> unat (best_instance_count spec) - live \<and> (live < unat (best_instance_count spec) \<longrightarrow> new \<noteq> []))"

lemma reconcile_fills:
  assumes "reconcile_spec_instances rd clock spec shadow s = Inr (insts, shadow')"
    and "length shadow < 2 ^ 32" and "length (inst_list s (sp_id spec)) < 2 ^ 32"
  shows "fills spec (inst_list s (sp_id spec)) insts"
proof -
  let ?live = "length (existing_instances spec s)"
  have "?live < 2 ^ 32" using assms(3) by (simp add: existing_inst_list le_less_trans [OF length_filter_le])
  then have u: "unat (of_nat ?live :: u32) = ?live" using unat_of_nat_small [where 'a = 32] by simp
  have f: "fills spec (inst_list s (sp_id spec)) insts \<longleftrightarrow> length insts \<le> unat (best_instance_count spec) - ?live
      \<and> (?live < unat (best_instance_count spec) \<longrightarrow> insts \<noteq> [])"
    by (simp add: fills_def existing_inst_list Let_def)
  show ?thesis
  proof (cases "satisfied spec s")
    case True
    then show ?thesis using assms(1) u unfolding f by (simp add: reconcile_eq satisfied_def word_le_nat_alt)
  next
    case False
    let ?open = "open_nodes spec s shadow" and ?sp = "spec\<lparr>best_instance_count := missing spec s\<rparr>"
    have less: "?live < unat (best_instance_count spec)" using False u by (simp add: satisfied_def word_le_nat_alt)
    then have miss: "unat (missing spec s) = unat (best_instance_count spec) - ?live"
      using u by (simp add: missing_def unat_sub word_le_nat_alt)
    have "length ?open < 2 ^ 32" using assms(2) by (simp add: open_nodes_def le_less_trans [OF length_filter_le])
    moreover have "?open \<noteq> []" "insts = map (new_instance clock ?sp (alloc_ports spec)) (select_nodes rd ?sp ?open)"
      using assms(1) False by (auto simp: reconcile_eq Let_def split: if_splits)
    ultimately have "length insts = min (unat (missing spec s)) (length ?open)" "0 < length ?open"
      using length_select_nodes [of ?open rd ?sp] by simp_all
    then show ?thesis unfolding f using miss less by (auto simp: min_def split: if_splits)
  qed
qed

text \<open>The instances that a reconciliation gives are well-formed and of the service, with different ids,
  none of them that of an instance the service has and that is not deleted.\<close>

lemma reconcile_instances:
  assumes wf: "sched_wf s" and sh: "shadow_ok shadow"
    and rec: "reconcile_spec_instances rd clock spec shadow s = Inr (insts, shadow')"
  shows "\<forall>i \<in> set insts. inst_ok i \<and> ri_spec_id i = sp_id spec \<and> ri_state i = InstRunning"
    and "distinct (map ri_instance_id insts)"
    and "\<forall>i \<in> set (inst_list s (sp_id spec)). ri_state i \<noteq> InstDeleted \<longrightarrow> ri_instance_id i \<notin> ri_instance_id ` set insts"
proof -
  have w: "insts_wf (replica_instances s)" using wf by (simp add: sched_wf_def)
  have d: "distinct (map nd_id shadow)" using sh by (simp add: shadow_ok_def)
  note r = reconcile_Inr [OF d rec]
  show ok: "\<forall>i \<in> set insts. inst_ok i \<and> ri_spec_id i = sp_id spec \<and> ri_state i = InstRunning"
  proof
    fix i assume ii: "i \<in> set insts"
    obtain n where "n \<in> set shadow" "nd_id n = ri_node_id i" using r(2) [OF ii] by (auto simp: open_nodes_iff)
    then have "CHR ''@'' \<notin> set (ri_node_id i)" using sh unfolding shadow_ok_def by metis
    then show "inst_ok i \<and> ri_spec_id i = sp_id spec \<and> ri_state i = InstRunning" using r(2) [OF ii] by (simp add: inst_ok_def)
  qed
  then show "distinct (map ri_instance_id insts)" using r(1) by (auto simp: distinct_map inj_on_def inst_ok_def)
  show "\<forall>i \<in> set (inst_list s (sp_id spec)). ri_state i \<noteq> InstDeleted \<longrightarrow> ri_instance_id i \<notin> ri_instance_id ` set insts"
  proof (intro ballI impI notI)
    fix i assume i: "i \<in> set (inst_list s (sp_id spec))" "ri_state i \<noteq> InstDeleted" "ri_instance_id i \<in> ri_instance_id ` set insts"
    then obtain j where j: "j \<in> set insts" "ri_instance_id j = ri_instance_id i" by auto
    have "inst_ok i" using i(1) insts_wf_get [OF w] unfolding inst_list_iff [OF w] by blast
    then have "ri_node_id j = ri_node_id i" using same_instance_id ok j by blast
    moreover have "i \<in> set (existing_instances spec s)" using i(1,2) by (simp add: existing_inst_list)
    ultimately show False using r(2) [OF j(1)] by (auto simp: open_nodes_iff)
  qed
qed

text \<open>What happens to the service of a turn and to its instances, with \<open>m\<close> nodes to choose from.\<close>

definition stoppable :: "replica_instance \<Rightarrow> bool" where
  "stoppable i \<longleftrightarrow> ri_state i \<noteq> InstSuspended \<and> ri_state i \<noteq> InstDeleted"

definition spec_effect :: "nat \<Rightarrow> string \<Rightarrow> service_spec \<Rightarrow> node_scheduler \<Rightarrow> node_scheduler \<Rightarrow> scheduler_action list \<Rightarrow> bool" where
  "spec_effect m k spec s s' acts' \<longleftrightarrow>
     hm_get (specs s') k = Some (if sp_state spec = SpecNew then spec\<lparr>sp_state := SpecDeployed\<rparr> else spec)
     \<and> (if sp_state spec = SpecNew \<or> sp_state spec = SpecDeployed then
          set (inst_list s' k) = set (announced k acts')
            \<union> {i \<in> set (inst_list s k). ri_instance_id i \<notin> ri_instance_id ` set (announced k acts')}
          \<and> (\<forall>i \<in> set (inst_list s k). ri_state i \<noteq> InstDeleted \<longrightarrow> i \<in> set (inst_list s' k))
          \<and> (\<forall>i \<in> set (announced k acts'). ri_state i = InstRunning)
          \<and> distinct (map ri_instance_id (announced k acts'))
          \<and> (sp_state spec = SpecNew \<longrightarrow> ChangeServiceStatus k SpecDeployed \<in> set acts')
          \<and> (m < 2 ^ 32 \<and> length (inst_list s k) < 2 ^ 32 \<longrightarrow> fills spec (inst_list s k) (announced k acts'))
        else announced k acts' = [] \<and>
          (if sp_state spec = SpecDeleted then
             inst_list s' k = [] \<and> (\<forall>i \<in> set (inst_list s k).
               RemoveInstance k (ri_instance_id i) (ri_node_id i) \<in> set acts')
             \<and> ChangeServiceStatus k SpecDeleted \<in> set acts'
           else if sp_state spec = SpecDisable \<and> is_app_like (sp_type spec) then
             inst_list s' k = map (\<lambda>i. if stoppable i then suspended i else i) (inst_list s k)
             \<and> (\<forall>i \<in> set (inst_list s k). stoppable i \<longrightarrow> UpdateInstance (ri_instance_id i) (suspended i) \<in> set acts')
           else inst_list s' k = inst_list s k))"

definition turn_ok :: "string \<Rightarrow> service_spec \<Rightarrow> node_scheduler \<Rightarrow> node_item list \<Rightarrow> scheduler_action list
    \<Rightarrow> node_scheduler \<Rightarrow> node_item list \<Rightarrow> scheduler_action list \<Rightarrow> bool" where
  "turn_ok k spec s shadow acts s' shadow' acts' \<longleftrightarrow> nodes s' = nodes s \<and> sched_wf s' \<and> set acts \<subseteq> set acts'
     \<and> (\<forall>j. j \<noteq> k \<longrightarrow> hm_get (specs s') j = hm_get (specs s) j \<and> inst_list s' j = inst_list s j
          \<and> announced j acts' = announced j acts)
     \<and> ledger_step k spec shadow acts shadow' acts' \<and> spec_effect (length shadow) k spec s s' acts'"

lemma turn_deploy:
  assumes wf: "sched_wf s" and sh: "shadow_ok shadow" and spec: "hm_get (specs s) k = Some spec"
    and rec: "reconcile_spec_instances rd clock spec shadow s = Inr (insts, shadow')"
    and st: "sp_state spec = SpecNew \<or> sp_state spec = SpecDeployed"
    and s': "s' = (if sp_state spec = SpecNew then set_spec_state k SpecDeployed (fold add_replica_instance insts s)
      else fold add_replica_instance insts s)"
    and rest: "\<forall>n. placed n rest = []" "\<forall>j. announced j rest = []"
      "sp_state spec = SpecNew \<longrightarrow> ChangeServiceStatus k SpecDeployed \<in> set rest"
    and none: "announced k acts = []"
  shows "turn_ok k spec s shadow acts s' shadow' (acts @ map InstanceReplica insts @ rest)"
proof -
  have w: "insts_wf (replica_instances s)" "specs_wf (specs s)" "hm_wf (specs s)" "nodes_wf (nodes s)"
    using wf by (simp_all add: sched_wf_def specs_wf_def)
  have k: "sp_id spec = k" using specs_wf_get [OF w(2) spec] .
  note r = reconcile_instances [OF wf sh rec, unfolded k]
  let ?s = "fold add_replica_instance insts s" and ?acts = "acts @ map InstanceReplica insts @ rest"
  have ok: "\<forall>i \<in> set insts. inst_ok i \<and> ri_spec_id i = k" using r(1) by blast
  have wf': "insts_wf (replica_instances ?s)" using fold_add_wf [OF w(1)] ok by blast
  have s'_eq: "nodes s' = nodes s" "replica_instances s' = replica_instances ?s" "inst_list s' j = inst_list ?s j" for j
    by (simp_all add: s')
  have specs: "specs_wf (specs s')" "hm_get (specs s') j = (if j = k
      then Some (if sp_state spec = SpecNew then spec\<lparr>sp_state := SpecDeployed\<rparr> else spec) else hm_get (specs s) j)" for j
    using w spec by (simp_all add: s' set_spec_state_wf set_spec_state_get)
  have ann: "announced j ?acts = (if j = k then insts else announced j acts)" for j
    using rest(2) none ok by (auto simp: announced_new filter_empty_conv intro: filter_True)
  have new: "set (inst_list s' k) = set insts \<union> {i \<in> set (inst_list s k). ri_instance_id i \<notin> ri_instance_id ` set insts}"
    unfolding s'_eq by (rule fold_add_inst_list [OF r(2) w(1) ok])
  have keep: "\<forall>i \<in> set (inst_list s k). ri_state i \<noteq> InstDeleted \<longrightarrow> i \<in> set (inst_list s' k)"
    using r(3) unfolding new by blast
  have "length shadow < 2 ^ 32 \<and> length (inst_list s k) < 2 ^ 32 \<longrightarrow> fills spec (inst_list s k) insts"
    using reconcile_fills [OF rec] k by blast
  then have "spec_effect (length shadow) k spec s s' ?acts"
    unfolding spec_effect_def ann using specs(2) [of k] st new keep r(1,2) rest(3) by simp
  then show ?thesis
    unfolding turn_ok_def ann
    using s'_eq specs wf' w fold_add_other [OF w(1) ok] ledger_step_new [OF sh rec k rest(1)]
    by (simp add: sched_wf_def)
qed

lemma turn_delete:
  assumes wf: "sched_wf s" and spec: "hm_get (specs s) k = Some spec" and st: "sp_state spec = SpecDeleted"
    and f: "fold remove_instance (instance_ids_where (\<lambda>i. ri_spec_id i = k) s) (s, acts) = (s1, acts1)"
    and none: "announced k acts = []"
  shows "turn_ok k spec s shadow acts (set_spec_state k SpecDeleted s1) shadow
    (acts1 @ [ChangeServiceStatus k SpecDeleted])"
proof -
  have w: "insts_wf (replica_instances s)" "hm_wf (replica_instances s)" "specs_wf (specs s)" "hm_wf (specs s)" "nodes_wf (nodes s)"
    using wf by (simp_all add: sched_wf_def specs_wf_def insts_wf_def)
  note r = fold_remove_instance [OF f]
  have s1: "s1 = s\<lparr>replica_instances := filter (\<lambda>(_, i). ri_spec_id i \<noteq> k) (replica_instances s)\<rparr>"
    using r removed_insts [OF w(2)] by simp
  have il: "inst_list s1 j = (if j = k then [] else inst_list s j)" for j
    by (auto simp: s1 inst_list_def hm_values_filter intro: filter_cong)
  have "RemoveInstance k (ri_instance_id i) (ri_node_id i) \<in> set acts1" if "i \<in> set (inst_list s k)" for i
  proof -
    have g: "hm_get (replica_instances s) (ri_instance_id i) = Some i" "ri_spec_id i = k"
      using that by (simp_all add: inst_list_iff [OF w(1)])
    then have "ri_instance_id i \<in> set (instance_ids_where (\<lambda>i. ri_spec_id i = k) s)"
      using ids_where_iff [OF w(2)] w(2) by (simp add: instance_ids_where_def hm_get_in_set del: set_map)
    then show ?thesis using r w(2) g by blast
  qed
  moreover have "ledger_step k spec shadow acts shadow (acts1 @ [ChangeServiceStatus k SpecDeleted])"
    using r by (intro ledger_step_none) simp
  moreover have "specs_wf (specs (set_spec_state k SpecDeleted s1))" "insts_wf (replica_instances s1)"
    using w by (simp_all add: s1 set_spec_state_wf filter_insts_wf)
  moreover have "hm_get (specs (set_spec_state k SpecDeleted s1)) j = hm_get (specs s) j" for j
    using w(4) spec st by (simp add: set_spec_state_get s1)
  moreover have "set acts \<subseteq> set acts1" using r by simp
  ultimately show ?thesis
    unfolding turn_ok_def spec_effect_def
    using w(5) spec st il none fold_remove_announced [OF f] by (auto simp: s1 sched_wf_def)
qed

lemma turn_suspend:
  assumes wf: "sched_wf s" and spec: "hm_get (specs s) k = Some spec"
    and st: "sp_state spec = SpecDisable" "is_app_like (sp_type spec)"
    and f: "fold suspend_instance (instance_ids_where (\<lambda>i. ri_spec_id i = k
      \<and> ri_state i \<noteq> InstSuspended \<and> ri_state i \<noteq> InstDeleted) s) (s, acts) = (s1, acts1)"
    and none: "announced k acts = []"
  shows "turn_ok k spec s shadow acts s1 shadow acts1"
proof -
  have w: "insts_wf (replica_instances s)" "hm_wf (replica_instances s)" "specs_wf (specs s)" "nodes_wf (nodes s)"
    using wf by (simp_all add: sched_wf_def specs_wf_def insts_wf_def)
  let ?f = "\<lambda>i. if ri_spec_id i = k \<and> stoppable i then suspended i else i"
  note r = fold_suspend_instance [OF f w(2)]
  have s1: "s1 = s\<lparr>replica_instances := map (\<lambda>(j, i). (j, ?f i)) (replica_instances s)\<rparr>"
    using r suspended_insts [OF w(2), of "\<lambda>i. ri_spec_id i = k \<and> stoppable i"] by (simp add: stoppable_def)
  have sp: "ri_spec_id (?f i) = ri_spec_id i" for i by simp
  have "filter (\<lambda>i. ri_spec_id i = j) (map ?f xs) = map (if j = k then (\<lambda>i. if stoppable i then suspended i else i) else id)
      (filter (\<lambda>i. ri_spec_id i = j) xs)" for j xs
    by (induction xs) auto
  then have il: "inst_list s1 j = map (if j = k then (\<lambda>i. if stoppable i then suspended i else i) else id) (inst_list s j)" for j
    by (simp add: s1 inst_list_def hm_values_map)
  moreover have "insts_wf (replica_instances s1)" using suspend_insts_wf [OF w(1)] by (simp add: s1)
  moreover have "ledger_step k spec shadow acts shadow acts1" using r by (intro ledger_step_none) simp
  moreover have "UpdateInstance (ri_instance_id i) (suspended i) \<in> set acts1"
    if i: "i \<in> set (inst_list s k)" "stoppable i" for i
  proof -
    have g: "hm_get (replica_instances s) (ri_instance_id i) = Some i" "ri_spec_id i = k"
      using i(1) by (simp_all add: inst_list_iff [OF w(1)])
    then have "ri_instance_id i \<in> set (instance_ids_where (\<lambda>i. ri_spec_id i = k
        \<and> ri_state i \<noteq> InstSuspended \<and> ri_state i \<noteq> InstDeleted) s)"
      using ids_where_iff [OF w(2)] w(2) i(2) by (simp add: instance_ids_where_def hm_get_in_set stoppable_def del: set_map)
    then show ?thesis using fold_suspend_update [OF f w(2)] g(1) by blast
  qed
  ultimately show ?thesis
    unfolding turn_ok_def spec_effect_def
    using w spec st fold_suspend_acts [OF f] none fold_suspend_announced [OF f] by (simp add: s1 sched_wf_def)
qed

lemma turn_keep:
  assumes "sched_wf s" and "hm_get (specs s) k = Some spec"
    and "sp_state spec = SpecDeployFailed \<or> sp_state spec = SpecAbnormal
      \<or> sp_state spec = SpecDisable \<and> \<not> is_app_like (sp_type spec)"
    and "announced k acts = []"
  shows "turn_ok k spec s shadow acts s shadow acts"
  using assms ledger_step_none [of acts acts k spec shadow] by (auto simp: turn_ok_def spec_effect_def)

lemma spec_change_step_turn:
  assumes wf: "sched_wf s" and sh: "shadow_ok shadow" and spec: "hm_get (specs s) k = Some spec"
    and step: "spec_change_step rd clock k s shadow acts = Inr (s', shadow', acts')" and none: "announced k acts = []"
  shows "turn_ok k spec s shadow acts s' shadow' acts'"
proof (cases "sp_state spec = SpecNew \<or> sp_state spec = SpecDeployed")
  case True
  then obtain insts where r: "reconcile_spec_instances rd clock spec shadow s = Inr (insts, shadow')"
    and s': "s' = (if sp_state spec = SpecNew then set_spec_state k SpecDeployed (fold add_replica_instance insts s)
      else fold add_replica_instance insts s)"
    and a: "acts' = acts @ map InstanceReplica insts @ (if sp_state spec = SpecNew then [ChangeServiceStatus k SpecDeployed] else [])"
    using step spec by (auto simp: spec_change_step_def Let_def rbind_Inr_iff split: if_splits)
  show ?thesis unfolding a by (rule turn_deploy [OF wf sh spec r True s' _ _ _ none]) auto
next
  case False
  note nd = this
  show ?thesis
  proof (cases "sp_state spec = SpecDeleted")
    case True
    obtain s1 acts1 where f: "fold remove_instance (instance_ids_where (\<lambda>i. ri_spec_id i = k) s) (s, acts) = (s1, acts1)"
      by fastforce
    then show ?thesis using step spec True turn_delete [OF wf spec True f none] by (simp add: spec_change_step_def)
  next
    case False
    show ?thesis
    proof (cases "sp_state spec = SpecDisable \<and> is_app_like (sp_type spec)")
      case True
      obtain s1 acts1 where f: "fold suspend_instance (instance_ids_where (\<lambda>i. ri_spec_id i = k
          \<and> ri_state i \<noteq> InstSuspended \<and> ri_state i \<noteq> InstDeleted) s) (s, acts) = (s1, acts1)"
        by fastforce
      then show ?thesis using step spec True turn_suspend [OF wf spec _ _ f none]
        by (simp add: spec_change_step_def)
    next
      case other: False
      have "sp_state spec = SpecDeployFailed \<or> sp_state spec = SpecAbnormal
          \<or> sp_state spec = SpecDisable \<and> \<not> is_app_like (sp_type spec)"
        using nd False other by (cases "sp_state spec") auto
      then show ?thesis using step spec turn_keep [OF wf spec _ none] by (auto simp: spec_change_step_def)
    qed
  qed
qed

section \<open>The loop\<close>

definition spec_of :: "node_scheduler \<Rightarrow> string \<Rightarrow> service_spec" where
  "spec_of s k = the (hm_get (specs s) k)"

text \<open>The shadow nodes are the ready nodes less what was placed on them, everything placed fitted
  when it was placed, and nothing was placed elsewhere.\<close>

definition ledger_inv :: "node_scheduler \<Rightarrow> node_item list \<Rightarrow> scheduler_action list \<Rightarrow> bool" where
  "ledger_inv s0 shadow acts \<longleftrightarrow>
     shadow = map (\<lambda>n. fold take_resources (map (spec_of s0) (placed (nd_id n) acts)) n) (ready_nodes s0)
     \<and> (\<forall>n \<in> set (ready_nodes s0). all_fit node_fits take_resources n (map (spec_of s0) (placed (nd_id n) acts)))
     \<and> (\<forall>q. placed q acts \<noteq> [] \<longrightarrow> q \<in> nd_id ` set (ready_nodes s0))"

lemma ledger_inv_ids: "ledger_inv s0 shadow acts \<Longrightarrow> map nd_id shadow = map nd_id (ready_nodes s0)"
  by (simp add: ledger_inv_def)

lemma ready_nodes_ok:
  assumes "sched_wf s"
  shows "shadow_ok (ready_nodes s)"
proof -
  have w: "hm_wf (nodes s)" "\<forall>(k, n) \<in> set (nodes s). nd_id n = k \<and> CHR ''@'' \<notin> set k"
    using assms by (simp_all add: sched_wf_def nodes_wf_def)
  have "map nd_id (hm_values (nodes s)) = map fst (nodes s)"
    using w(2) by (auto simp: hm_values_def)
  then have "distinct (map nd_id (hm_values (nodes s)))" using w(1) by (simp add: hm_wf_def)
  then show ?thesis using w(2) by (auto simp: shadow_ok_def ready_nodes_def distinct_map_filter hm_values_def)
qed

lemma ledger_shadow_ok:
  assumes "sched_wf s0" and "ledger_inv s0 shadow acts"
  shows "shadow_ok shadow"
proof -
  have i: "map nd_id shadow = map nd_id (ready_nodes s0)" by (rule ledger_inv_ids [OF assms(2)])
  have "\<forall>q \<in> set (map nd_id shadow). CHR ''@'' \<notin> set q"
    unfolding i using ready_nodes_ok [OF assms(1)] by (simp add: shadow_ok_def)
  moreover have "distinct (map nd_id shadow)"
    unfolding i using ready_nodes_ok [OF assms(1)] by (simp add: shadow_ok_def)
  ultimately show ?thesis by (simp add: shadow_ok_def)
qed

lemma ledger_inv_step:
  assumes inv: "ledger_inv s0 shadow acts" and step: "ledger_step k (spec_of s0 k) shadow acts shadow' acts'"
  shows "ledger_inv s0 shadow' acts'"
proof -
  obtain P where P: "\<And>n. placed n acts' = placed n acts @ (if n \<in> P then [k] else [])"
      "shadow' = map (\<lambda>n. if nd_id n \<in> P then take_resources (spec_of s0 k) n else n) shadow"
      "\<And>n. n \<in> set shadow \<Longrightarrow> nd_id n \<in> P \<Longrightarrow> node_fits n (spec_of s0 k)" "P \<subseteq> nd_id ` set shadow"
    using step unfolding ledger_step_def by blast
  let ?sh = "\<lambda>n. fold take_resources (map (spec_of s0) (placed (nd_id n) acts)) n"
  have sh: "shadow = map ?sh (ready_nodes s0)"
    and fit: "\<And>n. n \<in> set (ready_nodes s0) \<Longrightarrow> all_fit node_fits take_resources n (map (spec_of s0) (placed (nd_id n) acts))"
    and on: "\<And>q. placed q acts \<noteq> [] \<Longrightarrow> q \<in> nd_id ` set (ready_nodes s0)"
    using inv by (simp_all add: ledger_inv_def)
  have ids: "nd_id ` set shadow = nd_id ` set (ready_nodes s0)" using ledger_inv_ids [OF inv] by (metis set_map)
  have "all_fit node_fits take_resources n (map (spec_of s0) (placed (nd_id n) acts'))" if n: "n \<in> set (ready_nodes s0)" for n
    using fit [OF n] P(3) [of "?sh n"] n by (auto simp: P(1) sh all_fit_snoc)
  moreover have "q \<in> nd_id ` set (ready_nodes s0)" if "placed q acts' \<noteq> []" for q
    using that on P(1,4) ids by (cases "q \<in> P") auto
  moreover have "shadow' = map (\<lambda>n. fold take_resources (map (spec_of s0) (placed (nd_id n) acts')) n) (ready_nodes s0)"
    unfolding P(2) sh by (simp add: P(1))
  ultimately show ?thesis by (simp add: ledger_inv_def)
qed

definition loop_inv :: "node_scheduler \<Rightarrow> string list \<Rightarrow> node_scheduler \<Rightarrow> node_item list \<Rightarrow> scheduler_action list \<Rightarrow> bool" where
  "loop_inv s0 ids s shadow acts \<longleftrightarrow> sched_wf s0 \<and> sched_wf s \<and> nodes s = nodes s0 \<and> ledger_inv s0 shadow acts
     \<and> (\<forall>k \<in> set ids. hm_get (specs s) k = hm_get (specs s0) k \<and> inst_list s k = inst_list s0 k
          \<and> announced k acts = [] \<and> hm_get (specs s0) k \<noteq> None)"

lemma loop_inv_init:
  assumes "sched_wf s"
  shows "loop_inv s (hm_keys (specs s)) s (ready_nodes s) []"
  using assms by (simp add: loop_inv_def ledger_inv_def hm_get_None del: not_None_eq)

lemma loop_inv_step:
  assumes inv: "loop_inv s0 (k # ids) s shadow acts" and k: "k \<notin> set ids"
    and step: "spec_change_step rd clock k s shadow acts = Inr (s', shadow', acts')"
  shows "turn_ok k (spec_of s0 k) s shadow acts s' shadow' acts' \<and> loop_inv s0 ids s' shadow' acts'"
proof -
  have spec: "hm_get (specs s) k = Some (spec_of s0 k)" using inv by (auto simp: loop_inv_def spec_of_def)
  have t: "turn_ok k (spec_of s0 k) s shadow acts s' shadow' acts'"
    using inv spec_change_step_turn [OF _ ledger_shadow_ok spec step] unfolding loop_inv_def by (meson list.set_intros(1))
  have "\<forall>j \<in> set ids. hm_get (specs s') j = hm_get (specs s) j \<and> inst_list s' j = inst_list s j
      \<and> announced j acts' = announced j acts"
    using t k unfolding turn_ok_def by metis
  then show ?thesis using t inv ledger_inv_step [of s0 shadow acts k] by (simp add: loop_inv_def turn_ok_def)
qed

lemma spec_effect_cong:
  assumes "spec_effect m k sp s s' acts'" and "inst_list s0 k = inst_list s k" and "set acts' \<subseteq> set acts''"
    and "hm_get (specs s'') k = hm_get (specs s') k" and "inst_list s'' k = inst_list s' k"
    and "announced k acts'' = announced k acts'"
  shows "spec_effect m k sp s0 s'' acts''"
  using assms(1,3) unfolding spec_effect_def assms(2,4,5,6) by (auto split: if_splits)

lemma spec_change_loop_correct:
  assumes "loop_inv s0 ids s shadow acts" and "distinct ids"
    and "spec_change_loop rd clock ids s shadow acts = (s', Inr acts')"
  shows "(\<exists>shadow'. loop_inv s0 [] s' shadow' acts') \<and> set acts \<subseteq> set acts'
    \<and> (\<forall>k \<in> set ids. spec_effect (length (ready_nodes s0)) k (spec_of s0 k) s0 s' acts')
    \<and> (\<forall>k. k \<notin> set ids \<longrightarrow> hm_get (specs s') k = hm_get (specs s) k \<and> inst_list s' k = inst_list s k
         \<and> announced k acts' = announced k acts)"
  using assms
proof (induction ids arbitrary: s shadow acts)
  case Nil
  then show ?case by auto
next
  case (Cons k ids)
  obtain s1 shadow1 acts1 where step: "spec_change_step rd clock k s shadow acts = Inr (s1, shadow1, acts1)"
    using Cons.prems(3) by (cases "spec_change_step rd clock k s shadow acts") auto
  have k: "k \<notin> set ids" "distinct ids" using Cons.prems(2) by simp_all
  have t: "turn_ok k (spec_of s0 k) s shadow acts s1 shadow1 acts1" and inv: "loop_inv s0 ids s1 shadow1 acts1"
    using loop_inv_step [OF Cons.prems(1) k(1) step] by simp_all
  have "spec_change_loop rd clock ids s1 shadow1 acts1 = (s', Inr acts')" using Cons.prems(3) step by simp
  note ih = Cons.IH [OF inv k(2) this]
  have mono: "set acts1 \<subseteq> set acts'" and rest: "\<And>j. j \<notin> set ids \<Longrightarrow>
      hm_get (specs s') j = hm_get (specs s1) j \<and> inst_list s' j = inst_list s1 j \<and> announced j acts' = announced j acts1"
    using ih [THEN conjunct2, THEN conjunct1] ih [THEN conjunct2, THEN conjunct2, THEN conjunct2] by simp_all
  have "inst_list s0 k = inst_list s k" using Cons.prems(1) by (simp add: loop_inv_def)
  moreover have "length shadow = length (ready_nodes s0)"
    using Cons.prems(1) ledger_inv_ids [of s0 shadow acts] by (metis loop_inv_def length_map)
  then have "spec_effect (length (ready_nodes s0)) k (spec_of s0 k) s s1 acts1" using t by (simp add: turn_ok_def)
  ultimately have "spec_effect (length (ready_nodes s0)) k (spec_of s0 k) s0 s' acts'"
    using mono rest [OF k(1)] spec_effect_cong by blast
  moreover have "set acts \<subseteq> set acts'" using t mono by (simp add: turn_ok_def) blast
  moreover have "hm_get (specs s') j = hm_get (specs s) j \<and> inst_list s' j = inst_list s j
      \<and> announced j acts' = announced j acts" if "j \<notin> set (k # ids)" for j
    using that t rest [of j] by (simp add: turn_ok_def)
  ultimately show ?case
    using ih [THEN conjunct1] ih [THEN conjunct2, THEN conjunct2, THEN conjunct1] by (intro conjI ballI allI impI) auto
qed

text \<open>A service that no ready node can take, and that has fewer instances than it wants, ends the loop
  with an error.\<close>

lemma spec_change_loop_blocked:
  assumes "loop_inv s0 ids s shadow acts" and "distinct ids" and "k \<in> set ids"
    and st: "sp_state (spec_of s0 k) = SpecNew \<or> sp_state (spec_of s0 k) = SpecDeployed"
    and miss: "\<not> satisfied (spec_of s0 k) s0" and none: "open_nodes (spec_of s0 k) s0 (ready_nodes s0) = []"
  shows "\<exists>e. snd (spec_change_loop rd clock ids s shadow acts) = Inl e"
  using assms(1-3)
proof (induction ids arbitrary: s shadow acts)
  case (Cons j ids)
  show ?case
  proof (cases "spec_change_step rd clock j s shadow acts")
    case (Inr r)
    obtain s1 shadow1 acts1 where r: "r = (s1, shadow1, acts1)" by (cases r)
    have inv: "loop_inv s0 ids s1 shadow1 acts1"
      using loop_inv_step [OF Cons.prems(1)] Cons.prems(2) Inr r by simp
    have "j \<noteq> k"
    proof
      assume j: "j = k"
      let ?sp = "spec_of s0 k"
      have w: "specs_wf (specs s0)" "ledger_inv s0 shadow acts" using Cons.prems(1) by (simp_all add: loop_inv_def sched_wf_def)
      have g: "hm_get (specs s) k = Some ?sp" "hm_get (specs s0) k = Some ?sp" "inst_list s k = inst_list s0 k"
        using Cons.prems(1) j by (auto simp: loop_inv_def spec_of_def)
      have ex: "existing_instances ?sp s = existing_instances ?sp s0"
        using g(3) specs_wf_get [OF w(1) g(2)] by (simp add: existing_inst_list)
      have "n \<notin> set (open_nodes ?sp s shadow)" for n
      proof
        assume "n \<in> set (open_nodes ?sp s shadow)"
        then have n: "n \<in> set shadow" "node_fits n ?sp" "\<forall>i \<in> set (existing_instances ?sp s0). ri_node_id i \<noteq> nd_id n"
          by (simp_all add: open_nodes_iff ex)
        obtain m where m: "m \<in> set (ready_nodes s0)" "n = fold take_resources (map (spec_of s0) (placed (nd_id m) acts)) m"
          using n(1) w(2) by (auto simp: ledger_inv_def)
        then have "m \<in> set (open_nodes ?sp s0 (ready_nodes s0))"
          using n(2,3) fits_before [of _ m ?sp] by (simp add: open_nodes_iff)
        then show False using none by simp
      qed
      then have o: "open_nodes ?sp s shadow = []" by (cases "open_nodes ?sp s shadow") auto
      have "\<not> satisfied ?sp s" using miss ex by (simp add: satisfied_def)
      then have "reconcile_spec_instances rd clock ?sp shadow s = Inl ''No suitable node found for service_spec''"
        using o by (simp add: reconcile_eq)
      then show False using Inr g(1) st j by (simp add: spec_change_step_def)
    qed
    then show ?thesis using Cons.IH [OF inv] Cons.prems Inr r by simp
  qed simp
qed simp

end
