(* ===== verification/Scheduler_Correct.thy ===== *)
theory Scheduler_Correct
  imports Scheduler_Steps
begin

text \<open>
  What the scheduler promises: how the review of the nodes moves their states, that a round never
  gives away more of a node than it has, where and how often a service is placed, what becomes of
  the instances when a service is deployed, disabled or deleted, which instances are published as
  service information, and when a round fails.
\<close>

section \<open>A small system\<close>

definition demo_node :: "string \<Rightarrow> node_item" where
  "demo_node n = \<lparr>nd_id = n, nd_type = OOD, labels = [], network_zone = ''home'', support_container = True,
     nd_state = NodeReady, available_cpu_mhz = 40, total_cpu_mhz = 40, available_memory = 64,
     total_memory = 64, available_gpu_memory = 0, total_gpu_memory = 0, gpu_tflops = 0, resources = [],
     op_tasks = []\<rparr>"

definition demo_spec :: "string \<Rightarrow> u32 \<Rightarrow> service_spec" where
  "demo_spec k n = \<lparr>sp_id = k, sp_app_id = k, sp_app_index = 1, sp_owner_id = ''root'', sp_type = App,
     sp_state = SpecNew, best_instance_count = n, need_container = False, required_cpu_mhz = 30,
     required_memory = 16, required_gpu_tflops = 0, required_gpu_mem = 0, node_affinity = None,
     network_affinity = None, service_ports_config = [(''www'', 80)]\<rparr>"

definition demo_sched :: "u32 \<Rightarrow> node_scheduler" where
  "demo_sched n = add_service_spec (demo_spec ''chat'' n) (add_node (demo_node ''ood1'') (new_empty 100 0))"

definition demo_clock :: sched_clock where
  "demo_clock = \<lparr>created_at = (\<lambda>_ _. 100), now_calc = 100\<rparr>"

lemma demo_sched_wf: "sched_wf (demo_sched n)"
  by (auto simp: sched_wf_def nodes_wf_def specs_wf_def insts_wf_def hm_wf_def demo_sched_def demo_node_def
      demo_spec_def add_service_spec_def add_node_def new_empty_def hm_insert_def)

lemma demo_run:
  "snd (schedule_spec_change id demo_clock (demo_sched 2)) = Inr [InstanceReplica \<lparr>ri_node_id = ''ood1'',
     ri_spec_id = ''chat'', res_limits = [], ri_instance_id = ''chat@ood1'', last_update_time = 100,
     ri_state = InstRunning, service_ports = [(''www'', 10016)]\<rparr>, ChangeServiceStatus ''chat'' SpecDeployed]"
  by code_simp

section \<open>The review of the nodes\<close>

definition advance :: "node_state \<Rightarrow> node_state" where
  "advance st = (case st of NodeNew \<Rightarrow> NodePrepare | NodeRemoving \<Rightarrow> NodeDeleted | _ \<Rightarrow> st)"

lemma advance_advance: "advance (advance st) = advance st"
  by (cases st) (simp_all add: advance_def)

definition advance_node :: "node_item \<Rightarrow> node_item" where
  "advance_node n = n\<lparr>nd_state := advance (nd_state n)\<rparr>"

definition node_action :: "node_item \<Rightarrow> scheduler_action list" where
  "node_action n = (if advance (nd_state n) = nd_state n then [] else [ChangeNodeStatus (nd_id n) (advance (nd_state n))])"

lemma resort_node_eq:
  assumes "hm_wf (nodes s)"
  shows "resort_node k (s, acts) = (case hm_get (nodes s) k of None \<Rightarrow> (s, acts)
    | Some n \<Rightarrow> (s\<lparr>nodes := hm_insert k (advance_node n) (nodes s)\<rparr>, acts @ node_action n))"
proof (cases "hm_get (nodes s) k")
  case (Some n)
  have same: "hm_insert k n (nodes s) = nodes s"
    using map_values_at [OF assms Some, of "\<lambda>n. n"] by (simp add: case_prod_beta)
  show ?thesis
  proof (cases "advance (nd_state n) = nd_state n")
    case True
    then have "nd_state n \<noteq> NodeNew" "nd_state n \<noteq> NodeRemoving" by (auto simp: advance_def)
    then have "resort_node k (s, acts) = (s, acts)" using Some by (cases "nd_state n") (simp_all add: resort_node_def)
    then show ?thesis using Some True same by (simp add: node_action_def advance_node_def)
  next
    case False
    then show ?thesis
      using Some by (cases "nd_state n") (simp_all add: resort_node_def node_action_def advance_node_def advance_def)
  qed
qed (simp add: resort_node_def)

lemma fold_resort_node:
  assumes "hm_wf (nodes s)" and "distinct ks" and "set ks \<subseteq> set (hm_keys (nodes s))"
  shows "fold resort_node ks (s, acts) = (s\<lparr>nodes := map (\<lambda>(k, n). (k, if k \<in> set ks then advance_node n else n)) (nodes s)\<rparr>,
    acts @ concat (map (\<lambda>k. node_action (the (hm_get (nodes s) k))) ks))"
  using assms
proof (induction ks arbitrary: s acts)
  case Nil
  then show ?case by (simp add: case_prod_beta)
next
  case (Cons k ks)
  obtain n where n: "hm_get (nodes s) k = Some n"
    using Cons.prems(3) hm_get_None [of "nodes s" k] by (cases "hm_get (nodes s) k") auto
  let ?m = "map (\<lambda>(j, w). (j, if j = k then advance_node w else w)) (nodes s)"
  have m: "hm_insert k (advance_node n) (nodes s) = ?m" by (rule map_values_at [OF Cons.prems(1) n])
  have get: "hm_get ?m j = (if j = k then map_option advance_node (hm_get (nodes s) j) else hm_get (nodes s) j)" for j
    by (simp add: hm_get_map_values option.map_ident)
  have w: "hm_wf ?m" "set (hm_keys ?m) = set (hm_keys (nodes s))"
    using Cons.prems(1) by (auto simp: hm_wf_map_values hm_keys_def image_iff case_prod_beta)
  have "map (\<lambda>j. node_action (the (hm_get ?m j))) ks = map (\<lambda>j. node_action (the (hm_get (nodes s) j))) ks"
    using Cons.prems(2) get by auto
  moreover have "map (\<lambda>(j, w). (j, if j \<in> set ks then advance_node w else w)) ?m
      = map (\<lambda>(j, w). (j, if j \<in> set (k # ks) then advance_node w else w)) (nodes s)"
    using Cons.prems(2) by auto
  ultimately show ?case
    using Cons.IH [of "s\<lparr>nodes := ?m\<rparr>" "acts @ node_action n"] Cons.prems w n m
    by (simp add: resort_node_eq del: map_map map_eq_conv)
qed

lemma resort_nodes_eq:
  assumes "nodes_wf (nodes s)"
  shows "resort_nodes s = (s\<lparr>nodes := map (\<lambda>(k, n). (k, advance_node n)) (nodes s)\<rparr>,
    concat (map (\<lambda>(k, n). node_action n) (nodes s)))"
proof -
  have w: "hm_wf (nodes s)" using assms by (simp add: nodes_wf_def)
  have "map (\<lambda>(k, n). (k, if k \<in> set (hm_keys (nodes s)) then advance_node n else n)) (nodes s)
      = map (\<lambda>(k, n). (k, advance_node n)) (nodes s)"
    by (intro map_cong refl) (auto simp: hm_keys_def rev_image_eqI)
  moreover have "map (\<lambda>k. node_action (the (hm_get (nodes s) k))) (hm_keys (nodes s)) = map (\<lambda>(k, n). node_action n) (nodes s)"
    using hm_get_in_set [OF w, THEN iffD2] by (auto simp: hm_keys_def)
  moreover have "distinct (hm_keys (nodes s))" using w by (simp add: hm_wf_def hm_keys_def)
  ultimately show ?thesis
    using fold_resort_node [OF w, of "hm_keys (nodes s)" "[]"] by (simp add: resort_nodes_def del: map_eq_conv)
qed

text \<open>The review of the nodes. A new node becomes one in preparation and a node being removed a
  deleted one, each with one action that says so; every other node stays as it is and causes no
  action. No node becomes ready by the review, nothing else of the scheduler changes, and a
  second review finds nothing to do.\<close>

theorem resort_nodes_correct:
  assumes "sched_wf s" and "resort_nodes s = (s', acts)"
  shows "(\<forall>k. hm_get (nodes s') k = map_option (\<lambda>n. n\<lparr>nd_state := (case nd_state n of
            NodeNew \<Rightarrow> NodePrepare | NodeRemoving \<Rightarrow> NodeDeleted | _ \<Rightarrow> nd_state n)\<rparr>) (hm_get (nodes s) k))
    \<and> set acts = {ChangeNodeStatus (nd_id n) NodePrepare | n. n \<in> set (hm_values (nodes s)) \<and> nd_state n = NodeNew}
        \<union> {ChangeNodeStatus (nd_id n) NodeDeleted | n. n \<in> set (hm_values (nodes s)) \<and> nd_state n = NodeRemoving}
    \<and> s' = s\<lparr>nodes := nodes s'\<rparr> \<and> resort_nodes s' = (s', [])"
proof -
  have w: "nodes_wf (nodes s)" using assms(1) by (simp add: sched_wf_def)
  have s': "s' = s\<lparr>nodes := map (\<lambda>(k, n). (k, advance_node n)) (nodes s)\<rparr>"
    and acts: "acts = concat (map (\<lambda>(k, n). node_action n) (nodes s))"
    using assms(2) resort_nodes_eq [OF w] by auto
  have w': "nodes_wf (nodes s')" using w by (auto simp: s' nodes_wf_def hm_wf_map_values advance_node_def)
  have "advance_node (advance_node n) = advance_node n" "node_action (advance_node n) = []" for n
    by (simp_all add: advance_node_def node_action_def advance_advance)
  then have again: "resort_nodes s' = (s', [])"
    unfolding resort_nodes_eq [OF w'] by (simp add: s' comp_def case_prod_beta)
  have na: "set (node_action n) = {a. (nd_state n = NodeNew \<and> a = ChangeNodeStatus (nd_id n) NodePrepare)
      \<or> (nd_state n = NodeRemoving \<and> a = ChangeNodeStatus (nd_id n) NodeDeleted)}" for n
    by (cases "nd_state n") (auto simp: node_action_def advance_def)
  have "set acts = (\<Union>n \<in> set (hm_values (nodes s)). set (node_action n))" by (auto simp: acts hm_values_def)
  then have "set acts = {ChangeNodeStatus (nd_id n) NodePrepare | n. n \<in> set (hm_values (nodes s)) \<and> nd_state n = NodeNew}
        \<union> {ChangeNodeStatus (nd_id n) NodeDeleted | n. n \<in> set (hm_values (nodes s)) \<and> nd_state n = NodeRemoving}"
    unfolding na by blast
  moreover have "hm_get (nodes s') k = map_option (\<lambda>n. n\<lparr>nd_state := (case nd_state n of
      NodeNew \<Rightarrow> NodePrepare | NodeRemoving \<Rightarrow> NodeDeleted | _ \<Rightarrow> nd_state n)\<rparr>) (hm_get (nodes s) k)" for k
    by (simp add: s' hm_get_map_values advance_node_def [abs_def] advance_def)
  moreover have "s' = s\<lparr>nodes := nodes s'\<rparr>" by (simp add: s')
  ultimately show ?thesis using again by blast
qed

theorem resort_nodes_correct_witness:
  "set (snd (resort_nodes (add_node ((demo_node ''ood2'')\<lparr>nd_state := NodeNew\<rparr>) (demo_sched 1))))
     = {ChangeNodeStatus ''ood2'' NodePrepare}"
proof -
  let ?s = "add_node ((demo_node ''ood2'')\<lparr>nd_state := NodeNew\<rparr>) (demo_sched 1)"
  have wf: "sched_wf ?s"
    by (auto simp: sched_wf_def nodes_wf_def specs_wf_def insts_wf_def hm_wf_def demo_sched_def demo_node_def
      demo_spec_def add_service_spec_def add_node_def new_empty_def hm_insert_def)
  have v: "hm_values (nodes ?s) = [demo_node ''ood1'', (demo_node ''ood2'')\<lparr>nd_state := NodeNew\<rparr>]"
    by (simp add: demo_sched_def demo_node_def add_service_spec_def add_node_def new_empty_def hm_insert_def hm_values_def)
  obtain s' acts where r: "resort_nodes ?s = (s', acts)" by fastforce
  define a b where "a = demo_node ''ood1''" and "b = (demo_node ''ood2'')\<lparr>nd_state := NodeNew\<rparr>"
  then have d: "nd_state a = NodeReady" "nd_state b = NodeNew" "nd_id b = ''ood2''" "hm_values (nodes ?s) = [a, b]"
    using v by (simp_all add: demo_node_def)
  have new: "n \<in> set [a, b] \<and> nd_state n = NodeNew \<longleftrightarrow> n = b" and gone: "\<not> (n \<in> set [a, b] \<and> nd_state n = NodeRemoving)" for n
    using d(1,2) by auto
  from resort_nodes_correct [OF wf r, THEN conjunct2, THEN conjunct1, unfolded d(4) new]
  have "set acts = {ChangeNodeStatus (nd_id b) NodePrepare}" using gone by blast
  then show ?thesis using d(3) by (simp add: r)
qed

section \<open>No overselling\<close>

text \<open>C3: no overselling. Whatever the services are and in whatever order they are looked at, the
  instances a round places on a node together need no more processor, memory and GPU memory than
  the node reported as available; each is placed on a ready node of a type that may run services,
  and the node has the container support, GPU rating and label the service asks for.\<close>

theorem no_oversell:
  assumes wf: "sched_wf s" and run: "schedule_spec_change rd clock s = (s', Inr acts)"
  shows "(\<forall>n \<in> set (ready_nodes s).
      (\<Sum>k \<leftarrow> placed (nd_id n) acts. unat (required_cpu_mhz (spec_of s k))) \<le> unat (available_cpu_mhz n)
    \<and> (\<Sum>k \<leftarrow> placed (nd_id n) acts. unat (required_memory (spec_of s k))) \<le> unat (available_memory n)
    \<and> (\<Sum>k \<leftarrow> placed (nd_id n) acts. unat (required_gpu_mem (spec_of s k))) \<le> unat (available_gpu_memory n)
    \<and> (\<forall>k \<in> set (placed (nd_id n) acts). (nd_type n = OOD \<or> nd_type n = Server)
         \<and> (need_container (spec_of s k) \<longrightarrow> support_container n) \<and> required_gpu_tflops (spec_of s k) \<le> gpu_tflops n
         \<and> (\<forall>l. node_affinity (spec_of s k) = Some l \<longrightarrow> l \<in> set (labels n))))
    \<and> (\<forall>i. InstanceReplica i \<in> set acts \<longrightarrow> (\<exists>n \<in> set (ready_nodes s). nd_id n = ri_node_id i))"
proof -
  have "distinct (hm_keys (specs s))" using wf by (simp add: sched_wf_def specs_wf_def hm_wf_def hm_keys_def)
  from spec_change_loop_correct [OF loop_inv_init [OF wf] this run [unfolded schedule_spec_change_def]]
  obtain shadow' where inv: "ledger_inv s shadow' acts" unfolding loop_inv_def by blast
  have fit: "all_fit node_fits take_resources n (map (spec_of s) (placed (nd_id n) acts))" if "n \<in> set (ready_nodes s)" for n
    using inv that by (simp add: ledger_inv_def)
  have fits: "node_fits n (spec_of s k)" if "n \<in> set (ready_nodes s)" "k \<in> set (placed (nd_id n) acts)" for n k
    using all_fit_fits [OF fit [OF that(1)]] that(2) by simp
  have "placed (ri_node_id i) acts \<noteq> []" if "InstanceReplica i \<in> set acts" for i
    using that by (induction acts) auto
  then have "ri_node_id i \<in> nd_id ` set (ready_nodes s)" if "InstanceReplica i \<in> set acts" for i
    using inv that by (simp add: ledger_inv_def)
  then have on: "\<exists>n \<in> set (ready_nodes s). nd_id n = ri_node_id i" if "InstanceReplica i \<in> set acts" for i
    using that by fastforce
  have b: "(\<Sum>k \<leftarrow> placed (nd_id n) acts. unat (required_cpu_mhz (spec_of s k))) \<le> unat (available_cpu_mhz n)
      \<and> (\<Sum>k \<leftarrow> placed (nd_id n) acts. unat (required_memory (spec_of s k))) \<le> unat (available_memory n)
      \<and> (\<Sum>k \<leftarrow> placed (nd_id n) acts. unat (required_gpu_mem (spec_of s k))) \<le> unat (available_gpu_memory n)"
    if "n \<in> set (ready_nodes s)" for n
    using cpu.ledger_bound [OF fit [OF that]] mem.ledger_bound [OF fit [OF that]] gpu.ledger_bound [OF fit [OF that]]
    by (simp add: comp_def)
  show ?thesis using b fits on unfolding node_fits_iff by blast
qed

theorem no_oversell_witness:
  "\<exists>s' acts. schedule_spec_change id demo_clock (demo_sched 2) = (s', Inr acts)
     \<and> placed ''ood1'' acts = [''chat'']
     \<and> (\<Sum>k \<leftarrow> placed ''ood1'' acts. unat (required_cpu_mhz (spec_of (demo_sched 2) k))) \<le> 40"
proof -
  obtain s' acts where r: "schedule_spec_change id demo_clock (demo_sched 2) = (s', Inr acts)"
    and a: "placed ''ood1'' acts = [''chat'']"
    using demo_run by (cases "schedule_spec_change id demo_clock (demo_sched 2)") auto
  have "demo_node ''ood1'' \<in> set (ready_nodes (demo_sched 2))"
    by (simp add: demo_sched_def demo_node_def add_service_spec_def add_node_def new_empty_def hm_insert_def hm_values_def ready_nodes_def)
  then have "(\<Sum>k \<leftarrow> placed (nd_id (demo_node ''ood1'')) acts. unat (required_cpu_mhz (spec_of (demo_sched 2) k)))
      \<le> unat (available_cpu_mhz (demo_node ''ood1''))"
    using no_oversell [OF demo_sched_wf r] by blast
  then show ?thesis using r a by (simp add: demo_node_def)
qed

section \<open>Placement\<close>

text \<open>C17: the placement of one service. If it has as many instances as it wants, the deleted ones not
  counted, nothing is placed. Otherwise, if every suitable node has an instance of it, the call
  fails; if not, as many instances are created as are missing, or one on each suitable node
  without an instance where there are fewer. Each of them is a running instance of the service on
  a suitable node: ready, an OOD or a server, with the container support and the label asked for,
  and with at least the processor, memory, GPU memory and GPU rating required. They run on
  different nodes, none of which has an instance already, so the service never has more instances
  than it wants, and some are created exactly if it has fewer; no node that was passed over scores higher than one that was chosen; and the
  shadow ledger is charged for exactly the chosen nodes.\<close>

theorem placement_correct:
  assumes ids: "distinct (map nd_id shadow)" and small: "length shadow < 2 ^ 32" "length (live_instances spec s) < 2 ^ 32"
  shows "case reconcile_spec_instances rd clock spec shadow s of
      Inl e \<Rightarrow> length (live_instances spec s) < unat (best_instance_count spec)
        \<and> (\<forall>n \<in> set shadow. suitable n spec \<longrightarrow> (\<exists>i \<in> set (live_instances spec s). ri_node_id i = nd_id n))
    | Inr (insts, shadow') \<Rightarrow>
        length insts = min (unat (best_instance_count spec) - length (live_instances spec s))
          (length (open_nodes spec s shadow))
        \<and> (insts = [] \<longleftrightarrow> unat (best_instance_count spec) \<le> length (live_instances spec s))
        \<and> length (live_instances spec s) + length insts
          \<le> max (unat (best_instance_count spec)) (length (live_instances spec s))
        \<and> distinct (map ri_node_id insts)
        \<and> (\<forall>i \<in> set insts. ri_spec_id i = sp_id spec \<and> ri_state i = InstRunning
             \<and> (\<exists>n \<in> set shadow. nd_id n = ri_node_id i \<and> suitable n spec)
             \<and> (\<forall>j \<in> set (live_instances spec s). ri_node_id i \<noteq> ri_node_id j))
        \<and> (\<forall>i \<in> set insts. \<forall>n \<in> set (open_nodes spec s shadow). \<forall>m \<in> set (open_nodes spec s shadow).
             nd_id n = ri_node_id i \<and> nd_id m \<notin> set (map ri_node_id insts) \<longrightarrow> score_node rd m spec \<le> score_node rd n spec)
        \<and> shadow' = map (\<lambda>n. if nd_id n \<in> set (map ri_node_id insts) then take_resources spec n else n) shadow"
proof (cases "satisfied spec s")
  case True
  then have "unat (best_instance_count spec) \<le> length (live_instances spec s)"
    using small(2) unat_of_nat_small [where 'a = 32] by (simp add: satisfied_def existing_live word_le_nat_alt)
  then show ?thesis using True by (simp add: reconcile_eq map_idI)
next
  case False
  let ?open = "open_nodes spec s shadow" and ?sp = "spec\<lparr>best_instance_count := missing spec s\<rparr>"
  have u: "unat (of_nat (length (live_instances spec s)) :: u32) = length (live_instances spec s)"
    using small(2) unat_of_nat_small [where 'a = 32] by simp
  then have less: "length (live_instances spec s) < unat (best_instance_count spec)"
    using False by (simp add: satisfied_def existing_live word_le_nat_alt)
  have miss: "unat (missing spec s) = unat (best_instance_count spec) - length (live_instances spec s)"
    using less u by (simp add: missing_def existing_live unat_sub word_le_nat_alt)
  show ?thesis
  proof (cases "?open = []")
    case True
    then have "\<forall>n. n \<notin> set ?open" by simp
    then show ?thesis using False True less unfolding open_nodes_iff
      by (auto simp: reconcile_eq existing_live node_fits_suitable)
  next
    case open_some: False
    let ?sel = "select_nodes rd ?sp ?open"
    obtain insts shadow' where r: "reconcile_spec_instances rd clock spec shadow s = Inr (insts, shadow')"
      and insts: "insts = map (new_instance clock ?sp (alloc_ports spec)) ?sel"
      using False open_some by (simp add: reconcile_eq Let_def)
    have "length ?open \<le> length shadow"
      unfolding open_nodes_def by (rule length_filter_le)
    then have len: "length insts = min (unat (missing spec s)) (length ?open)"
      using small(1) length_select_nodes [of ?open rd ?sp] by (simp add: insts)
    then have some: "insts \<noteq> []" using open_some miss less by (auto simp: min_def split: if_splits)
    have ids_insts: "map ri_node_id insts = map nd_id ?sel" by (simp add: insts comp_def)
    have "score_node rd m spec \<le> score_node rd n spec" if h: "i \<in> set insts" "n \<in> set ?open" "m \<in> set ?open"
        "nd_id n = ri_node_id i" "nd_id m \<notin> set (map ri_node_id insts)" for i n m
    proof -
      obtain c where c: "c \<in> set ?sel" "nd_id c = nd_id n" using h(1,4) by (auto simp: insts)
      have "c = n"
        using open_nodes_distinct [OF ids] c h(2) select_nodes_subset [of rd ?sp ?open, THEN subsetD, OF c(1)]
        by (simp add: distinct_map inj_on_def)
      moreover have "m \<notin> set ?sel" using h(5) ids_insts by auto
      ultimately show ?thesis using select_nodes_best [of n rd ?sp ?open m] c(1) h(3) by simp
    qed
    moreover have "ri_spec_id i = sp_id spec \<and> ri_state i = InstRunning
        \<and> (\<exists>n \<in> set shadow. nd_id n = ri_node_id i \<and> suitable n spec)
        \<and> (\<forall>j \<in> set (live_instances spec s). ri_node_id i \<noteq> ri_node_id j)" if "i \<in> set insts" for i
      using reconcile_Inr(2) [OF ids r that] by (auto simp: open_nodes_iff existing_live node_fits_suitable)
    ultimately show ?thesis
      using len miss less reconcile_Inr(1,3) [OF ids r] some
      unfolding r sum.case prod.case by (intro conjI ballI impI) auto
  qed
qed

theorem placement_correct_witness:
  "\<exists>insts shadow'. reconcile_spec_instances id demo_clock (demo_spec ''chat'' 3)
       [demo_node ''ood1'', demo_node ''ood2''] (demo_sched 3) = Inr (insts, shadow') \<and> length insts = 2"
proof -
  let ?sh = "[demo_node ''ood1'', demo_node ''ood2'']" and ?sp = "demo_spec ''chat'' 3"
  have d: "distinct (map nd_id ?sh)" by (simp add: demo_node_def)
  have ex: "live_instances ?sp (demo_sched 3) = []" by code_simp
  have op: "length (open_nodes ?sp (demo_sched 3) ?sh) = 2" by code_simp
  have "\<not> isl (reconcile_spec_instances id demo_clock ?sp ?sh (demo_sched 3))" by code_simp
  then obtain insts shadow' where r: "reconcile_spec_instances id demo_clock ?sp ?sh (demo_sched 3) = Inr (insts, shadow')"
    by (cases "reconcile_spec_instances id demo_clock ?sp ?sh (demo_sched 3)") auto
  have "length insts = min (unat (best_instance_count ?sp)) 2"
    using placement_correct [OF d, of ?sp "demo_sched 3" id demo_clock] by (simp add: ex op r)
  then show ?thesis using r by (simp add: demo_spec_def)
qed

section \<open>The life of a service\<close>

lemma specs_distinct: "sched_wf s \<Longrightarrow> distinct (hm_keys (specs s))"
  by (simp add: sched_wf_def specs_wf_def hm_wf_def hm_keys_def)

lemma schedule_spec_change_effect:
  assumes wf: "sched_wf s" and run: "schedule_spec_change rd clock s = (s', Inr acts)"
  shows "sched_wf s'" and "nodes s' = nodes s"
    and "hm_get (specs s) k = Some spec \<Longrightarrow> spec_effect (length (ready_nodes s)) k spec s s' acts"
    and "hm_get (specs s) k = None \<Longrightarrow> inst_list s' k = inst_list s k \<and> announced k acts = []"
proof -
  note c = spec_change_loop_correct [OF loop_inv_init [OF wf] specs_distinct [OF wf] run [unfolded schedule_spec_change_def]]
  show "sched_wf s'" "nodes s' = nodes s" using c by (auto simp: loop_inv_def)
  show "spec_effect (length (ready_nodes s)) k spec s s' acts" if "hm_get (specs s) k = Some spec"
  proof -
    have "k \<in> set (hm_keys (specs s))" using that hm_get_None [of "specs s" k] by auto
    then show ?thesis using c that by (auto simp: spec_of_def)
  qed
  show "inst_list s' k = inst_list s k \<and> announced k acts = []" if "hm_get (specs s) k = None"
    using c that by (simp add: hm_get_None)
qed

text \<open>C11: the life of a service. After a round that succeeded, a new service is deployed, with an
  action that says so, and no service is in another state than before otherwise. A new or deployed
  service has kept all instances that were not deleted, and every instance the actions create for
  it is recorded: its instances are those created, which run and have different ids, and those it
  had, unless a created one has taken the id of a deleted one. No more are created than it lacks,
  and at least one if it lacks any. A deleted service has no instance left, and for each it had
  there is an action to remove it. A disabled application has the instances it had, all of them
  stopped, with an action for each that was not. In these and all other states no instance is
  created; a service that failed to deploy, an abnormal one and a disabled one that is not an
  application keep their instances as they are, as do services the scheduler does not know. The
  nodes are untouched.\<close>

theorem service_lifecycle:
  assumes wf: "sched_wf s" and run: "schedule_spec_change rd clock s = (s', Inr acts)"
    and spec: "hm_get (specs s) k = Some spec"
    and small: "length (nodes s) < 2 ^ 32" "length (replica_instances s) < 2 ^ 32"
  shows "sched_wf s' \<and> nodes s' = nodes s
    \<and> hm_get (specs s') k = Some (if sp_state spec = SpecNew then spec\<lparr>sp_state := SpecDeployed\<rparr> else spec)
    \<and> (if sp_state spec \<in> {SpecNew, SpecDeployed} then
         let new = announced k acts; live = filter (\<lambda>i. ri_state i \<noteq> InstDeleted) (inst_list s k) in
           set (inst_list s' k) = set new \<union> {i \<in> set (inst_list s k). ri_instance_id i \<notin> ri_instance_id ` set new}
           \<and> set live \<subseteq> set (inst_list s' k)
           \<and> (\<forall>i \<in> set new. ri_state i = InstRunning) \<and> distinct (map ri_instance_id new)
           \<and> length live + length new \<le> max (length live) (unat (best_instance_count spec))
           \<and> (length live < unat (best_instance_count spec) \<longrightarrow> new \<noteq> [])
           \<and> (sp_state spec = SpecNew \<longrightarrow> ChangeServiceStatus k SpecDeployed \<in> set acts)
       else announced k acts = []
         \<and> (case sp_state spec of
              SpecDeleted \<Rightarrow> inst_list s' k = [] \<and> ChangeServiceStatus k SpecDeleted \<in> set acts
                \<and> (\<forall>i \<in> set (inst_list s k). RemoveInstance k (ri_instance_id i) (ri_node_id i) \<in> set acts)
            | SpecDisable \<Rightarrow>
                if is_app_like (sp_type spec)
                then inst_list s' k = map (\<lambda>i. if ri_state i = InstDeleted then i else i\<lparr>ri_state := InstSuspended\<rparr>) (inst_list s k)
                  \<and> (\<forall>i \<in> set (inst_list s k). ri_state i \<noteq> InstSuspended \<and> ri_state i \<noteq> InstDeleted
                       \<longrightarrow> UpdateInstance (ri_instance_id i) (i\<lparr>ri_state := InstSuspended\<rparr>) \<in> set acts)
                else inst_list s' k = inst_list s k
            | _ \<Rightarrow> inst_list s' k = inst_list s k))
    \<and> (\<forall>j. hm_get (specs s) j = None \<longrightarrow> inst_list s' j = inst_list s j \<and> announced j acts = [])"
proof -
  note e = schedule_spec_change_effect [OF wf run]
  have st: "(\<lambda>i. if stoppable i then suspended i else i) = (\<lambda>i. if ri_state i = InstDeleted then i else i\<lparr>ri_state := InstSuspended\<rparr>)"
    by (auto simp: stoppable_def suspended_def fun_eq_iff)
  have "length (ready_nodes s) < 2 ^ 32" "length (inst_list s k) < 2 ^ 32"
    using small le_less_trans [OF length_filter_le] by (simp_all add: ready_nodes_def inst_list_def hm_values_def)
  note eff = e(3) [OF spec, unfolded spec_effect_def st fills_def Let_def stoppable_def suspended_def] this
  show ?thesis
  proof (cases "sp_state spec \<in> {SpecNew, SpecDeployed}")
    case True
    then show ?thesis unfolding Let_def using e(1,2,4) eff by auto
  next
    case False
    then show ?thesis using e(1,2,4) eff by (cases "sp_state spec") auto
  qed
qed

theorem service_lifecycle_witness:
  "\<exists>s' acts. schedule_spec_change id demo_clock (demo_sched 2) = (s', Inr acts) \<and> sched_wf s'
     \<and> hm_get (specs s') ''chat'' = Some ((demo_spec ''chat'' 2)\<lparr>sp_state := SpecDeployed\<rparr>)
     \<and> announced ''chat'' acts \<noteq> [] \<and> set (announced ''chat'' acts) \<subseteq> set (inst_list s' ''chat'')"
proof -
  obtain s' acts where r: "schedule_spec_change id demo_clock (demo_sched 2) = (s', Inr acts)"
    using demo_run by (cases "schedule_spec_change id demo_clock (demo_sched 2)") auto
  have g: "hm_get (specs (demo_sched 2)) ''chat'' = Some (demo_spec ''chat'' 2)"
    by (simp add: demo_sched_def add_service_spec_def demo_spec_def hm_insert_def add_node_def new_empty_def hm_get_def)
  have small: "length (nodes (demo_sched 2)) < 2 ^ 32" "length (replica_instances (demo_sched 2)) < 2 ^ 32"
    "inst_list (demo_sched 2) ''chat'' = []"
    by (simp_all add: demo_sched_def add_service_spec_def hm_insert_def add_node_def new_empty_def inst_list_def hm_values_def)
  have sp: "sp_state (demo_spec ''chat'' 2) = SpecNew" "best_instance_count (demo_spec ''chat'' 2) = 2"
    by (simp_all add: demo_spec_def)
  from service_lifecycle [OF demo_sched_wf r g small(1,2)] r show ?thesis by (auto simp: sp small(3) Let_def)
qed

section \<open>Rounds that fail\<close>

text \<open>C32: one service can stop the scheduling of all. If a service that is new or deployed has fewer
  instances than it wants, and every node that fits it already has an instance of it, then a
  round in which services changed fails as a whole, whatever the other services are: no instance
  of any service is created, removed or stopped by it. The first round that places the service is
  content with fewer instances than wanted; later rounds are not.\<close>

theorem unplaceable_service_blocks_round:
  assumes wf: "sched_wf s" and spec: "hm_get (specs s) k = Some spec"
    and st: "sp_state spec = SpecNew \<or> sp_state spec = SpecDeployed"
    and few: "length (existing_instances spec s) < unat (best_instance_count spec)"
    and full: "\<forall>n \<in> set (hm_values (nodes s)). node_fits n spec
      \<longrightarrow> (\<exists>i \<in> set (existing_instances spec s). ri_node_id i = nd_id n)"
    and round: "nodes s \<noteq> []" "resort_nodes s = (s, [])" "is_spec_changed last_snapshot s"
  shows "\<exists>s' e. schedule rd clock last_snapshot s = (s', Inl e)"
proof -
  have sp: "spec_of s k = spec" using spec by (simp add: spec_of_def)
  have "length (existing_instances spec s) < 2 ^ 32"
    using few unat_u32_less [of "best_instance_count spec"] by simp
  then have miss: "\<not> satisfied spec s"
    using few unat_of_nat_small [where 'a = 32] by (simp add: satisfied_def word_le_nat_alt)
  have "n \<notin> set (open_nodes spec s (ready_nodes s))" for n
    using full by (auto simp: open_nodes_iff ready_nodes_def)
  then have none: "open_nodes spec s (ready_nodes s) = []" by (cases "open_nodes spec s (ready_nodes s)") auto
  have "k \<in> set (hm_keys (specs s))" using spec hm_get_None [of "specs s" k] by auto
  from spec_change_loop_blocked [OF loop_inv_init [OF wf] specs_distinct [OF wf] this, unfolded sp, OF st miss none]
  obtain s1 e where "schedule_spec_change rd clock s = (s1, Inl e)"
    unfolding schedule_spec_change_def by (metis prod.exhaust_sel)
  then show ?thesis using round by (simp add: schedule_def)
qed

text \<open>The service wants two instances and there is one node: the first round places one and succeeds;
  the next round in which a service changed fails.\<close>

theorem unplaceable_service_blocks_round_witness:
  "(\<exists>s1 acts. schedule_spec_change id demo_clock (demo_sched 2) = (s1, Inr acts)
     \<and> (\<exists>s' e. schedule id demo_clock None s1 = (s', Inl e)))"
proof -
  obtain s1 acts where r: "schedule_spec_change id demo_clock (demo_sched 2) = (s1, Inr acts)"
    using demo_run by (cases "schedule_spec_change id demo_clock (demo_sched 2)") auto
  have s1: "s1 = fst (schedule_spec_change id demo_clock (demo_sched 2))" by (simp add: r)
  let ?sp = "(demo_spec ''chat'' 2)\<lparr>sp_state := SpecDeployed\<rparr>"
  have g: "hm_get (specs (demo_sched 2)) ''chat'' = Some (demo_spec ''chat'' 2)"
    by (simp add: demo_sched_def add_service_spec_def demo_spec_def hm_insert_def add_node_def new_empty_def hm_get_def)
  note e = schedule_spec_change_effect [OF demo_sched_wf r]
  have spec: "hm_get (specs s1) ''chat'' = Some ?sp" using e(3) [OF g] by (simp add: spec_effect_def demo_spec_def)
  have ns: "nodes s1 = [(''ood1'', demo_node ''ood1'')]"
    using e(2) by (simp add: demo_sched_def add_service_spec_def demo_node_def hm_insert_def add_node_def new_empty_def)
  have ex: "map ri_node_id (existing_instances ?sp s1) = [''ood1'']" unfolding s1 by code_simp
  then have few: "length (existing_instances ?sp s1) < unat (best_instance_count ?sp)"
    by (simp add: map_eq_Cons_conv demo_spec_def) auto
  have full: "\<forall>n \<in> set (hm_values (nodes s1)). node_fits n ?sp \<longrightarrow> (\<exists>i \<in> set (existing_instances ?sp s1). ri_node_id i = nd_id n)"
    using ex by (auto simp: ns hm_values_def demo_node_def map_eq_Cons_conv)
  have round: "nodes s1 \<noteq> []" "resort_nodes s1 = (s1, [])" "is_spec_changed None s1"
    by (simp_all add: ns resort_nodes_def hm_keys_def resort_node_def hm_get_def demo_node_def is_spec_changed_def)
  from unplaceable_service_blocks_round [OF e(1) spec _ few full round] r show ?thesis by auto
qed

section \<open>Service information\<close>

lemma hm_insert_fresh: "k \<notin> set (hm_keys m) \<Longrightarrow> hm_insert k v m = m @ [(k, v)]"
  by (induction m) (auto simp: hm_insert_def hm_keys_def)

text \<open>The inverted index gives each service its instances.\<close>

lemma spec_instances_get:
  "hm_get (spec_instances s) k = (if inst_list s k = [] then None else Some (inst_list s k))"
proof -
  have "hm_get (fold index_instance is idx) k = (let new = filter (\<lambda>i. ri_spec_id i = k) is in
      if new = [] then hm_get idx k else Some (case_option [] id (hm_get idx k) @ new))" if "hm_wf idx" for "is" idx
    using that
  proof (induction "is" arbitrary: idx)
    case (Cons i "is")
    have w: "hm_wf (index_instance i idx)" using Cons.prems by (simp add: index_instance_def Let_def hm_simps)
    show ?case using Cons.IH [OF w] Cons.prems by (auto simp: index_instance_def Let_def hm_simps split: option.splits)
  qed simp
  from this [of "[]" "hm_values (replica_instances s)"] show ?thesis
    by (simp add: spec_instances_def inst_list_def hm_simps Let_def)
qed

definition fresh :: "u64 \<Rightarrow> replica_instance \<Rightarrow> bool" where
  "fresh now i \<longleftrightarrow> ri_state i = InstRunning \<and> now - last_update_time i < INSTANCE_ALIVE_TIME"

lemma fresh_iff:
  assumes "unat now < 2 ^ 63" and "unat (last_update_time i) < 2 ^ 63"
  shows "fresh now i \<longleftrightarrow> ri_state i = InstRunning \<and> unat (last_update_time i) \<le> unat now
    \<and> unat now < unat (last_update_time i) + 90"
proof (cases "last_update_time i \<le> now")
  case True
  then have "unat (now - last_update_time i) = unat now - unat (last_update_time i)" by (rule unat_sub)
  then show ?thesis using True by (auto simp: fresh_def INSTANCE_ALIVE_TIME_def word_less_nat_alt word_le_nat_alt)
next
  case False
  then have "unat now < unat (last_update_time i)" by (simp add: word_le_nat_alt)
  moreover have "unat (now - last_update_time i) = unat now + 2 ^ 64 - unat (last_update_time i)"
    using calculation unat_sub_if_size [of now "last_update_time i"] by (simp add: word_size)
  ultimately show ?thesis using assms by (auto simp: fresh_def INSTANCE_ALIVE_TIME_def word_less_nat_alt)
qed

fun info_instances :: "service_info \<Rightarrow> replica_instance set" where
  "info_instances (SingleInstance i) = {i}"
| "info_instances (RandomCluster m) = snd ` snd ` set m"

lemma fold_note_alive:
  assumes "distinct (hm_keys m @ map ri_instance_id is)"
  shows "fold (note_alive now) is m = m @ map (\<lambda>i. (ri_instance_id i, 100, i)) (filter (fresh now) is)"
  using assms
proof (induction "is" arbitrary: m)
  case (Cons i "is")
  show ?case
  proof (cases "fresh now i")
    case True
    then have "note_alive now i m = m @ [(ri_instance_id i, 100, i)]"
      using Cons.prems by (simp add: note_alive_def fresh_def hm_insert_fresh)
    then show ?thesis using Cons True by (simp add: hm_keys_def)
  next
    case False
    then have "note_alive now i m = m" by (auto simp: note_alive_def fresh_def)
    then show ?thesis using Cons False by (simp add: hm_keys_def)
  qed
qed simp

lemma inst_ids_distinct:
  assumes "sched_wf s"
  shows "distinct (map ri_instance_id (inst_list s k))"
proof -
  have w: "insts_wf (replica_instances s)" using assms by (simp add: sched_wf_def)
  have "map ri_instance_id (hm_values (replica_instances s)) = map fst (replica_instances s)"
    using w by (auto simp: insts_wf_def hm_values_def)
  then have "distinct (map ri_instance_id (hm_values (replica_instances s)))" using insts_wf_maps [OF w] by (simp add: hm_wf_def)
  then show ?thesis by (simp add: inst_list_def distinct_map_filter)
qed

lemma list_cases_two:
  obtains "xs = []" | x where "xs = [x]" | x y ys where "xs = x # y # ys"
  by (cases xs; cases "tl xs") auto

lemma calc_info_instances:
  assumes "sched_wf s"
  shows "info_instances (calc_info now (hm_get (spec_instances s) k)) = {i \<in> set (inst_list s k). fresh now i}"
proof -
  have d: "distinct (map ri_instance_id (inst_list s k))" using inst_ids_distinct [OF assms] .
  have "(case hm_get (spec_instances s) k of Some is \<Rightarrow> fold (note_alive now) is [] | None \<Rightarrow> [])
      = map (\<lambda>i. (ri_instance_id i, 100, i)) (filter (fresh now) (inst_list s k))"
    using fold_note_alive [of "[]" "inst_list s k" now] d by (simp add: spec_instances_get hm_keys_def)
  moreover have "info_instances (case map (\<lambda>i. (ri_instance_id i, 100 :: u32, i)) is of [(_, _, inst)] \<Rightarrow> SingleInstance inst
      | _ \<Rightarrow> RandomCluster (map (\<lambda>i. (ri_instance_id i, 100, i)) is)) = set is" for "is"
    by (auto simp: image_iff split: list.splits)
  ultimately show ?thesis by (simp add: calc_info_def Let_def)
qed

text \<open>One instance is published alone, any other number as a cluster with equal weights.\<close>

lemma calc_info_shape:
  assumes "sched_wf s"
  shows "case calc_info now (hm_get (spec_instances s) k) of
      SingleInstance i \<Rightarrow> True
    | RandomCluster m \<Rightarrow> (\<forall>i. snd ` snd ` set m \<noteq> {i}) \<and> (\<forall>(id, w, i) \<in> set m. id = ri_instance_id i \<and> w = 100)"
proof -
  let ?is = "filter (fresh now) (inst_list s k)"
  have d: "distinct (map ri_instance_id (inst_list s k))" using inst_ids_distinct [OF assms] .
  have m: "(case hm_get (spec_instances s) k of Some is \<Rightarrow> fold (note_alive now) is [] | None \<Rightarrow> [])
      = map (\<lambda>i. (ri_instance_id i, 100, i)) ?is"
    using fold_note_alive [of "[]" "inst_list s k" now] d by (simp add: spec_instances_get hm_keys_def)
  have dis: "distinct ?is" using d by (auto simp: distinct_map)
  have "set ?is \<noteq> {i}" if "length ?is \<noteq> 1" for i
    using that distinct_card [OF dis] by auto
  then show ?thesis
    by (cases ?is rule: list_cases_two) (auto simp: calc_info_def Let_def m image_image image_iff)
qed

text \<open>What one service contributes: the information and time to record, and the actions. It does not
  depend on the services looked at before.\<close>

definition published :: "node_scheduler option \<Rightarrow> string \<Rightarrow> service_info option" where
  "published last_snapshot k = (case last_snapshot of None \<Rightarrow> None | Some l \<Rightarrow> hm_get (service_infos l) k)"

definition info_decision :: "u64 \<Rightarrow> node_scheduler option \<Rightarrow> service_info \<Rightarrow> string
    \<Rightarrow> service_info \<times> u64 \<times> scheduler_action list" where
  "info_decision now last_snapshot info k =
     (case published last_snapshot k of
        None \<Rightarrow> (info, now, [UpdateServiceInfo k info])
      | Some old \<Rightarrow>
          if service_info_eq old info then (info, old_refresh_time last_snapshot k, [])
          else if unat now < unat (old_refresh_time last_snapshot k) + 30
          then (old, old_refresh_time last_snapshot k, [])
          else (info, now, [UpdateServiceInfo k info]))"

lemma calc_service_info_eq:
  "calc_service_info now last_snapshot idx k (s, acts) =
     (case info_decision now last_snapshot (calc_info now (hm_get idx k)) k of (info, t, as) \<Rightarrow>
        (s\<lparr>service_infos := hm_insert k info (service_infos s),
           service_info_refresh_times := hm_insert k t (service_info_refresh_times s)\<rparr>, acts @ as))"
  by (auto simp: calc_service_info_def Let_def info_decision_def published_def SERVICE_INFO_REFRESH_INTERVAL_def
      word_less_nat_alt unat_saturating_sub less_diff_conv2 split: option.splits)

lemma fold_calc_service_info:
  assumes "distinct ks" and "hm_wf (service_infos s)" and "hm_wf (service_info_refresh_times s)"
    and "fold (calc_service_info now last_snapshot idx) ks (s, acts) = (s', acts')"
  shows "acts' = acts @ concat (map (\<lambda>k. snd (snd (info_decision now last_snapshot (calc_info now (hm_get idx k)) k))) ks)
    \<and> (\<forall>k. hm_get (service_infos s') k = (if k \<in> set ks
        then Some (fst (info_decision now last_snapshot (calc_info now (hm_get idx k)) k)) else hm_get (service_infos s) k))
    \<and> (\<forall>k. hm_get (service_info_refresh_times s') k = (if k \<in> set ks
        then Some (fst (snd (info_decision now last_snapshot (calc_info now (hm_get idx k)) k)))
        else hm_get (service_info_refresh_times s) k))
    \<and> replica_instances s' = replica_instances s"
  using assms
proof (induction ks arbitrary: s acts)
  case (Cons k ks)
  obtain info t as where d: "info_decision now last_snapshot (calc_info now (hm_get idx k)) k = (info, t, as)"
    by (cases "info_decision now last_snapshot (calc_info now (hm_get idx k)) k")
  let ?s = "s\<lparr>service_infos := hm_insert k info (service_infos s),
    service_info_refresh_times := hm_insert k t (service_info_refresh_times s)\<rparr>"
  have f: "fold (calc_service_info now last_snapshot idx) ks (?s, acts @ as) = (s', acts')"
    using Cons.prems(4) by (simp add: calc_service_info_eq d)
  have k: "distinct ks" "k \<notin> set ks" "hm_wf (service_infos ?s)" "hm_wf (service_info_refresh_times ?s)"
    using Cons.prems(1-3) by (simp_all add: hm_simps)
  from Cons.IH [OF k(1) k(3,4) f] show ?case using k(2) d Cons.prems(2,3) by (simp add: hm_simps)
qed simp

text \<open>C31: service information. For every service the scheduler knows, whatever its state, the
  information it computes consists of exactly its running instances with a proof of life less than
  90 seconds old; one whose time stamp lies in the future of the scheduler's clock is left out. A
  single instance is published as such, any other number as a cluster in which all have the weight
  100. An update is issued exactly when the service had no information before, or when the
  information differs from the last one and that one is at least 30 seconds old; what is recorded
  for the next round is what was last published, and when. A service that is abnormal is no exception, although the
  comment on that state says that no information is built for it.\<close>

theorem service_info_correct:
  assumes wf: "sched_wf s" and infos: "hm_wf (service_infos s)" "hm_wf (service_info_refresh_times s)"
    and times: "unat now < 2 ^ 63" "\<forall>i \<in> set (hm_values (replica_instances s)). unat (last_update_time i) < 2 ^ 63"
    and run: "calc_service_infos now last_snapshot s = (s', acts)" and k: "hm_get (specs s) k = Some spec"
  shows "\<exists>info. info_instances info = {i \<in> set (inst_list s k). ri_state i = InstRunning
        \<and> unat (last_update_time i) \<le> unat now \<and> unat now < unat (last_update_time i) + 90}
    \<and> (case info of
         SingleInstance i \<Rightarrow> True
       | RandomCluster m \<Rightarrow> (\<forall>i. snd ` snd ` set m \<noteq> {i}) \<and> (\<forall>(id, w, i) \<in> set m. id = ri_instance_id i \<and> w = 100))
    \<and> (case published last_snapshot k of
         None \<Rightarrow> UpdateServiceInfo k info \<in> set acts \<and> hm_get (service_infos s') k = Some info
           \<and> hm_get (service_info_refresh_times s') k = Some now
       | Some old \<Rightarrow>
           if service_info_eq old info \<or> unat now < unat (old_refresh_time last_snapshot k) + 30
           then (\<forall>i. UpdateServiceInfo k i \<notin> set acts)
             \<and> hm_get (service_infos s') k = Some (if service_info_eq old info then info else old)
             \<and> hm_get (service_info_refresh_times s') k = Some (old_refresh_time last_snapshot k)
           else UpdateServiceInfo k info \<in> set acts \<and> hm_get (service_infos s') k = Some info
             \<and> hm_get (service_info_refresh_times s') k = Some now)"
proof -
  let ?info = "\<lambda>j. calc_info now (hm_get (spec_instances s) j)"
  have kk: "k \<in> set (hm_keys (specs s))" using k hm_get_None [of "specs s" k] by auto
  note f = fold_calc_service_info [OF specs_distinct [OF wf] infos run [unfolded calc_service_infos_def]]
  have "fresh now i \<longleftrightarrow> ri_state i = InstRunning \<and> unat (last_update_time i) \<le> unat now
      \<and> unat now < unat (last_update_time i) + 90" if "i \<in> set (inst_list s k)" for i
    using that times by (intro fresh_iff) (simp_all add: inst_list_def)
  then have "{i \<in> set (inst_list s k). fresh now i} = {i \<in> set (inst_list s k). ri_state i = InstRunning
      \<and> unat (last_update_time i) \<le> unat now \<and> unat now < unat (last_update_time i) + 90}" by blast
  then have alive: "info_instances (?info k) = {i \<in> set (inst_list s k). ri_state i = InstRunning
      \<and> unat (last_update_time i) \<le> unat now \<and> unat now < unat (last_update_time i) + 90}"
    using calc_info_instances [OF wf] by simp
  have own: "UpdateServiceInfo k i \<in> set acts \<longleftrightarrow> UpdateServiceInfo k i \<in> set (snd (snd (info_decision now last_snapshot (?info k) k)))" for i
  proof -
    have "UpdateServiceInfo k i \<notin> set (snd (snd (info_decision now last_snapshot (?info j) j)))" if "j \<noteq> k" for j
      using that by (auto simp: info_decision_def split: option.splits)
    note other = this
    have a: "acts = concat (map (\<lambda>j. snd (snd (info_decision now last_snapshot (?info j) j))) (hm_keys (specs s)))"
      using f by simp
    show ?thesis
    proof
      assume "UpdateServiceInfo k i \<in> set acts"
      then obtain x where "UpdateServiceInfo k i \<in> set (snd (snd (info_decision now last_snapshot (?info x) x)))"
        unfolding a by auto
      then show "UpdateServiceInfo k i \<in> set (snd (snd (info_decision now last_snapshot (?info k) k)))"
        using other by (cases "x = k") auto
    next
      assume "UpdateServiceInfo k i \<in> set (snd (snd (info_decision now last_snapshot (?info k) k)))"
      then show "UpdateServiceInfo k i \<in> set acts" unfolding a using kk by auto
    qed
  qed
  have "hm_get (service_infos s') k = Some (fst (info_decision now last_snapshot (?info k) k))"
    "hm_get (service_info_refresh_times s') k = Some (fst (snd (info_decision now last_snapshot (?info k) k)))"
    using f kk by simp_all
  then show ?thesis
    using own alive calc_info_shape [OF wf, of now k]
    by (intro exI [of _ "?info k"] conjI) (auto simp: info_decision_def split: option.splits)
qed

theorem service_info_correct_witness:
  "\<exists>s' acts info. calc_service_infos 100 None (fst (schedule_spec_change id demo_clock (demo_sched 2))) = (s', acts)
     \<and> UpdateServiceInfo ''chat'' info \<in> set acts \<and> info_instances info \<noteq> {}"
proof -
  obtain s1 acts1 where r: "schedule_spec_change id demo_clock (demo_sched 2) = (s1, Inr acts1)"
    using demo_run by (cases "schedule_spec_change id demo_clock (demo_sched 2)") auto
  have s1: "s1 = fst (schedule_spec_change id demo_clock (demo_sched 2))" by (simp add: r)
  have g: "hm_get (specs (demo_sched 2)) ''chat'' = Some (demo_spec ''chat'' 2)"
    by (simp add: demo_sched_def add_service_spec_def demo_spec_def hm_insert_def add_node_def new_empty_def hm_get_def)
  note e = schedule_spec_change_effect [OF demo_sched_wf r]
  have spec: "hm_get (specs s1) ''chat'' = Some ((demo_spec ''chat'' 2)\<lparr>sp_state := SpecDeployed\<rparr>)"
    using e(3) [OF g] by (simp add: spec_effect_def demo_spec_def)
  have v: "map (\<lambda>i. (ri_state i, last_update_time i)) (inst_list s1 ''chat'') = [(InstRunning, 100)]"
    "map last_update_time (hm_values (replica_instances s1)) = [100]" "length (service_infos s1) = 0" "length (service_info_refresh_times s1) = 0"
    unfolding s1 by code_simp+
  then have infos: "hm_wf (service_infos s1)" "hm_wf (service_info_refresh_times s1)" and t: "\<forall>i \<in> set (hm_values (replica_instances s1)). unat (last_update_time i) < 2 ^ 63"
    by (auto simp: hm_wf_def map_eq_Cons_conv)
  obtain i where i: "i \<in> set (inst_list s1 ''chat'')" "ri_state i = InstRunning" "last_update_time i = 100"
    using v(1) by (auto simp: map_eq_Cons_conv)
  obtain s' acts where c: "calc_service_infos 100 None s1 = (s', acts)" by fastforce
  from service_info_correct [OF e(1) infos _ t c spec]
  obtain info where "UpdateServiceInfo ''chat'' info \<in> set acts" "info_instances info = {i \<in> set (inst_list s1 ''chat'').
      ri_state i = InstRunning \<and> unat (last_update_time i) \<le> unat (100 :: u64) \<and> unat (100 :: u64) < unat (last_update_time i) + 90}"
    by (auto simp: published_def)
  then show ?thesis using c i unfolding s1 [symmetric] by (intro exI [of _ s'] exI [of _ acts] exI [of _ info]) auto
qed

section \<open>Identifiers and state names\<close>

text \<open>Round trips. The states of nodes, services and instances survive being written and read
  as text, and a service state that can be stored in the configuration is read back as it was. An
  instance id made from a service id and a node id is taken apart into the application, the owner
  and the node, where the service id is \<open>app@owner\<close> or, for services of the system, has no owner;
  a service id of either kind is taken apart likewise.\<close>

theorem identifiers_roundtrip:
  "node_state_from (node_state_display nst) = nst \<and> spec_state_from (spec_state_display sst) = sst
   \<and> instance_state_from (instance_state_to_string ist) = ist
   \<and> (\<forall>c. to_config_state sst = Inr c \<longrightarrow> spec_state_of_config c = sst)
   \<and> (\<forall>spec app owner node. CHR ''@'' \<notin> set app \<and> CHR ''@'' \<notin> set owner \<and> CHR ''@'' \<notin> set node \<longrightarrow>
        (sp_id spec = app @ ''@'' @ owner \<longrightarrow>
           parse_instance_id (create_replica_instance_id spec node) = Inr (app, owner, node)
           \<and> parse_spec_id (sp_id spec) = Inr (app, owner))
        \<and> (sp_id spec = app \<longrightarrow>
           parse_instance_id (create_replica_instance_id spec node) = Inr (app, ''root'', node)
           \<and> parse_spec_id (sp_id spec) = Inr (app, ''root'')))"
proof -
  have "node_state_from (node_state_display nst) = nst" by (cases nst) (simp_all add: node_state_from_def)
  moreover have "spec_state_from (spec_state_display sst) = sst" by (cases sst) (simp_all add: spec_state_from_def)
  moreover have "instance_state_from ''prepare'' = InstPrepare" "instance_state_from ''running'' = InstRunning"
    "instance_state_from ''suspended'' = InstSuspended" "instance_state_from ''deleted'' = InstDeleted"
    by code_simp+
  then have "instance_state_from (instance_state_to_string ist) = ist" by (cases ist) simp_all
  moreover have "spec_state_of_config c = sst" if "to_config_state sst = Inr c" for c using that by (cases sst) auto
  moreover have "split_on CHR ''@'' (a @ CHR ''@'' # b) = a # split_on CHR ''@'' b" if "CHR ''@'' \<notin> set a" for a b
    using that by (simp add: split_on_append_sep split_on_no_sep)
  ultimately show ?thesis
    by (auto simp: parse_instance_id_def parse_spec_id_def create_replica_instance_id_def split_on_no_sep)
qed

theorem identifiers_roundtrip_witness:
  "parse_instance_id (create_replica_instance_id (demo_spec ''chat@bob'' 1) ''ood1'') = Inr (''chat'', ''bob'', ''ood1'')
   \<and> parse_instance_id (create_replica_instance_id (demo_spec ''kmsg'' 1) ''ood1'') = Inr (''kmsg'', ''root'', ''ood1'')"
proof -
  note r = identifiers_roundtrip [THEN conjunct2, THEN conjunct2, THEN conjunct2, THEN conjunct2, rule_format]
  have "sp_id (demo_spec ''chat@bob'' 1) = ''chat'' @ ''@'' @ ''bob''" "sp_id (demo_spec ''kmsg'' 1) = ''kmsg''"
    by (simp_all add: demo_spec_def)
  then show ?thesis
    using r [of "''chat''" "''bob''" "''ood1''" "demo_spec ''chat@bob'' 1"] r [of "''kmsg''" "[]" "''ood1''" "demo_spec ''kmsg'' 1"]
    by simp
qed

end
