(* ===== verification/Msg_Queue.thy ===== *)
theory Msg_Queue
  imports Prelude "HOL-Library.List_Lexorder"
begin

text \<open>
  The message queue service, \<open>kmsg/src/sled_msg_queue.rs\<close>, with the types and the naming rules
  of \<open>buckyos-api/src/msg_queue.rs\<close>. Queues, their counters, their messages and the
  subscriptions are entries of five trees of an embedded ordered key-value store.

  The store (the crate \<open>sled\<close>) and the JSON encoding (\<open>serde_json\<close>) are not part of the
  repository. They are the parameter \<open>kmsg_env\<close> of every operation; what the operations rely
  on is stated by \<open>sled_laws\<close> and \<open>codec_laws\<close> in the theory of their correctness. The
  type variable \<open>'t\<close> is the content of a tree.
\<close>

section \<open>Queues and messages\<close>

record message =
  msg_index :: u64
  msg_created_at :: u64
  msg_payload :: bytes
  msg_headers :: "(string, string) hmap"

definition new_message :: "bytes \<Rightarrow> message" where
  "new_message payload = \<lparr>msg_index = 0, msg_created_at = 0, msg_payload = payload, msg_headers = []\<rparr>"

record queue_config =
  max_messages :: "u64 option"
  retention_seconds :: "u64 option"
  sync_write :: bool
  other_app_can_read :: bool
  other_app_can_write :: bool
  other_user_can_read :: bool
  other_user_can_write :: bool

definition default_queue_config :: queue_config where
  "default_queue_config = \<lparr>max_messages = None, retention_seconds = None, sync_write = False,
     other_app_can_read = True, other_app_can_write = False,
     other_user_can_read = False, other_user_can_write = False\<rparr>"

record queue_stats =
  st_message_count :: u64
  st_first_index :: u64
  st_last_index :: u64
  st_size_bytes :: u64

datatype sub_position = Earliest | Latest | At u64

record queue_meta =
  next_index :: u64
  message_count :: u64
  first_index :: u64
  last_index :: u64
  size_bytes :: u64

record subscription_state =
  sub_queue_urn :: string
  cursor :: u64

text \<open>The errors of the service. \<open>Panic\<close> is a Rust panic, which ends the request.\<close>

datatype rpc_errors =
  ReasonError string | ParseRequestError string | ParserResponseError string
| UnknownMethod string | Panic string

section \<open>Names\<close>

definition starts_with :: "string \<Rightarrow> string \<Rightarrow> bool" where
  "starts_with s p = prefix p s"

definition contains :: "string \<Rightarrow> string \<Rightarrow> bool" where
  "contains s p = sublist p s"

definition calc_queue_urn :: "string \<Rightarrow> string \<Rightarrow> string \<Rightarrow> string" where
  "calc_queue_urn appid app_owner name =
     (let normalized = trim name in
      if starts_with normalized ''/'' \<or> contains normalized ''::'' then normalized
      else appid @ ''::'' @ app_owner @ ''::'' @ normalized)"

text \<open>\<open>urn.split("::")\<close>: the pieces between the leftmost non-overlapping separators.\<close>

fun split_colons :: "string \<Rightarrow> string list" where
  "split_colons [] = [[]]"
| "split_colons [x] = [[x]]"
| "split_colons (x # y # xs) =
     (if x = CHR '':'' \<and> y = CHR '':'' then [] # split_colons xs
      else (case split_colons (y # xs) of [] \<Rightarrow> [[x]] | p # ps \<Rightarrow> (x # p) # ps))"

definition parse_queue_urn :: "string \<Rightarrow> (string \<times> string \<times> string) option" where
  "parse_queue_urn urn =
     (case split_colons urn of [a, b, c] \<Rightarrow> Some (a, b, c) | _ \<Rightarrow> None)"

section \<open>Keys\<close>

definition as_bytes :: "string \<Rightarrow> bytes" where
  "as_bytes s = map of_char s"

definition to_be_bytes :: "u64 \<Rightarrow> bytes" where
  "to_be_bytes w = map (\<lambda>i. ucast (drop_bit (8 * i) w)) [7, 6, 5, 4, 3, 2, 1, 0]"

definition from_be_bytes :: "bytes \<Rightarrow> u64" where
  "from_be_bytes bs = foldl (\<lambda>acc b. acc * 256 + ucast b) 0 bs"

definition queue_key :: "string \<Rightarrow> bytes" where
  "queue_key queue_urn = as_bytes queue_urn"

definition message_prefix :: "string \<Rightarrow> bytes" where
  "message_prefix queue_urn = as_bytes queue_urn @ [0]"

definition message_key :: "string \<Rightarrow> u64 \<Rightarrow> bytes" where
  "message_key queue_urn i = message_prefix queue_urn @ to_be_bytes i"

definition decode_index_from_key :: "bytes \<Rightarrow> u64 option" where
  "decode_index_from_key key =
     (if length key < 8 then None else Some (from_be_bytes (drop (length key - 8) key)))"

section \<open>The store and the encoding\<close>

text \<open>\<open>ConflictableTransactionError\<close>: what ends the closure of a transaction.\<close>

datatype tx_error = Abort rpc_errors | Storage string

record 't kmsg_env =
  sl_get :: "'t \<Rightarrow> bytes \<Rightarrow> (string, bytes option) result"
  sl_insert :: "'t \<Rightarrow> bytes \<Rightarrow> bytes \<Rightarrow> (string, 't) result"
  sl_remove :: "'t \<Rightarrow> bytes \<Rightarrow> (string, 't \<times> bytes option) result"
  sl_cas :: "'t \<Rightarrow> bytes \<Rightarrow> bytes option \<Rightarrow> bytes option \<Rightarrow> (string, 't \<times> bool) result"
  sl_range :: "'t \<Rightarrow> bytes \<Rightarrow> bytes \<Rightarrow> (string, bytes \<times> bytes) result list"
  sl_range_incl :: "'t \<Rightarrow> bytes \<Rightarrow> bytes \<Rightarrow> (string, bytes \<times> bytes) result list"
  sl_scan_prefix :: "'t \<Rightarrow> bytes \<Rightarrow> (string, bytes \<times> bytes) result list"
  sl_iter :: "'t \<Rightarrow> (string, bytes \<times> bytes) result list"
  sl_transaction :: "('t \<times> 't \<Rightarrow> (tx_error, ('t \<times> 't) \<times> u64) result) \<Rightarrow> 't \<times> 't
     \<Rightarrow> (tx_error, ('t \<times> 't) \<times> u64) result"
  sl_flush :: "'t list \<Rightarrow> (string, unit) result"
  ser_config :: "queue_config \<Rightarrow> (string, bytes) result"
  de_config :: "bytes \<Rightarrow> (string, queue_config) result"
  ser_meta :: "queue_meta \<Rightarrow> (string, bytes) result"
  de_meta :: "bytes \<Rightarrow> (string, queue_meta) result"
  ser_message :: "message \<Rightarrow> (string, bytes) result"
  de_message :: "bytes \<Rightarrow> (string, message) result"
  ser_sub :: "subscription_state \<Rightarrow> (string, bytes) result"
  de_sub :: "bytes \<Rightarrow> (string, subscription_state) result"

record 't sled_msg_queue =
  queues :: 't
  queue_metas :: 't
  messages :: 't
  subs :: 't
  meta :: 't

type_synonym ('t, 'a) kmsg = "('t sled_msg_queue, rpc_errors, 'a) state_result"

text \<open>The calls of the store on one tree of the service, with \<open>map_err(ReasonError)\<close>.\<close>

definition get_from :: "'t kmsg_env \<Rightarrow> ('t sled_msg_queue \<Rightarrow> 't) \<Rightarrow> bytes \<Rightarrow> ('t, bytes option) kmsg" where
  "get_from env tree key = (\<lambda>st. (st, map_err ReasonError (sl_get env (tree st) key)))"

definition insert_into :: "'t kmsg_env \<Rightarrow> ('t sled_msg_queue \<Rightarrow> 't)
  \<Rightarrow> (('t \<Rightarrow> 't) \<Rightarrow> 't sled_msg_queue \<Rightarrow> 't sled_msg_queue) \<Rightarrow> bytes \<Rightarrow> bytes \<Rightarrow> ('t, unit) kmsg" where
  "insert_into env tree upd key value = (\<lambda>st.
     case sl_insert env (tree st) key value of
       Inl e \<Rightarrow> (st, Inl (ReasonError e))
     | Inr t \<Rightarrow> (upd (\<lambda>_. t) st, Inr ()))"

definition remove_from :: "'t kmsg_env \<Rightarrow> ('t sled_msg_queue \<Rightarrow> 't)
  \<Rightarrow> (('t \<Rightarrow> 't) \<Rightarrow> 't sled_msg_queue \<Rightarrow> 't sled_msg_queue) \<Rightarrow> bytes \<Rightarrow> ('t, bytes option) kmsg" where
  "remove_from env tree upd key = (\<lambda>st.
     case sl_remove env (tree st) key of
       Inl e \<Rightarrow> (st, Inl (ReasonError e))
     | Inr (t, old) \<Rightarrow> (upd (\<lambda>_. t) st, Inr old))"

text \<open>\<open>for key in keys { let _ = tree.remove(key); }\<close>\<close>

definition remove_all_from :: "'t kmsg_env \<Rightarrow> ('t sled_msg_queue \<Rightarrow> 't)
  \<Rightarrow> (('t \<Rightarrow> 't) \<Rightarrow> 't sled_msg_queue \<Rightarrow> 't sled_msg_queue) \<Rightarrow> bytes list \<Rightarrow> ('t, unit) kmsg" where
  "remove_all_from env tree upd keys = (\<lambda>st.
     (foldl (\<lambda>st key. fst (remove_from env tree upd key st)) st keys, Inr ()))"

definition flush :: "'t kmsg_env \<Rightarrow> ('t, unit) kmsg" where
  "flush env = (\<lambda>st. (st, map_err ReasonError
     (sl_flush env [queues st, queue_metas st, messages st, subs st, meta st])))"

definition sync_if :: "'t kmsg_env \<Rightarrow> queue_config \<Rightarrow> ('t, unit) kmsg" where
  "sync_if env config = (if sync_write config then flush env else sr_return ())"

definition decode_queue_config :: "'t kmsg_env \<Rightarrow> bytes \<Rightarrow> (rpc_errors, queue_config) result" where
  "decode_queue_config env value =
     map_err (\<lambda>err. ReasonError (''Failed to decode queue config: '' @ err)) (de_config env value)"

definition decode_queue_meta :: "'t kmsg_env \<Rightarrow> bytes \<Rightarrow> (rpc_errors, queue_meta) result" where
  "decode_queue_meta env value =
     map_err (\<lambda>err. ReasonError (''Failed to decode queue meta: '' @ err)) (de_meta env value)"

definition encode_queue_meta :: "'t kmsg_env \<Rightarrow> queue_meta \<Rightarrow> (rpc_errors, bytes) result" where
  "encode_queue_meta env m =
     map_err (\<lambda>err. ReasonError (''Failed to encode queue meta: '' @ err)) (ser_meta env m)"

definition decode_message :: "'t kmsg_env \<Rightarrow> bytes \<Rightarrow> (rpc_errors, message) result" where
  "decode_message env value =
     map_err (\<lambda>err. ReasonError (''Failed to decode message: '' @ err)) (de_message env value)"

section \<open>Identifiers\<close>

text \<open>\<open>buf.copy_from_slice\<close> panics unless the stored value has eight bytes.\<close>

definition counter_value :: "bytes option \<Rightarrow> u64 option" where
  "counter_value current =
     (case current of
        None \<Rightarrow> Some 0
      | Some bs \<Rightarrow> if length bs = 8 then Some (from_be_bytes bs) else None)"

text \<open>The loop of \<open>next_id\<close>, which may in principle never end: \<open>None\<close> is a loop that does not
  return. \<open>interf n\<close> is what the other requests do to the tree between the read and the swap of
  turn \<open>n\<close>.\<close>

partial_function (option) next_id_loop ::
  "'t kmsg_env \<Rightarrow> (nat \<Rightarrow> 't \<Rightarrow> 't) \<Rightarrow> bytes \<Rightarrow> nat \<Rightarrow> 't \<Rightarrow> ('t \<times> (rpc_errors, u64) result) option" where
  [code]: "next_id_loop env interf key n t =
     (case sl_get env t key of
        Inl e \<Rightarrow> Some (t, Inl (ReasonError e))
      | Inr current \<Rightarrow>
          (case counter_value current of
             None \<Rightarrow> Some (t, Inl (Panic ''copy_from_slice''))
           | Some v \<Rightarrow>
               (case sl_cas env (interf n t) key current (Some (to_be_bytes (v + 1))) of
                  Inl e \<Rightarrow> Some (interf n t, Inl (ReasonError e))
                | Inr (t', ok) \<Rightarrow>
                    if ok then Some (t', Inr (v + 1))
                    else next_id_loop env interf key (Suc n) t')))"

definition next_id :: "'t kmsg_env \<Rightarrow> (nat \<Rightarrow> 't \<Rightarrow> 't) \<Rightarrow> string \<Rightarrow> 't sled_msg_queue
  \<Rightarrow> ('t sled_msg_queue \<times> (rpc_errors, u64) result) option" where
  "next_id env interf key st =
     map_option (\<lambda>(t, r). (st\<lparr>meta := t\<rparr>, r)) (next_id_loop env interf (as_bytes key) 0 (meta st))"

section \<open>Queues\<close>

definition get_queue_meta :: "'t kmsg_env \<Rightarrow> string \<Rightarrow> ('t, queue_meta) kmsg" where
  "get_queue_meta env queue_urn =
     sr_bind (get_from env queue_metas (queue_key queue_urn)) (\<lambda>m.
       case m of
         None \<Rightarrow> sr_throw (ReasonError (''Queue not found: '' @ queue_urn))
       | Some value \<Rightarrow> sr_lift (decode_queue_meta env value))"

definition get_queue_config :: "'t kmsg_env \<Rightarrow> string \<Rightarrow> ('t, queue_config) kmsg" where
  "get_queue_config env queue_urn =
     sr_bind (get_from env queues (queue_key queue_urn)) (\<lambda>c.
       case c of
         None \<Rightarrow> sr_throw (ReasonError (''Queue not found: '' @ queue_urn))
       | Some value \<Rightarrow> sr_lift (decode_queue_config env value))"

definition store_queue_meta :: "'t kmsg_env \<Rightarrow> string \<Rightarrow> queue_meta \<Rightarrow> ('t, unit) kmsg" where
  "store_queue_meta env queue_urn m =
     sr_bind (sr_lift (encode_queue_meta env m))
       (insert_into env queue_metas queue_metas_update (queue_key queue_urn))"

definition empty_meta :: queue_meta where
  "empty_meta = \<lparr>next_index = 1, message_count = 0, first_index = 0, last_index = 0, size_bytes = 0\<rparr>"

text \<open>\<open>handle_create_queue\<close> after the name is known.\<close>

definition create_named_queue :: "'t kmsg_env \<Rightarrow> string \<Rightarrow> queue_config \<Rightarrow> ('t, string) kmsg" where
  "create_named_queue env queue_urn config =
     sr_bind (sr_lift (map_err ReasonError (ser_config env config))) (\<lambda>config_data st.
       case sl_cas env (queues st) (queue_key queue_urn) None (Some config_data) of
         Inl e \<Rightarrow> (st, Inl (ReasonError e))
       | Inr (t, ok) \<Rightarrow>
           if \<not> ok then (st\<lparr>queues := t\<rparr>, Inl (ReasonError (''Queue already exists: '' @ queue_urn)))
           else (case store_queue_meta env queue_urn empty_meta (st\<lparr>queues := t\<rparr>) of
                   (st, Inl err) \<Rightarrow>
                     (fst (remove_from env queues queues_update (queue_key queue_urn) st), Inl err)
                 | (st, Inr _) \<Rightarrow> sr_bind (sync_if env config) (\<lambda>_. sr_return queue_urn) st))"

definition handle_create_queue :: "'t kmsg_env \<Rightarrow> (nat \<Rightarrow> 't \<Rightarrow> 't) \<Rightarrow> string option \<Rightarrow> string \<Rightarrow> string
  \<Rightarrow> queue_config \<Rightarrow> 't sled_msg_queue \<Rightarrow> ('t sled_msg_queue \<times> (rpc_errors, string) result) option" where
  "handle_create_queue env interf name appid app_owner config st =
     (case name of
        Some v \<Rightarrow> Some (create_named_queue env (calc_queue_urn appid app_owner v) config st)
      | None \<Rightarrow>
          (case next_id env interf ''queue_id'' st of
             None \<Rightarrow> None
           | Some (st, Inl e) \<Rightarrow> Some (st, Inl e)
           | Some (st, Inr n) \<Rightarrow>
               Some (create_named_queue env
                 (calc_queue_urn appid app_owner (''queue-'' @ show_nat (unat n))) config st)))"

definition keys_of :: "(string, bytes \<times> bytes) result list \<Rightarrow> bytes list" where
  "keys_of items = List.map_filter (\<lambda>item. case item of Inl _ \<Rightarrow> None | Inr (key, _) \<Rightarrow> Some key) items"

definition sub_keys_of :: "'t kmsg_env \<Rightarrow> string \<Rightarrow> (string, bytes \<times> bytes) result list \<Rightarrow> bytes list" where
  "sub_keys_of env queue_urn items =
     List.map_filter (\<lambda>item. case item of
         Inl _ \<Rightarrow> None
       | Inr (key, value) \<Rightarrow>
           (case de_sub env value of
              Inl _ \<Rightarrow> None
            | Inr sub \<Rightarrow> if sub_queue_urn sub = queue_urn then Some key else None)) items"

definition handle_delete_queue :: "'t kmsg_env \<Rightarrow> string \<Rightarrow> ('t, unit) kmsg" where
  "handle_delete_queue env queue_urn =
     sr_bind (remove_from env queues queues_update (queue_key queue_urn)) (\<lambda>old.
       if old = None then sr_throw (ReasonError (''Queue not found: '' @ queue_urn))
       else (\<lambda>st.
         sr_bind (remove_all_from env messages messages_update
                    (keys_of (sl_scan_prefix env (messages st) (message_prefix queue_urn)))) (\<lambda>_ st.
         sr_bind (remove_all_from env subs subs_update
                    (sub_keys_of env queue_urn (sl_iter env (subs st)))) (\<lambda>_.
         sr_bind (remove_all_from env queue_metas queue_metas_update [queue_key queue_urn]) (\<lambda>_.
         flush env)) st) st))"

definition handle_get_queue_stats :: "'t kmsg_env \<Rightarrow> string \<Rightarrow> ('t, queue_stats) kmsg" where
  "handle_get_queue_stats env queue_urn =
     sr_bind (get_queue_meta env queue_urn) (\<lambda>m.
       sr_return \<lparr>st_message_count = message_count m, st_first_index = first_index m,
                  st_last_index = last_index m, st_size_bytes = size_bytes m\<rparr>)"

definition handle_update_queue_config :: "'t kmsg_env \<Rightarrow> string \<Rightarrow> queue_config \<Rightarrow> ('t, unit) kmsg" where
  "handle_update_queue_config env queue_urn config =
     sr_bind (get_from env queues (queue_key queue_urn)) (\<lambda>old.
       if old = None then sr_throw (ReasonError (''Queue not found: '' @ queue_urn))
       else
         sr_bind (sr_lift (map_err ReasonError (ser_config env config))) (\<lambda>config_data.
         sr_bind (insert_into env queues queues_update (queue_key queue_urn) config_data) (\<lambda>_.
         sync_if env config)))"

section \<open>Posting\<close>

definition count_message :: "u64 \<Rightarrow> queue_meta \<Rightarrow> queue_meta" where
  "count_message payload_len m =
     (let i = next_index m;
          m = m\<lparr>next_index := next_index m + 1\<rparr>;
          m = m\<lparr>message_count := message_count m + 1\<rparr>;
          m = (if first_index m = 0 then m\<lparr>first_index := i\<rparr> else m);
          m = m\<lparr>last_index := i\<rparr>
      in m\<lparr>size_bytes := size_bytes m + payload_len\<rparr>)"

text \<open>The closure of the transaction on the message tree and the counter tree.\<close>

definition post_in_transaction :: "'t kmsg_env \<Rightarrow> string \<Rightarrow> message \<Rightarrow> 't \<times> 't
  \<Rightarrow> (tx_error, ('t \<times> 't) \<times> u64) result" where
  "post_in_transaction env queue_urn msg trees =
     (case trees of (msgs, metas) \<Rightarrow>
      rbind (map_err Storage (sl_get env metas (queue_key queue_urn))) (\<lambda>v.
      case v of
        None \<Rightarrow> Inl (Abort (ReasonError (''Queue not found: '' @ queue_urn)))
      | Some meta_value \<Rightarrow>
          rbind (map_err Abort (decode_queue_meta env meta_value)) (\<lambda>m.
          let i = next_index m;
              m' = count_message (of_nat (length (msg_payload msg))) m in
          rbind (map_err (\<lambda>err. Abort (ReasonError (''Failed to encode message: '' @ err)))
                   (ser_message env (msg\<lparr>msg_index := i\<rparr>))) (\<lambda>data.
          rbind (map_err Storage (sl_insert env msgs (message_key queue_urn i) data)) (\<lambda>msgs'.
          rbind (map_err Abort (encode_queue_meta env m')) (\<lambda>meta_data.
          rbind (map_err Storage (sl_insert env metas (queue_key queue_urn) meta_data)) (\<lambda>metas'.
          Inr ((msgs', metas'), i))))))))"

definition handle_post_message :: "'t kmsg_env \<Rightarrow> u64 \<Rightarrow> string \<Rightarrow> message \<Rightarrow> ('t, u64) kmsg" where
  "handle_post_message env now queue_urn msg =
     sr_bind (get_queue_config env queue_urn) (\<lambda>config.
       let msg = (if msg_created_at msg = 0 then msg\<lparr>msg_created_at := now\<rparr> else msg) in
       sr_bind (\<lambda>st.
         (case sl_transaction env (post_in_transaction env queue_urn msg) (messages st, queue_metas st) of
            Inl (Abort err) \<Rightarrow> (st, Inl err)
          | Inl (Storage err) \<Rightarrow> (st, Inl (ReasonError err))
          | Inr ((msgs, metas), i) \<Rightarrow> (st\<lparr>messages := msgs, queue_metas := metas\<rparr>, Inr i))) (\<lambda>i.
       sr_bind (sync_if env config) (\<lambda>_. sr_return i)))"

section \<open>Subscriptions\<close>

definition cursor_for :: "queue_meta \<Rightarrow> sub_position \<Rightarrow> u64" where
  "cursor_for m position =
     (let first = (if first_index m = 0 then 1 else first_index m) in
      case position of
        Earliest \<Rightarrow> first
      | Latest \<Rightarrow> last_index m + 1
      | At i \<Rightarrow> i)"

text \<open>\<open>handle_subscribe\<close> after the identifier is known.\<close>

definition subscribe_named :: "'t kmsg_env \<Rightarrow> string \<Rightarrow> u64 \<Rightarrow> string \<Rightarrow> ('t, string) kmsg" where
  "subscribe_named env queue_urn cur sub_id =
     sr_bind (get_from env subs (as_bytes sub_id)) (\<lambda>old.
       if old \<noteq> None then sr_throw (ReasonError (''Subscription already exists: '' @ sub_id))
       else
         sr_bind (sr_lift (map_err ReasonError
                    (ser_sub env \<lparr>sub_queue_urn = queue_urn, cursor = cur\<rparr>))) (\<lambda>data.
         sr_bind (insert_into env subs subs_update (as_bytes sub_id) data) (\<lambda>_.
         sr_return sub_id)))"

definition handle_subscribe :: "'t kmsg_env \<Rightarrow> (nat \<Rightarrow> 't \<Rightarrow> 't) \<Rightarrow> string \<Rightarrow> string option \<Rightarrow> sub_position
  \<Rightarrow> 't sled_msg_queue \<Rightarrow> ('t sled_msg_queue \<times> (rpc_errors, string) result) option" where
  "handle_subscribe env interf queue_urn sub_id position st =
     (case get_queue_meta env queue_urn st of
        (st, Inl e) \<Rightarrow> Some (st, Inl e)
      | (st, Inr m) \<Rightarrow>
          (case sub_id of
             Some v \<Rightarrow> Some (subscribe_named env queue_urn (cursor_for m position) v st)
           | None \<Rightarrow>
               (case next_id env interf ''sub_id'' st of
                  None \<Rightarrow> None
                | Some (st, Inl e) \<Rightarrow> Some (st, Inl e)
                | Some (st, Inr n) \<Rightarrow>
                    Some (subscribe_named env queue_urn (cursor_for m position)
                      (''sub-'' @ show_nat (unat n)) st))))"

definition handle_unsubscribe :: "'t kmsg_env \<Rightarrow> string \<Rightarrow> ('t, unit) kmsg" where
  "handle_unsubscribe env sub_id =
     sr_bind (remove_from env subs subs_update (as_bytes sub_id)) (\<lambda>old.
       if old = None then sr_throw (ReasonError (''Subscription not found: '' @ sub_id))
       else sr_return ())"

text \<open>The lookup that begins \<open>fetch_messages\<close>, \<open>commit_ack\<close> and \<open>seek\<close>, and the write that ends
  them.\<close>

definition load_sub :: "'t kmsg_env \<Rightarrow> string \<Rightarrow> ('t, subscription_state) kmsg" where
  "load_sub env sub_id =
     sr_bind (get_from env subs (as_bytes sub_id)) (\<lambda>v.
       case v of
         None \<Rightarrow> sr_throw (ReasonError (''Subscription not found: '' @ sub_id))
       | Some value \<Rightarrow> sr_lift (map_err ReasonError (de_sub env value)))"

definition store_sub :: "'t kmsg_env \<Rightarrow> string \<Rightarrow> subscription_state \<Rightarrow> ('t, unit) kmsg" where
  "store_sub env sub_id sub =
     sr_bind (sr_lift (map_err ReasonError (ser_sub env sub)))
       (insert_into env subs subs_update (as_bytes sub_id))"

section \<open>Reading\<close>

text \<open>The loop over a range: push, then stop when \<open>len\<close> messages are there.\<close>

fun read_range :: "'t kmsg_env \<Rightarrow> nat \<Rightarrow> message list \<Rightarrow> (string, bytes \<times> bytes) result list
  \<Rightarrow> (rpc_errors, message list) result" where
  "read_range env len acc [] = Inr acc"
| "read_range env len acc (Inl err # items) = Inl (ReasonError err)"
| "read_range env len acc (Inr (key, value) # items) =
     rbind (decode_message env value) (\<lambda>msg.
       let acc = acc @ [msg] in
       if len \<le> length acc then Inr acc else read_range env len acc items)"

definition handle_fetch_messages :: "'t kmsg_env \<Rightarrow> string \<Rightarrow> nat \<Rightarrow> bool \<Rightarrow> ('t, message list) kmsg" where
  "handle_fetch_messages env sub_id len auto_commit =
     sr_bind (load_sub env sub_id) (\<lambda>sub st.
       sr_bind (sr_lift (read_range env len [] (sl_range_incl env (messages st)
                  (message_key (sub_queue_urn sub) (cursor sub)) (message_key (sub_queue_urn sub) (-1)))))
         (\<lambda>msgs.
            if auto_commit \<and> msgs \<noteq> [] then
              sr_bind (store_sub env sub_id (sub\<lparr>cursor := msg_index (last msgs) + 1\<rparr>)) (\<lambda>_.
                sr_return msgs)
            else sr_return msgs) st)"

definition handle_read_message :: "'t kmsg_env \<Rightarrow> string \<Rightarrow> u64 \<Rightarrow> nat \<Rightarrow> ('t, message list) kmsg" where
  "handle_read_message env queue_urn cur len =
     sr_bind (get_queue_meta env queue_urn) (\<lambda>_ st.
       (st, read_range env len [] (sl_range_incl env (messages st)
              (message_key queue_urn cur) (message_key queue_urn (-1)))))"

definition handle_commit_ack :: "'t kmsg_env \<Rightarrow> string \<Rightarrow> u64 \<Rightarrow> ('t, unit) kmsg" where
  "handle_commit_ack env sub_id i =
     sr_bind (load_sub env sub_id) (\<lambda>sub. store_sub env sub_id (sub\<lparr>cursor := i + 1\<rparr>))"

definition handle_seek :: "'t kmsg_env \<Rightarrow> string \<Rightarrow> sub_position \<Rightarrow> ('t, unit) kmsg" where
  "handle_seek env sub_id position =
     sr_bind (load_sub env sub_id) (\<lambda>sub.
     sr_bind (get_queue_meta env (sub_queue_urn sub)) (\<lambda>m.
     store_sub env sub_id (sub\<lparr>cursor := cursor_for m position\<rparr>)))"

section \<open>Trimming a queue\<close>

text \<open>The loop that collects what is to be removed: the count, the bytes and the keys. A message
  that cannot be decoded adds no bytes.\<close>

fun collect_removed :: "'t kmsg_env \<Rightarrow> (u64 \<times> u64 \<times> bytes list) \<Rightarrow> (string, bytes \<times> bytes) result list
  \<Rightarrow> (rpc_errors, u64 \<times> u64 \<times> bytes list) result" where
  "collect_removed env acc [] = Inr acc"
| "collect_removed env acc (Inl err # items) = Inl (ReasonError err)"
| "collect_removed env (count, nbytes, keys) (Inr (key, value) # items) =
     collect_removed env
       (count + 1,
        (case decode_message env value of
           Inr msg \<Rightarrow> nbytes + of_nat (length (msg_payload msg))
         | Inl _ \<Rightarrow> nbytes),
        keys @ [key]) items"

fun first_remaining :: "(string, bytes \<times> bytes) result list \<Rightarrow> (rpc_errors, u64 option) result" where
  "first_remaining [] = Inr None"
| "first_remaining (Inl err # items) = Inl (ReasonError err)"
| "first_remaining (Inr (key, value) # items) =
     (case decode_index_from_key key of
        Some i \<Rightarrow> Inr (Some i)
      | None \<Rightarrow> first_remaining items)"

text \<open>The new counters, from the counters that were read before the removal.\<close>

definition trimmed_meta :: "'t kmsg_env \<Rightarrow> string \<Rightarrow> u64 \<Rightarrow> queue_meta \<Rightarrow> u64 \<Rightarrow> u64 \<Rightarrow> ('t, queue_meta) kmsg" where
  "trimmed_meta env queue_urn i m removed_count removed_bytes = (\<lambda>st.
     let m = m\<lparr>message_count := saturating_sub (message_count m) removed_count\<rparr>;
         m = m\<lparr>size_bytes := saturating_sub (size_bytes m) removed_bytes\<rparr> in
     if message_count m = 0 then (st, Inr (m\<lparr>first_index := 0, last_index := 0\<rparr>))
     else sr_bind (sr_lift (first_remaining (sl_range_incl env (messages st)
                     (message_key queue_urn i) (message_key queue_urn (-1)))))
            (\<lambda>new_first. sr_return (case new_first of Some k \<Rightarrow> m\<lparr>first_index := k\<rparr> | None \<Rightarrow> m)) st)"

text \<open>The closure of \<open>spawn_blocking\<close> after it has read the counters \<open>m\<close>.\<close>

definition trim_queue :: "'t kmsg_env \<Rightarrow> string \<Rightarrow> u64 \<Rightarrow> queue_meta \<Rightarrow> ('t, u64) kmsg" where
  "trim_queue env queue_urn i m = (\<lambda>st.
     sr_bind (sr_lift (collect_removed env (0, 0, []) (sl_range env (messages st)
                (message_key queue_urn 0) (message_key queue_urn i))))
       (\<lambda>(removed_count, removed_bytes, removed_keys).
        sr_bind (remove_all_from env messages messages_update removed_keys) (\<lambda>_.
        if removed_count = 0 then sr_return 0
        else
          sr_bind (trimmed_meta env queue_urn i m removed_count removed_bytes) (\<lambda>m'.
          sr_bind (store_queue_meta env queue_urn m') (\<lambda>_.
          sr_return removed_count)))) st)"

definition handle_delete_message_before :: "'t kmsg_env \<Rightarrow> string \<Rightarrow> u64 \<Rightarrow> ('t, u64) kmsg" where
  "handle_delete_message_before env queue_urn i =
     sr_bind (get_queue_config env queue_urn) (\<lambda>config.
     sr_bind (get_queue_meta env queue_urn) (\<lambda>m.
     sr_bind (trim_queue env queue_urn i m) (\<lambda>removed.
     sr_bind (sync_if env config) (\<lambda>_.
     sr_return removed))))"

section \<open>Requests\<close>

text \<open>The request structs of \<open>msg_queue.rs\<close> and what is answered to them. The user and the
  application of a subscription are parameters that the service does not use.\<close>

datatype msg_queue_req =
  MsgQueueCreateQueueReq "string option" string string queue_config
| MsgQueueDeleteQueueReq string
| MsgQueueGetQueueStatsReq string
| MsgQueueUpdateQueueConfigReq string queue_config
| MsgQueuePostMessageReq string message
| MsgQueueSubscribeReq string string string "string option" sub_position
| MsgQueueUnsubscribeReq string
| MsgQueueFetchMessagesReq string nat bool
| MsgQueueReadMessageReq string u64 nat
| MsgQueueCommitAckReq string u64
| MsgQueueSeekReq string sub_position
| MsgQueueDeleteMessageBeforeReq string u64

datatype msg_queue_reply =
  ReplyString string | ReplyUnit | ReplyStats queue_stats | ReplyU64 u64 | ReplyMessages "message list"

definition reply_with :: "('a \<Rightarrow> msg_queue_reply) \<Rightarrow> 's \<times> (rpc_errors, 'a) result
  \<Rightarrow> 's \<times> (rpc_errors, msg_queue_reply) result" where
  "reply_with f p = (fst p, rbind (snd p) (\<lambda>a. Inr (f a)))"

text \<open>The arms of \<open>handle_rpc_call\<close> after the parameters are parsed.\<close>

definition handle_request :: "'t kmsg_env \<Rightarrow> (nat \<Rightarrow> 't \<Rightarrow> 't) \<Rightarrow> u64 \<Rightarrow> msg_queue_req \<Rightarrow> 't sled_msg_queue
  \<Rightarrow> ('t sled_msg_queue \<times> (rpc_errors, msg_queue_reply) result) option" where
  "handle_request env interf now req st =
     (case req of
        MsgQueueCreateQueueReq name appid app_owner config \<Rightarrow>
          map_option (reply_with ReplyString) (handle_create_queue env interf name appid app_owner config st)
      | MsgQueueDeleteQueueReq queue_urn \<Rightarrow>
          Some (reply_with (\<lambda>_. ReplyUnit) (handle_delete_queue env queue_urn st))
      | MsgQueueGetQueueStatsReq queue_urn \<Rightarrow>
          Some (reply_with ReplyStats (handle_get_queue_stats env queue_urn st))
      | MsgQueueUpdateQueueConfigReq queue_urn config \<Rightarrow>
          Some (reply_with (\<lambda>_. ReplyUnit) (handle_update_queue_config env queue_urn config st))
      | MsgQueuePostMessageReq queue_urn msg \<Rightarrow>
          Some (reply_with ReplyU64 (handle_post_message env now queue_urn msg st))
      | MsgQueueSubscribeReq queue_urn user_id app_id sub_id position \<Rightarrow>
          map_option (reply_with ReplyString) (handle_subscribe env interf queue_urn sub_id position st)
      | MsgQueueUnsubscribeReq sub_id \<Rightarrow>
          Some (reply_with (\<lambda>_. ReplyUnit) (handle_unsubscribe env sub_id st))
      | MsgQueueFetchMessagesReq sub_id len auto_commit \<Rightarrow>
          Some (reply_with ReplyMessages (handle_fetch_messages env sub_id len auto_commit st))
      | MsgQueueReadMessageReq queue_urn cur len \<Rightarrow>
          Some (reply_with ReplyMessages (handle_read_message env queue_urn cur len st))
      | MsgQueueCommitAckReq sub_id i \<Rightarrow>
          Some (reply_with (\<lambda>_. ReplyUnit) (handle_commit_ack env sub_id i st))
      | MsgQueueSeekReq sub_id position \<Rightarrow>
          Some (reply_with (\<lambda>_. ReplyUnit) (handle_seek env sub_id position st))
      | MsgQueueDeleteMessageBeforeReq queue_urn i \<Rightarrow>
          Some (reply_with ReplyU64 (handle_delete_message_before env queue_urn i st)))"

end
