(* ===== verification/Msg_Queue_Lemmas.thy ===== *)
theory Msg_Queue_Lemmas
  imports Msg_Queue
begin

text \<open>
  What the correctness of the message queue rests on: the order of the keys, which makes a range
  scan of a queue return its messages by index, and the interface of the store as the locale
  \<open>kmsg_store\<close>, with the lemmas on scans, inserts and removals that the operations use.
\<close>

section \<open>Big-endian integers\<close>

definition be_value :: "bytes \<Rightarrow> nat" where
  "be_value bs = foldl (\<lambda>acc b. acc * 256 + unat b) 0 bs"

lemma u8_less: "unat (b :: u8) < 256"
  using unsigned_less [of b] by simp

lemma be_foldl: "foldl (\<lambda>acc b. acc * 256 + unat b) n bs = n * 256 ^ length bs + be_value (bs :: bytes)"
proof (induction bs arbitrary: n)
  case (Cons b bs)
  show ?case
    using Cons [of "n * 256 + unat b"] Cons [of "unat b"]
    by (simp add: be_value_def algebra_simps)
qed (simp add: be_value_def)

lemma be_value_Cons: "be_value (b # bs) = unat b * 256 ^ length bs + be_value bs"
  by (simp add: be_value_def be_foldl [of "unat b"])

lemma be_value_bound: "be_value bs < 256 ^ length bs"
proof (induction bs)
  case (Cons b bs)
  have "be_value (b # bs) < (unat b + 1) * 256 ^ length bs"
    using Cons by (simp add: be_value_Cons algebra_simps)
  also have "\<dots> \<le> 256 * 256 ^ length bs"
    using u8_less [of b] by (intro mult_right_mono) simp_all
  finally show ?case by simp
qed (simp add: be_value_def)

lemma be_value_less:
  assumes "length as = length bs"
  shows "as < bs \<longleftrightarrow> be_value as < be_value bs"
  using assms
proof (induction as bs rule: list_induct2)
  case (Cons a as b bs)
  let ?M = "256 ^ length as :: nat"
  have bounds: "be_value as < ?M" "be_value bs < ?M"
    using be_value_bound [of as] be_value_bound [of bs] Cons.hyps by simp_all
  consider "unat a < unat b" | "unat b < unat a" | "a = b"
    by (metis linorder_neqE_nat unsigned_word_eqI)
  then show ?case
  proof cases
    case 1
    then have "(unat a + 1) * ?M \<le> unat b * ?M" by (intro mult_right_mono) simp_all
    then show ?thesis
      using 1 bounds Cons.hyps by (auto simp: be_value_Cons word_less_nat_alt algebra_simps)
  next
    case 2
    then have "(unat b + 1) * ?M \<le> unat a * ?M" by (intro mult_right_mono) simp_all
    then show ?thesis
      using 2 bounds Cons.hyps by (auto simp: be_value_Cons word_less_nat_alt algebra_simps)
  qed (use Cons in \<open>simp add: be_value_Cons\<close>)
qed simp

lemma of_nat_foldl_be:
  "foldl (\<lambda>acc b. acc * 256 + ucast b) (of_nat n) bs
     = (of_nat (foldl (\<lambda>acc b. acc * 256 + unat b) n bs) :: u64)" for bs :: bytes
proof (induction bs arbitrary: n)
  case (Cons b bs)
  have "ucast b = (of_nat (unat b) :: u64)" by simp
  then show ?case using Cons [of "n * 256 + unat b"] by simp
qed simp

lemma from_be_bytes_value: "from_be_bytes bs = of_nat (be_value bs)"
  using of_nat_foldl_be [of 0 bs] by (simp add: from_be_bytes_def be_value_def)

lemma length_to_be_bytes [simp]: "length (to_be_bytes w) = 8"
  by (simp add: to_be_bytes_def)

lemma unat_be_byte: "unat (ucast (drop_bit n w) :: u8) = unat (w :: u64) div 2 ^ n mod 256"
  using drop_bit_eq_div [of n "unat w"]
  by (simp add: unsigned_ucast_eq unat_drop_bit_eq take_bit_eq_mod)

lemma unat_low_byte: "unat (ucast w :: u8) = unat (w :: u64) mod 256"
  using unat_be_byte [of 0 w] by simp

lemma be_step: "(x div 2 ^ (n + 8)) * 256 + x div 2 ^ n mod 256 = x div 2 ^ n" for x :: nat
proof -
  have "x div 2 ^ (n + 8) = x div 2 ^ n div 256"
    by (simp add: power_add div_mult2_eq)
  then show ?thesis by (simp add: mult.commute div_mult_mod_eq)
qed

lemma be_value_to_be_bytes [simp]: "be_value (to_be_bytes w) = unat w"
proof -
  have top: "unat w div 2 ^ 56 mod 256 = unat w div 2 ^ 56"
    using unat_u64_less [of w] by (simp add: less_mult_imp_div_less)
  show ?thesis
    using be_step [of "unat w" 48] be_step [of "unat w" 40] be_step [of "unat w" 32]
      be_step [of "unat w" 24] be_step [of "unat w" 16] be_step [of "unat w" 8] be_step [of "unat w" 0]
    by (simp add: be_value_def to_be_bytes_def unat_be_byte unat_low_byte [of w] top del: power_numeral)
qed

lemma from_to_be_bytes [simp]: "from_be_bytes (to_be_bytes w) = w"
  by (simp add: from_be_bytes_value)

lemma to_be_bytes_less [simp]: "to_be_bytes a < to_be_bytes b \<longleftrightarrow> a < b"
  by (simp add: be_value_less word_less_nat_alt)

lemma to_be_bytes_eq [simp]: "to_be_bytes a = to_be_bytes b \<longleftrightarrow> a = b"
  by (metis from_to_be_bytes)

lemma to_be_bytes_le [simp]: "to_be_bytes a \<le> to_be_bytes b \<longleftrightarrow> a \<le> b"
  by (simp add: le_less)

section \<open>Keys\<close>

lemma unat_of_char: "unat (of_char c :: u8) = of_char c"
proof -
  have "(of_char c :: u8) = of_nat (of_char c)" by (rule of_nat_of_char [symmetric])
  moreover have "of_char c < (2 ^ LENGTH(8) :: nat)" using nat_of_char_less_256 [of c] by simp
  ultimately show ?thesis by (simp only: unat_of_nat_small)
qed

lemma as_bytes_inject [simp]: "as_bytes s = as_bytes t \<longleftrightarrow> s = t"
proof -
  have "inj (of_char :: char \<Rightarrow> u8)"
    by (rule injI) (metis unat_of_char of_char_eq_iff)
  then show ?thesis by (simp add: as_bytes_def inj_map_eq_map)
qed

lemma as_bytes_surj: "\<exists>s. bs = as_bytes s"
proof -
  have "of_char (char_of (unat b)) = b" for b :: u8
  proof -
    have "unat (of_char (char_of (unat b)) :: u8) = unat b"
      using u8_less [of b] by (simp add: unat_of_char of_char_of)
    then show ?thesis by (rule unsigned_word_eqI)
  qed
  then have "bs = as_bytes (map (char_of \<circ> unat) bs)" by (induction bs) (simp_all add: as_bytes_def)
  then show ?thesis ..
qed

abbreviation nul_free :: "string \<Rightarrow> bool" where
  "nul_free u \<equiv> CHR 0x00 \<notin> set u"

lemma nul_free_bytes: "0 \<in> set (as_bytes u) \<longleftrightarrow> \<not> nul_free u"
proof -
  have "(of_char c :: u8) = 0 \<longleftrightarrow> c = CHR 0x00" for c
  proof -
    have "(of_char c :: u8) = 0 \<longleftrightarrow> unat (of_char c :: u8) = 0" by (simp add: unat_eq_zero)
    also have "\<dots> \<longleftrightarrow> (of_char c :: nat) = of_char (CHR 0x00)" by (simp add: unat_of_char)
    also have "\<dots> \<longleftrightarrow> c = CHR 0x00" by (rule of_char_eq_iff)
    finally show ?thesis .
  qed
  then show ?thesis by (auto simp: as_bytes_def image_iff)
qed

lemma append_less_iff [simp]: "p @ a < p @ b \<longleftrightarrow> a < (b :: 'a::order list)"
  by (induction p) simp_all

lemma append_le_iff [simp]: "p @ a \<le> p @ b \<longleftrightarrow> a \<le> (b :: 'a::order list)"
  by (induction p) simp_all

text \<open>Everything between two keys with a common prefix has that prefix.\<close>

lemma between_prefix:
  fixes k :: "'a::linorder list"
  assumes "p @ a \<le> k" "k \<le> p @ b"
  shows "prefix p k"
  using assms
proof (induction p arbitrary: k)
  case (Cons x p)
  then obtain k' where k: "k = x # k'"
    by (cases k) (auto simp: Cons_le_Cons)
  with Cons show ?case by simp
qed simp

lemma message_key_less [simp]: "message_key u i < message_key u j \<longleftrightarrow> i < j"
  by (simp add: message_key_def)

lemma message_key_le [simp]: "message_key u i \<le> message_key u j \<longleftrightarrow> i \<le> j"
  by (simp add: message_key_def)

lemma message_key_eq [simp]: "message_key u i = message_key u j \<longleftrightarrow> i = j"
  by (simp add: message_key_def)

lemma prefix_message_key [simp]: "prefix (message_prefix u) (message_key u i)"
  by (simp add: message_key_def)

lemma message_range_prefix:
  "message_key u i \<le> k \<Longrightarrow> k \<le> message_key u j \<Longrightarrow> prefix (message_prefix u) k"
  unfolding message_key_def by (rule between_prefix)

lemma decode_message_key [simp]: "decode_index_from_key (message_key u i) = Some i"
  by (simp add: decode_index_from_key_def message_key_def message_prefix_def)

text \<open>The keys of two queues never meet: the byte \<open>0\<close> ends the name.\<close>

lemma prefix_nul_unique:
  assumes "0 \<notin> set a" "0 \<notin> set b" "prefix (a @ [0]) (b @ [0] @ r)"
  shows "a = (b :: bytes)"
  using assms
proof (induction a arbitrary: b)
  case Nil
  then show ?case by (cases b) auto
next
  case (Cons x a)
  then show ?case by (cases b) auto
qed

lemma message_prefix_unique:
  assumes "nul_free u" "nul_free v" "prefix (message_prefix u) (message_key v i)"
  shows "u = v"
proof -
  have "as_bytes u = as_bytes v"
    using assms prefix_nul_unique [of "as_bytes u" "as_bytes v" "to_be_bytes i"]
    by (simp add: nul_free_bytes message_prefix_def message_key_def)
  then show ?thesis by simp
qed

section \<open>Sorted association lists\<close>

abbreviation key_sorted :: "('k::linorder \<times> 'v) list \<Rightarrow> bool" where
  "key_sorted xs \<equiv> sorted_wrt (<) (map fst xs)"

lemma key_sorted_distinct: "key_sorted xs \<Longrightarrow> distinct (map fst xs)"
  by (simp add: strict_sorted_iff)

lemma key_sorted_filter: "key_sorted xs \<Longrightarrow> key_sorted (filter P xs)"
  by (induction xs) auto

lemma key_sorted_unique:
  assumes "key_sorted xs" "key_sorted ys" "map_of xs = map_of ys"
  shows "xs = ys"
proof -
  have "set xs = set ys"
    using assms by (metis key_sorted_distinct map_of_inject_set)
  then show ?thesis
    using assms(1,2) by (intro map_sorted_distinct_set_unique [of fst])
      (simp_all add: strict_sorted_iff distinct_map)
qed

lemma map_of_filter_key:
  "map_of (filter (\<lambda>(k, v). P k) xs) k = (if P k then map_of xs k else None)"
  by (induction xs) auto

end
