(* ===== verification/Msg_Queue_Spec.thy ===== *)
theory Msg_Queue_Spec
  imports Msg_Queue_Lemmas
begin

text \<open>
  What the message queue promises, without trees, keys and encodings: a queue is its
  configuration, the next index and the list of its messages; a subscription is a queue name and
  a cursor. \<open>spec_request\<close> answers a request on this state, and \<open>kmsg_rep\<close> says when the
  trees of the store hold it.
\<close>

section \<open>The abstract queue service\<close>

record aqueue =
  aq_config :: queue_config
  aq_next :: u64
  aq_log :: "message list"

record astate =
  a_queues :: "string \<Rightarrow> aqueue option"
  a_subs :: "string \<Rightarrow> subscription_state option"
  a_ids :: "string \<Rightarrow> u64"

definition payload_bytes :: "message list \<Rightarrow> nat" where
  "payload_bytes log = sum_list (map (length \<circ> msg_payload) log)"

definition oldest :: "message list \<Rightarrow> u64" where
  "oldest log = (case log of [] \<Rightarrow> 0 | m # _ \<Rightarrow> msg_index m)"

definition newest :: "message list \<Rightarrow> u64" where
  "newest log = (if log = [] then 0 else msg_index (last log))"

definition log_of :: "astate \<Rightarrow> string \<Rightarrow> message list" where
  "log_of A u = (case a_queues A u of None \<Rightarrow> [] | Some q \<Rightarrow> aq_log q)"

definition backlog :: "u64 \<Rightarrow> message list \<Rightarrow> message list" where
  "backlog cur log = filter (\<lambda>m. cur \<le> msg_index m) log"

definition log_cursor :: "message list \<Rightarrow> sub_position \<Rightarrow> u64" where
  "log_cursor log position =
     (case position of
        Earliest \<Rightarrow> if log = [] then 1 else msg_index (hd log)
      | Latest \<Rightarrow> if log = [] then 1 else msg_index (last log) + 1
      | At i \<Rightarrow> i)"

definition stamp :: "u64 \<Rightarrow> u64 \<Rightarrow> message \<Rightarrow> message" where
  "stamp now i m =
     (if msg_created_at m = 0 then m\<lparr>msg_created_at := now\<rparr> else m)\<lparr>msg_index := i\<rparr>"

definition appended :: "u64 \<Rightarrow> message \<Rightarrow> aqueue \<Rightarrow> aqueue" where
  "appended now m q = q\<lparr>aq_next := aq_next q + 1, aq_log := aq_log q @ [stamp now (aq_next q) m]\<rparr>"

definition no_queue_error :: "string \<Rightarrow> rpc_errors" where
  "no_queue_error u = ReasonError (''Queue not found: '' @ u)"

definition no_sub_error :: "string \<Rightarrow> rpc_errors" where
  "no_sub_error s = ReasonError (''Subscription not found: '' @ s)"

type_synonym areply = "astate \<times> (rpc_errors, msg_queue_reply) result"

definition with_queue :: "astate \<Rightarrow> string \<Rightarrow> (aqueue \<Rightarrow> areply) \<Rightarrow> areply" where
  "with_queue A u f = (case a_queues A u of None \<Rightarrow> (A, Inl (no_queue_error u)) | Some q \<Rightarrow> f q)"

definition with_sub :: "astate \<Rightarrow> string \<Rightarrow> (subscription_state \<Rightarrow> areply) \<Rightarrow> areply" where
  "with_sub A s f = (case a_subs A s of None \<Rightarrow> (A, Inl (no_sub_error s)) | Some sub \<Rightarrow> f sub)"

definition set_queue :: "string \<Rightarrow> aqueue option \<Rightarrow> astate \<Rightarrow> astate" where
  "set_queue u q A = A\<lparr>a_queues := (a_queues A)(u := q)\<rparr>"

definition set_sub :: "string \<Rightarrow> subscription_state option \<Rightarrow> astate \<Rightarrow> astate" where
  "set_sub s sub A = A\<lparr>a_subs := (a_subs A)(s := sub)\<rparr>"

text \<open>A fresh name where the caller gives none.\<close>

definition choose_name :: "string \<Rightarrow> string \<Rightarrow> string option \<Rightarrow> astate \<Rightarrow> string \<times> astate" where
  "choose_name counter start name A =
     (case name of
        Some v \<Rightarrow> (v, A)
      | None \<Rightarrow> (let n = a_ids A counter + 1
                 in (start @ show_nat (unat n), A\<lparr>a_ids := (a_ids A)(counter := n)\<rparr>)))"

fun spec_request :: "u64 \<Rightarrow> msg_queue_req \<Rightarrow> astate \<Rightarrow> areply" where
  "spec_request now (MsgQueueCreateQueueReq name appid app_owner config) A =
     (case choose_name ''queue_id'' ''queue-'' name A of (name, A) \<Rightarrow>
      let u = calc_queue_urn appid app_owner name in
      if a_queues A u \<noteq> None then (A, Inl (ReasonError (''Queue already exists: '' @ u)))
      else (set_queue u (Some \<lparr>aq_config = config, aq_next = 1, aq_log = []\<rparr>) A, Inr (ReplyString u)))"
| "spec_request now (MsgQueueDeleteQueueReq u) A =
     with_queue A u (\<lambda>q.
       (A\<lparr>a_queues := (a_queues A)(u := None),
          a_subs := (\<lambda>s. case a_subs A s of
             None \<Rightarrow> None | Some sub \<Rightarrow> if sub_queue_urn sub = u then None else Some sub)\<rparr>, Inr ReplyUnit))"
| "spec_request now (MsgQueueGetQueueStatsReq u) A =
     with_queue A u (\<lambda>q. (A, Inr (ReplyStats
       \<lparr>st_message_count = of_nat (length (aq_log q)), st_first_index = oldest (aq_log q),
        st_last_index = newest (aq_log q), st_size_bytes = of_nat (payload_bytes (aq_log q))\<rparr>)))"
| "spec_request now (MsgQueueUpdateQueueConfigReq u config) A =
     with_queue A u (\<lambda>q. (set_queue u (Some (q\<lparr>aq_config := config\<rparr>)) A, Inr ReplyUnit))"
| "spec_request now (MsgQueuePostMessageReq u m) A =
     with_queue A u (\<lambda>q. (set_queue u (Some (appended now m q)) A, Inr (ReplyU64 (aq_next q))))"
| "spec_request now (MsgQueueSubscribeReq u user app name position) A =
     with_queue A u (\<lambda>q.
       case choose_name ''sub_id'' ''sub-'' name A of (s, A) \<Rightarrow>
       if a_subs A s \<noteq> None then (A, Inl (ReasonError (''Subscription already exists: '' @ s)))
       else (set_sub s (Some \<lparr>sub_queue_urn = u, cursor = log_cursor (aq_log q) position\<rparr>) A,
             Inr (ReplyString s)))"
| "spec_request now (MsgQueueUnsubscribeReq s) A =
     with_sub A s (\<lambda>sub. (set_sub s None A, Inr ReplyUnit))"
| "spec_request now (MsgQueueFetchMessagesReq s len auto_commit) A =
     with_sub A s (\<lambda>sub.
       let msgs = take (max 1 len) (backlog (cursor sub) (log_of A (sub_queue_urn sub))) in
       (if auto_commit \<and> msgs \<noteq> [] then set_sub s (Some (sub\<lparr>cursor := msg_index (last msgs) + 1\<rparr>)) A else A,
        Inr (ReplyMessages msgs)))"
| "spec_request now (MsgQueueReadMessageReq u cur len) A =
     with_queue A u (\<lambda>q. (A, Inr (ReplyMessages (take (max 1 len) (backlog cur (aq_log q))))))"
| "spec_request now (MsgQueueCommitAckReq s i) A =
     with_sub A s (\<lambda>sub. (set_sub s (Some (sub\<lparr>cursor := i + 1\<rparr>)) A, Inr ReplyUnit))"
| "spec_request now (MsgQueueSeekReq s position) A =
     with_sub A s (\<lambda>sub. with_queue A (sub_queue_urn sub) (\<lambda>q.
       (set_sub s (Some (sub\<lparr>cursor := log_cursor (aq_log q) position\<rparr>)) A, Inr ReplyUnit)))"
| "spec_request now (MsgQueueDeleteMessageBeforeReq u i) A =
     with_queue A u (\<lambda>q.
       let kept = backlog i (aq_log q) in
       (set_queue u (Some (q\<lparr>aq_log := kept\<rparr>)) A,
        Inr (ReplyU64 (of_nat (length (aq_log q) - length kept)))))"

section \<open>The indexes of a queue\<close>

text \<open>The messages of a queue have consecutive indexes that end below the next one, and 0 is
  never an index.\<close>

definition aq_wf :: "aqueue \<Rightarrow> bool" where
  "aq_wf q \<longleftrightarrow>
     map (unat \<circ> msg_index) (aq_log q) = [unat (aq_next q) - length (aq_log q) ..< unat (aq_next q)]
     \<and> length (aq_log q) < unat (aq_next q) \<and> payload_bytes (aq_log q) < 2 ^ 64"

text \<open>The counters neither run out of indexes nor of bytes.\<close>

fun room_for :: "msg_queue_req \<Rightarrow> astate \<Rightarrow> bool" where
  "room_for (MsgQueuePostMessageReq u m) A =
     (case a_queues A u of
        None \<Rightarrow> True
      | Some q \<Rightarrow> unat (aq_next q) + 1 < 2 ^ 64
                 \<and> payload_bytes (aq_log q) + length (msg_payload m) < 2 ^ 64)"
| "room_for req A = True"

text \<open>The names in a request. A name with a zero byte is not supported: its messages could lie
  among those of another queue.\<close>

fun plain_names :: "msg_queue_req \<Rightarrow> bool" where
  "plain_names (MsgQueueCreateQueueReq name appid app_owner config) =
     (nul_free appid \<and> nul_free app_owner \<and> (case name of None \<Rightarrow> True | Some v \<Rightarrow> nul_free v))"
| "plain_names (MsgQueueDeleteQueueReq u) = nul_free u"
| "plain_names (MsgQueueGetQueueStatsReq u) = nul_free u"
| "plain_names (MsgQueueUpdateQueueConfigReq u config) = nul_free u"
| "plain_names (MsgQueuePostMessageReq u m) = nul_free u"
| "plain_names (MsgQueueSubscribeReq u user app name position) = nul_free u"
| "plain_names (MsgQueueReadMessageReq u cur len) = nul_free u"
| "plain_names (MsgQueueDeleteMessageBeforeReq u i) = nul_free u"
| "plain_names req = True"

section \<open>The state held by the trees\<close>

definition meta_of :: "aqueue \<Rightarrow> queue_meta" where
  "meta_of q = \<lparr>next_index = aq_next q, message_count = of_nat (length (aq_log q)),
     first_index = oldest (aq_log q), last_index = newest (aq_log q),
     size_bytes = of_nat (payload_bytes (aq_log q))\<rparr>"

definition holds :: "('v \<Rightarrow> (string, 'a) result) \<Rightarrow> ('k \<times> 'v) list \<Rightarrow> 'k \<Rightarrow> 'a option \<Rightarrow> bool" where
  "holds dec es k a =
     (case a of
        None \<Rightarrow> map_of es k = None
      | Some a \<Rightarrow> \<exists>v. map_of es k = Some v \<and> dec v = Inr a)"

definition message_entries :: "string \<Rightarrow> (bytes \<times> bytes) list \<Rightarrow> (bytes \<times> bytes) list" where
  "message_entries u es = filter (\<lambda>(k, v). prefix (message_prefix u) k) es"

definition entry_of :: "'t kmsg_env \<Rightarrow> string \<Rightarrow> bytes \<times> bytes \<Rightarrow> message \<Rightarrow> bool" where
  "entry_of env u e m \<longleftrightarrow> fst e = message_key u (msg_index m) \<and> de_message env (snd e) = Inr m"

definition queue_rep :: "'t kmsg_env \<Rightarrow> ('t \<Rightarrow> (bytes \<times> bytes) list) \<Rightarrow> 't sled_msg_queue \<Rightarrow> string \<Rightarrow> aqueue option \<Rightarrow> bool" where
  "queue_rep env ent st u q \<longleftrightarrow>
     holds (de_config env) (ent (queues st)) (queue_key u) (map_option aq_config q)
     \<and> holds (de_meta env) (ent (queue_metas st)) (queue_key u) (map_option meta_of q)
     \<and> list_all2 (entry_of env u) (message_entries u (ent (messages st)))
         (case q of None \<Rightarrow> [] | Some q \<Rightarrow> aq_log q)
     \<and> pred_option aq_wf q"

definition kmsg_rep :: "'t kmsg_env \<Rightarrow> ('t \<Rightarrow> (bytes \<times> bytes) list) \<Rightarrow> 't sled_msg_queue \<Rightarrow> astate \<Rightarrow> bool" where
  "kmsg_rep env ent st A \<longleftrightarrow>
     (\<forall>u. nul_free u \<longrightarrow> queue_rep env ent st u (a_queues A u))
     \<and> (\<forall>s. holds (de_sub env) (ent (subs st)) (as_bytes s) (a_subs A s))
     \<and> (\<forall>s sub. a_subs A s = Some sub \<longrightarrow> nul_free (sub_queue_urn sub))
     \<and> (\<forall>c. counter_value (map_of (ent (meta st)) (as_bytes c)) = Some (a_ids A c))"

end
