(* ===== verification/Msg_Queue_Store.thy ===== *)
theory Msg_Queue_Store
  imports Msg_Queue_Spec
begin

text \<open>
  The interface of the store and of the encoding, as the locale \<open>kmsg_store\<close>: \<open>ent t\<close> are the
  entries of a tree in the order of their keys. The laws are the documented behaviour of
  \<open>sled\<close> and \<open>serde_json\<close> where no input or output fails; in the model every failure is a
  branch of the operations. The locale derives what one call does to the trees and to the
  abstract state, and how a range scan reads a queue.
\<close>

abbreviation put :: "'t kmsg_env \<Rightarrow> 't \<Rightarrow> bytes \<Rightarrow> bytes \<Rightarrow> 't" where
  "put env t k v \<equiv> projr (sl_insert env t k v)"

abbreviation del :: "'t kmsg_env \<Rightarrow> 't \<Rightarrow> bytes \<Rightarrow> 't" where
  "del env t k \<equiv> fst (projr (sl_remove env t k))"

locale kmsg_store =
  fixes env :: "'t kmsg_env" and ent :: "'t \<Rightarrow> (bytes \<times> bytes) list"
  assumes ent_sorted: "key_sorted (ent t)"
    and get: "sl_get env t k = Inr (map_of (ent t) k)"
    and insert: "\<exists>t'. sl_insert env t k v = Inr t' \<and> map_of (ent t') = (map_of (ent t))(k \<mapsto> v)"
    and remove: "\<exists>t'. sl_remove env t k = Inr (t', map_of (ent t) k)
      \<and> map_of (ent t') = (map_of (ent t))(k := None)"
    and cas: "\<exists>t'. sl_cas env t k old new = Inr (t', map_of (ent t) k = old)
      \<and> map_of (ent t') = (if map_of (ent t) k = old then (map_of (ent t))(k := new) else map_of (ent t))"
    and range: "sl_range env t a b = map Inr (filter (\<lambda>(k, v). a \<le> k \<and> k < b) (ent t))"
    and range_incl: "sl_range_incl env t a b = map Inr (filter (\<lambda>(k, v). a \<le> k \<and> k \<le> b) (ent t))"
    and scan_prefix: "sl_scan_prefix env t p = map Inr (filter (\<lambda>(k, v). prefix p k) (ent t))"
    and iter: "sl_iter env t = map Inr (ent t)"
    and transaction: "sl_transaction env f trees = f trees"
    and flush_ok: "sl_flush env ts = Inr ()"
    and config_codec: "\<exists>b. ser_config env c = Inr b \<and> de_config env b = Inr c"
    and meta_codec: "\<exists>b. ser_meta env m = Inr b \<and> de_meta env b = Inr m"
    and message_codec: "\<exists>b. ser_message env x = Inr b \<and> de_message env b = Inr x"
    and sub_codec: "\<exists>b. ser_sub env s = Inr b \<and> de_sub env b = Inr s"
begin

lemma put_ok: "sl_insert env t k v = Inr (put env t k v)"
  using insert [of t k v] by auto

lemma put_map: "map_of (ent (put env t k v)) = (map_of (ent t))(k \<mapsto> v)"
  using insert [of t k v] by auto

lemma del_ok: "sl_remove env t k = Inr (del env t k, map_of (ent t) k)"
  using remove [of t k] by auto

lemma del_map: "map_of (ent (del env t k)) = (map_of (ent t))(k := None)"
  using remove [of t k] by auto

lemma get_from_eq: "get_from env tree k st = (st, Inr (map_of (ent (tree st)) k))"
  by (simp add: get_from_def get)

lemma insert_into_eq: "insert_into env tree upd k v st = (upd (\<lambda>_. put env (tree st) k v) st, Inr ())"
  using insert [of "tree st" k v] by (auto simp: insert_into_def)

lemma remove_from_eq:
  "remove_from env tree upd k st = (upd (\<lambda>_. del env (tree st) k) st, Inr (map_of (ent (tree st)) k))"
  using remove [of "tree st" k] by (auto simp: remove_from_def)

lemma flush_eq: "flush env st = (st, Inr ())"
  by (simp add: flush_def flush_ok)

lemma sync_if_eq: "sync_if env config st = (st, Inr ())"
  by (simp add: sync_if_def flush_eq)

lemma foldl_del_map: "map_of (ent (foldl (del env) t ks)) = (map_of (ent t)) |` (- set ks)"
proof (induction ks arbitrary: t)
  case (Cons k ks)
  then show ?case by (auto simp: del_map restrict_map_def)
qed (simp add: restrict_map_def)

lemma remove_all_from_eq:
  assumes lens: "\<And>f st. tree (upd f st) = f (tree st)" "\<And>f g st. upd f (upd g st) = upd (f \<circ> g) st"
    "\<And>st. upd (\<lambda>_. tree st) st = st"
  shows "remove_all_from env tree upd ks st = (upd (\<lambda>_. foldl (del env) (tree st) ks) st, Inr ())"
proof -
  have "foldl (\<lambda>st k. fst (remove_from env tree upd k st)) st ks
      = upd (\<lambda>_. foldl (del env) (tree st) ks) st" for st
    by (induction ks arbitrary: st) (simp_all add: remove_from_eq lens comp_def)
  then show ?thesis by (simp add: remove_all_from_def)
qed

lemmas tree_ops = get_from_eq insert_into_eq remove_from_eq flush_eq sync_if_eq

section \<open>Scanning a queue\<close>

lemma message_entries_sorted: "key_sorted (message_entries u (ent t))"
  by (simp add: message_entries_def key_sorted_filter ent_sorted)

lemma map_of_message_entries:
  "map_of (message_entries u es) k = (if prefix (message_prefix u) k then map_of es k else None)"
  by (simp add: message_entries_def map_of_filter_key)

lemma message_entries_cong:
  assumes "\<And>k. prefix (message_prefix u) k \<Longrightarrow> map_of (ent t') k = map_of (ent t) k"
  shows "message_entries u (ent t') = message_entries u (ent t)"
  using assms
  by (intro key_sorted_unique) (auto simp: message_entries_sorted map_of_message_entries)

lemma message_entries_put_other:
  assumes "nul_free u" "nul_free v" "u \<noteq> v"
  shows "message_entries u (ent (put env t (message_key v i) d)) = message_entries u (ent t)"
  using assms message_prefix_unique by (intro message_entries_cong) (auto simp: put_map)

lemma message_entries_put_last:
  assumes "\<And>k. k \<in> fst ` set (message_entries u (ent t)) \<Longrightarrow> k < message_key u i"
  shows "message_entries u (ent (put env t (message_key u i) d))
    = message_entries u (ent t) @ [(message_key u i, d)]"
proof (rule key_sorted_unique)
  let ?es = "message_entries u (ent t)"
  have new: "map_of ?es (message_key u i) = None"
    using assms by (force simp: map_of_eq_None_iff)
  show "map_of (message_entries u (ent (put env t (message_key u i) d)))
      = map_of (?es @ [(message_key u i, d)])"
    by (rule ext) (use new in \<open>auto simp: map_of_message_entries put_map map_add_def split: option.splits\<close>)
  show "key_sorted (?es @ [(message_key u i, d)])"
    using assms message_entries_sorted [of u t] by (simp add: sorted_wrt_append)
qed (rule message_entries_sorted)

lemma range_incl_entries:
  "sl_range_incl env t (message_key u i) (message_key u j)
     = map Inr (filter (\<lambda>(k, v). message_key u i \<le> k \<and> k \<le> message_key u j) (message_entries u (ent t)))"
  unfolding range_incl message_entries_def filter_filter
  by (rule arg_cong [where f = "map Inr"], rule filter_cong) (auto dest: message_range_prefix)

lemma range_entries:
  "sl_range env t (message_key u i) (message_key u j)
     = map Inr (filter (\<lambda>(k, v). message_key u i \<le> k \<and> k < message_key u j) (message_entries u (ent t)))"
  unfolding range message_entries_def filter_filter
  by (rule arg_cong [where f = "map Inr"], rule filter_cong)
    (auto dest: message_range_prefix [OF _ less_imp_le])

lemma list_all2_filter_entries:
  assumes "list_all2 (entry_of env u) es log" "\<And>m. P (message_key u (msg_index m)) = Q m"
  shows "list_all2 (entry_of env u) (filter (\<lambda>(k, v). P k) es) (filter Q log)"
  using assms(1) by (induction rule: list_all2_induct) (auto simp: entry_of_def assms(2))

lemma read_range_entries:
  assumes "list_all2 (entry_of env u) es log"
  shows "read_range env len acc (map Inr es)
    = Inr (acc @ take (max 1 (len - length acc)) log)"
  using assms
proof (induction arbitrary: acc rule: list_all2_induct)
  case (Cons e es m log)
  obtain k v where e: "e = (k, v)" "de_message env v = Inr m"
    using Cons.hyps(1) by (cases e) (simp add: entry_of_def)
  show ?case
  proof (cases "len \<le> Suc (length acc)")
    case True
    then have "max 1 (len - length acc) = 1" by simp
    with True e show ?thesis by (simp add: decode_message_def)
  next
    case False
    then have "max 1 (len - length acc) = Suc (max 1 (len - Suc (length acc)))" by simp
    with False e Cons.IH [of "acc @ [m]"] show ?thesis by (simp add: decode_message_def)
  qed
qed simp

lemma read_from_cursor:
  assumes "list_all2 (entry_of env u) (message_entries u (ent t)) log"
  shows "read_range env len [] (sl_range_incl env t (message_key u cur) (message_key u (-1)))
    = Inr (take (max 1 len) (backlog cur log))"
proof -
  have "list_all2 (entry_of env u)
      (filter (\<lambda>(k, v). message_key u cur \<le> k \<and> k \<le> message_key u (-1)) (message_entries u (ent t)))
      (filter (\<lambda>m. cur \<le> msg_index m) log)"
    using assms by (rule list_all2_filter_entries) simp
  then show ?thesis
    by (simp add: range_incl_entries read_range_entries backlog_def)
qed

end

end
