(* ===== verification/Msg_Queue_Refine.thy ===== *)
theory Msg_Queue_Refine
  imports Msg_Queue_Store
begin

text \<open>
  Every request of the message queue implements \<open>spec_request\<close>: the lemmas on the abstract
  queue, one lemma per handler inside the locale of the store, and their combination.
\<close>

section \<open>The abstract queue\<close>

lemma payload_bytes_simps [simp]:
  "payload_bytes [] = 0"
  "payload_bytes (m # ms) = length (msg_payload m) + payload_bytes ms"
  "payload_bytes (ms @ ns) = payload_bytes ms + payload_bytes ns"
  by (simp_all add: payload_bytes_def)

lemma payload_bytes_split:
  "payload_bytes ms = payload_bytes (filter P ms) + payload_bytes (filter (\<lambda>m. \<not> P m) ms)"
  by (induction ms) simp_all

lemma last_filter_last: "xs \<noteq> [] \<Longrightarrow> P (last xs) \<Longrightarrow> last (filter P xs) = last xs"
  by (induction xs rule: rev_induct) simp_all

lemma upt_filter_ge: "filter (\<lambda>k. i \<le> k) [a..<b] = [max a i..<b]"
  by (induction b) (auto simp: max_def)

lemma wf_index_image: "aq_wf q \<Longrightarrow> m \<in> set (aq_log q) \<Longrightarrow>
    unat (msg_index m) \<in> {unat (aq_next q) - length (aq_log q) ..< unat (aq_next q)}"
  unfolding aq_wf_def by (metis comp_apply image_eqI list.set_map set_upt)

lemma wf_index:
  assumes "aq_wf q" "m \<in> set (aq_log q)"
  shows "msg_index m \<noteq> 0" "msg_index m < aq_next q"
  using wf_index_image [OF assms] assms(1)
  by (auto simp: aq_wf_def word_less_nat_alt)

lemma wf_length: "aq_wf q \<Longrightarrow> length (aq_log q) < 2 ^ 64"
  using unat_u64_less [of "aq_next q"] by (simp add: aq_wf_def)

lemma wf_last_max:
  assumes "aq_wf q" "m \<in> set (aq_log q)"
  shows "msg_index m \<le> msg_index (last (aq_log q))"
proof -
  let ?l = "aq_log q" and ?n = "unat (aq_next q)"
  have "?l \<noteq> []" using assms(2) by auto
  then have "unat (msg_index (last ?l)) = last (map (unat \<circ> msg_index) ?l)" by (simp add: last_map)
  also have "\<dots> = ?n - 1"
    using assms(1) \<open>?l \<noteq> []\<close> by (simp add: aq_wf_def del: map_eq_conv)
  finally show ?thesis
    using wf_index_image [OF assms] by (simp add: word_le_nat_alt) linarith
qed

lemma wf_new: "aq_wf \<lparr>aq_config = c, aq_next = 1, aq_log = []\<rparr>"
  by (simp add: aq_wf_def)

lemma wf_config: "aq_wf (q\<lparr>aq_config := c\<rparr>) = aq_wf q"
  by (simp add: aq_wf_def)

lemma stamp_simps [simp]:
  "msg_index (stamp now i m) = i"
  "msg_payload (stamp now i m) = msg_payload m"
  by (simp_all add: stamp_def)

lemma appended_config [simp]: "aq_config (appended now m q) = aq_config q"
  by (simp add: appended_def)

lemma wf_appended:
  assumes "aq_wf q" "unat (aq_next q) + 1 < 2 ^ 64"
    "payload_bytes (aq_log q) + length (msg_payload m) < 2 ^ 64"
  shows "aq_wf (appended now m q)"
proof -
  have "unat (aq_next q + 1) = unat (aq_next q) + 1"
    using assms(2) by (intro unat_plus_one) simp
  then show ?thesis
    using assms(1,3) by (simp add: aq_wf_def appended_def del: map_eq_conv)
qed

lemma wf_trimmed:
  assumes "aq_wf q"
  shows "aq_wf (q\<lparr>aq_log := backlog i (aq_log q)\<rparr>)"
proof -
  let ?l = "aq_log q" and ?n = "unat (aq_next q)"
  have idx: "map (unat \<circ> msg_index) ?l = [?n - length ?l ..< ?n]" and len: "length ?l < ?n"
    using assms by (simp_all add: aq_wf_def)
  have "map (unat \<circ> msg_index) (backlog i ?l) = filter (\<lambda>k. unat i \<le> k) (map (unat \<circ> msg_index) ?l)"
    by (simp add: backlog_def filter_map comp_def word_le_nat_alt)
  also have "\<dots> = [max (?n - length ?l) (unat i) ..< ?n]"
    unfolding idx by (rule upt_filter_ge)
  finally have kept: "map (unat \<circ> msg_index) (backlog i ?l) = [max (?n - length ?l) (unat i) ..< ?n]" .
  from arg_cong [OF this, of length] have "length (backlog i ?l) = ?n - max (?n - length ?l) (unat i)"
    by simp
  then have "[?n - length (backlog i ?l) ..< ?n] = [max (?n - length ?l) (unat i) ..< ?n]"
    using len by (cases "unat i \<le> ?n") (auto simp: max_def)
  moreover have "length (backlog i ?l) \<le> length ?l" by (simp add: backlog_def)
  moreover have "payload_bytes (backlog i ?l) \<le> payload_bytes ?l"
    using payload_bytes_split [of ?l "\<lambda>m. i \<le> msg_index m"] by (simp add: backlog_def)
  ultimately show ?thesis
    using kept len assms by (simp add: aq_wf_def del: map_eq_conv)
qed

section \<open>Counters\<close>

lemma oldest_zero: "aq_wf q \<Longrightarrow> oldest (aq_log q) = 0 \<longleftrightarrow> aq_log q = []"
  using wf_index(1) [of q "hd (aq_log q)"] by (cases "aq_log q") (auto simp: oldest_def)

lemma cursor_for_meta: "aq_wf q \<Longrightarrow> cursor_for (meta_of q) position = log_cursor (aq_log q) position"
  using oldest_zero [of q]
  by (cases "aq_log q") (auto simp: cursor_for_def log_cursor_def meta_of_def oldest_def newest_def split: sub_position.splits)

lemma count_message_meta:
  assumes "aq_wf q"
  shows "count_message (of_nat (length (msg_payload m))) (meta_of q) = meta_of (appended now m q)"
  using oldest_zero [OF assms] assms
  by (cases "aq_log q")
    (auto simp: count_message_def meta_of_def appended_def oldest_def newest_def Let_def aq_wf_def)

lemma meta_of_new: "meta_of \<lparr>aq_config = c, aq_next = 1, aq_log = []\<rparr> = empty_meta"
  by (simp add: meta_of_def empty_meta_def oldest_def newest_def)

lemma meta_of_config: "meta_of (q\<lparr>aq_config := c\<rparr>) = meta_of q"
  by (simp add: meta_of_def)

lemma saturating_sub_of_nat:
  assumes "a + b < 2 ^ 64"
  shows "saturating_sub (of_nat (a + b) :: u64) (of_nat b) = of_nat a"
proof (rule unsigned_word_eqI)
  show "unat (saturating_sub (of_nat (a + b) :: u64) (of_nat b)) = unat (of_nat a :: u64)"
    unfolding unat_saturating_sub using assms by (simp add: unat_of_nat_small del: of_nat_add)
qed

section \<open>Names\<close>

lemma set_trim_start: "set (trim_start ws s) \<subseteq> set s"
proof (induction ws s rule: trim_start.induct)
  case (1 ws s)
  show ?case
  proof (cases "find (\<lambda>w. w \<noteq> [] \<and> prefix w s) ws")
    case (Some w)
    have "set (trim_start ws (drop (length w) s)) \<subseteq> set (drop (length w) s)"
      by (rule 1 [OF Some])
    with Some set_drop_subset [of "length w" s] show ?thesis by (subst trim_start.simps) auto
  qed (subst trim_start.simps, simp)
qed

lemma set_trim: "set (trim s) \<subseteq> set s"
  unfolding trim_def using set_trim_start by (metis order_trans set_rev)

lemma nul_free_calc:
  assumes "nul_free appid" "nul_free app_owner" "nul_free name"
  shows "nul_free (calc_queue_urn appid app_owner name)"
  using assms set_trim [of name] by (auto simp: calc_queue_urn_def Let_def)

lemma nul_free_show_nat: "nul_free (show_nat n)"
  using show_nat_digits [of "CHR 0x00" n] by auto

section \<open>What the trees hold\<close>

lemma holds_None: "holds dec es k None \<longleftrightarrow> map_of es k = None"
  by (simp add: holds_def)

lemma holds_Some: "holds dec es k (Some a) \<longleftrightarrow> (\<exists>v. map_of es k = Some v \<and> dec v = Inr a)"
  by (simp add: holds_def)

lemma holds_cong: "map_of es' k = map_of es k \<Longrightarrow> holds dec es' k a = holds dec es k a"
  by (cases a) (simp_all add: holds_def)

lemma rep_queue: "kmsg_rep env ent st A \<Longrightarrow> nul_free u \<Longrightarrow> queue_rep env ent st u (a_queues A u)"
  by (simp add: kmsg_rep_def)

lemma rep_sub: "kmsg_rep env ent st A \<Longrightarrow> holds (de_sub env) (ent (subs st)) (as_bytes s) (a_subs A s)"
  by (simp add: kmsg_rep_def)

lemma rep_sub_nul_free: "kmsg_rep env ent st A \<Longrightarrow> a_subs A s = Some sub \<Longrightarrow> nul_free (sub_queue_urn sub)"
  by (simp add: kmsg_rep_def)

lemma rep_ids: "kmsg_rep env ent st A \<Longrightarrow> counter_value (map_of (ent (meta st)) (as_bytes c)) = Some (a_ids A c)"
  by (simp add: kmsg_rep_def)

text \<open>A change of one queue that leaves the entries of the others alone.\<close>

lemma rep_set_queue:
  assumes rep: "kmsg_rep env ent st A"
    and same: "subs st' = subs st" "meta st' = meta st"
    and other: "\<And>v. nul_free v \<Longrightarrow> v \<noteq> u \<Longrightarrow>
      map_of (ent (queues st')) (queue_key v) = map_of (ent (queues st)) (queue_key v)
      \<and> map_of (ent (queue_metas st')) (queue_key v) = map_of (ent (queue_metas st)) (queue_key v)
      \<and> message_entries v (ent (messages st')) = message_entries v (ent (messages st))"
    and changed: "queue_rep env ent st' u q"
  shows "kmsg_rep env ent st' (set_queue u q A)"
proof -
  have "queue_rep env ent st' v (if v = u then q else a_queues A v)" if "nul_free v" for v
  proof (cases "v = u")
    case False
    note o = other [OF that False]
    show ?thesis
      using rep_queue [OF rep that] False
        holds_cong [OF o [THEN conjunct1], of "de_config env"]
        holds_cong [OF o [THEN conjunct2, THEN conjunct1], of "de_meta env"]
        o [THEN conjunct2, THEN conjunct2]
      unfolding queue_rep_def by simp
  qed (use changed in simp)
  then show ?thesis
    using rep same by (simp add: kmsg_rep_def set_queue_def)
qed

context kmsg_store
begin

lemma get_queue_config_rep:
  assumes "queue_rep env ent st u q"
  shows "get_queue_config env u st
    = (st, case q of None \<Rightarrow> Inl (no_queue_error u) | Some q \<Rightarrow> Inr (aq_config q))"
  using assms
  by (cases q) (auto simp: get_queue_config_def sr_bind_def get_from_eq queue_rep_def holds_def
      no_queue_error_def decode_queue_config_def)

lemma get_queue_meta_rep:
  assumes "queue_rep env ent st u q"
  shows "get_queue_meta env u st
    = (st, case q of None \<Rightarrow> Inl (no_queue_error u) | Some q \<Rightarrow> Inr (meta_of q))"
  using assms
  by (cases q) (auto simp: get_queue_meta_def sr_bind_def get_from_eq queue_rep_def holds_def
      no_queue_error_def decode_queue_meta_def)

lemma load_sub_rep:
  assumes "kmsg_rep env ent st A"
  shows "load_sub env s st = (st, case a_subs A s of None \<Rightarrow> Inl (no_sub_error s) | Some sub \<Rightarrow> Inr sub)"
  using rep_sub [OF assms, of s]
  by (cases "a_subs A s") (auto simp: load_sub_def sr_bind_def get_from_eq holds_def no_sub_error_def)

lemma store_sub_rep:
  assumes "kmsg_rep env ent st A" "nul_free (sub_queue_urn sub)"
  shows "\<exists>st'. store_sub env s sub st = (st', Inr ()) \<and> kmsg_rep env ent st' (set_sub s (Some sub) A)"
proof -
  obtain b where b: "ser_sub env sub = Inr b" "de_sub env b = Inr sub"
    using sub_codec [of sub] by blast
  let ?st = "st\<lparr>subs := put env (subs st) (as_bytes s) b\<rparr>"
  have "holds (de_sub env) (ent (subs ?st)) (as_bytes s') (a_subs (set_sub s (Some sub) A) s')" for s'
    using rep_sub [OF assms(1), of s'] b by (auto simp: holds_def put_map set_sub_def split: option.splits)
  then have "kmsg_rep env ent ?st (set_sub s (Some sub) A)"
    using assms by (simp add: kmsg_rep_def queue_rep_def set_sub_def)
  moreover have "store_sub env s sub st = (?st, Inr ())"
    by (simp add: store_sub_def sr_bind_def b insert_into_eq)
  ultimately show ?thesis by blast
qed

lemma store_queue_meta_rep:
  obtains b where "store_queue_meta env u m st = (st\<lparr>queue_metas := put env (queue_metas st) (queue_key u) b\<rparr>, Inr ())"
    "de_meta env b = Inr m"
proof -
  obtain b where "ser_meta env m = Inr b" "de_meta env b = Inr m"
    using meta_codec [of m] by blast
  then show ?thesis
    by (intro that [of b]) (simp_all add: store_queue_meta_def sr_bind_def encode_queue_meta_def insert_into_eq)
qed

lemma entry_message:
  assumes "list_all2 (entry_of env u) es log" "e \<in> set es"
  obtains m where "m \<in> set log" "entry_of env u e m"
proof -
  from assms(2) obtain j where j: "j < length es" "e = es ! j" by (auto simp: in_set_conv_nth)
  then show ?thesis
    using list_all2_nthD [OF assms(1)] list_all2_lengthD [OF assms(1)] by (intro that [of "log ! j"]) simp_all
qed

lemma entries_below:
  assumes "list_all2 (entry_of env u) es (aq_log q)" "aq_wf q" "k \<in> fst ` set es"
  shows "k < message_key u (aq_next q)"
proof -
  obtain e where e: "e \<in> set es" "k = fst e" using assms(3) by blast
  then obtain m where "m \<in> set (aq_log q)" "entry_of env u e m"
    using entry_message [OF assms(1)] by blast
  then show ?thesis
    using e wf_index(2) [OF assms(2)] by (simp add: entry_of_def)
qed

text \<open>Posting with counters \<open>c\<close> in the store: the stamped message is written under their next
  index, and they are written back with the message counted.\<close>

lemma post_effect:
  assumes config: "map_of (ent (queues st)) (queue_key u) = Some cb" "de_config env cb = Inr config"
    and counters: "map_of (ent (queue_metas st)) (queue_key u) = Some mb" "de_meta env mb = Inr c"
  obtains d b where
    "handle_post_message env now u m st
       = (st\<lparr>messages := put env (messages st) (message_key u (next_index c)) d,
            queue_metas := put env (queue_metas st) (queue_key u) b\<rparr>, Inr (next_index c))"
    "de_message env d = Inr (stamp now (next_index c) m)"
    "de_meta env b = Inr (count_message (of_nat (length (msg_payload m))) c)"
proof -
  let ?i = "next_index c" and ?c = "count_message (of_nat (length (msg_payload m))) c"
  obtain d where d: "ser_message env (stamp now ?i m) = Inr d" "de_message env d = Inr (stamp now ?i m)"
    using message_codec [of "stamp now ?i m"] by blast
  obtain b where b: "ser_meta env ?c = Inr b" "de_meta env b = Inr ?c"
    using meta_codec [of ?c] by blast
  define msgs where "msgs = put env (messages st) (message_key u ?i) d"
  define metas where "metas = put env (queue_metas st) (queue_key u) b"
  have ins: "sl_insert env (messages st) (message_key u ?i) d = Inr msgs"
    "sl_insert env (queue_metas st) (queue_key u) b = Inr metas"
    unfolding msgs_def metas_def by (rule put_ok)+
  define m' where "m' = (if msg_created_at m = 0 then m\<lparr>msg_created_at := now\<rparr> else m)"
  have m': "m'\<lparr>msg_index := ?i\<rparr> = stamp now ?i m" "msg_payload m' = msg_payload m"
    by (simp_all add: m'_def stamp_def)
  have "post_in_transaction env u m' (messages st, queue_metas st) = Inr ((msgs, metas), ?i)"
    by (simp add: post_in_transaction_def get decode_queue_meta_def encode_queue_meta_def
        counters d b ins m' Let_def)
  then have "handle_post_message env now u m st = (st\<lparr>messages := msgs, queue_metas := metas\<rparr>, Inr ?i)"
    using config by (simp add: handle_post_message_def get_queue_config_def get_from_eq sr_bind_def
        decode_queue_config_def transaction sync_if_eq m'_def Let_def)
  with d(2) b(2) show ?thesis by (intro that) (simp_all add: msgs_def metas_def)
qed

lemma post_refines:
  assumes rep: "kmsg_rep env ent st A" and u: "nul_free u"
    and room: "room_for (MsgQueuePostMessageReq u m) A"
  shows "\<exists>st'. reply_with ReplyU64 (handle_post_message env now u m st)
      = (st', snd (spec_request now (MsgQueuePostMessageReq u m) A))
    \<and> kmsg_rep env ent st' (fst (spec_request now (MsgQueuePostMessageReq u m) A))"
proof (cases "a_queues A u")
  case None
  then show ?thesis
    using rep rep_queue [OF rep u] get_queue_config_rep [OF rep_queue [OF rep u]]
    by (simp add: handle_post_message_def sr_bind_def with_queue_def reply_with_def)
next
  case (Some q)
  let ?i = "aq_next q" and ?q = "appended now m q"
  have qr: "queue_rep env ent st u (Some q)" using rep_queue [OF rep u] Some by simp
  have wf: "aq_wf q" "aq_wf ?q"
    using qr room Some wf_appended [of q m now] by (auto simp: queue_rep_def)
  have log: "list_all2 (entry_of env u) (message_entries u (ent (messages st))) (aq_log q)"
    using qr by (simp add: queue_rep_def)
  have nx: "next_index (meta_of q) = ?i" by (simp add: meta_of_def)
  obtain cb mb where "map_of (ent (queues st)) (queue_key u) = Some cb" "de_config env cb = Inr (aq_config q)"
    "map_of (ent (queue_metas st)) (queue_key u) = Some mb" "de_meta env mb = Inr (meta_of q)"
    using qr by (auto simp: queue_rep_def holds_def)
  from post_effect [OF this, unfolded nx, of now m] obtain d b where
    post: "handle_post_message env now u m st = (st\<lparr>messages := put env (messages st) (message_key u ?i) d,
       queue_metas := put env (queue_metas st) (queue_key u) b\<rparr>, Inr ?i)"
    and d: "de_message env d = Inr (stamp now ?i m)"
    and b: "de_meta env b = Inr (count_message (of_nat (length (msg_payload m))) (meta_of q))"
    by blast
  define msgs where "msgs = put env (messages st) (message_key u ?i) d"
  let ?st = "st\<lparr>messages := msgs, queue_metas := put env (queue_metas st) (queue_key u) b\<rparr>"
  have "message_entries u (ent msgs) = message_entries u (ent (messages st)) @ [(message_key u ?i, d)]"
    unfolding msgs_def using entries_below [OF log wf(1)] by (rule message_entries_put_last)
  then have "list_all2 (entry_of env u) (message_entries u (ent msgs)) (aq_log ?q)"
    using log d by (simp add: appended_def entry_of_def list_all2_appendI)
  then have new: "queue_rep env ent ?st u (Some ?q)"
    using qr b wf(2) count_message_meta [OF wf(1), of m now] unfolding queue_rep_def holds_def
    by (simp add: put_map)
  have "kmsg_rep env ent ?st (set_queue u (Some ?q) A)"
    using message_entries_put_other [OF _ u]
    by (intro rep_set_queue [OF rep _ _ _ new]) (simp_all add: msgs_def put_map queue_key_def)
  then show ?thesis
    using Some post by (simp add: with_queue_def reply_with_def msgs_def)
qed

lemma stats_refines:
  assumes rep: "kmsg_rep env ent st A" and u: "nul_free u"
  shows "reply_with ReplyStats (handle_get_queue_stats env u st)
    = (st, snd (spec_request now (MsgQueueGetQueueStatsReq u) A))
    \<and> fst (spec_request now (MsgQueueGetQueueStatsReq u) A) = A"
  using get_queue_meta_rep [OF rep_queue [OF rep u]]
  by (cases "a_queues A u")
    (simp_all add: handle_get_queue_stats_def sr_bind_def with_queue_def reply_with_def meta_of_def)

lemma read_refines:
  assumes rep: "kmsg_rep env ent st A" and u: "nul_free u"
  shows "reply_with ReplyMessages (handle_read_message env u cur len st)
    = (st, snd (spec_request now (MsgQueueReadMessageReq u cur len) A))
    \<and> fst (spec_request now (MsgQueueReadMessageReq u cur len) A) = A"
proof (cases "a_queues A u")
  case (Some q)
  then have "list_all2 (entry_of env u) (message_entries u (ent (messages st))) (aq_log q)"
    using rep_queue [OF rep u] by (simp add: queue_rep_def)
  from read_from_cursor [OF this] show ?thesis
    using get_queue_meta_rep [OF rep_queue [OF rep u]] Some
    by (simp add: handle_read_message_def sr_bind_def with_queue_def reply_with_def)
qed (use get_queue_meta_rep [OF rep_queue [OF rep u]] in
  \<open>simp add: handle_read_message_def sr_bind_def with_queue_def reply_with_def\<close>)

lemma update_config_refines:
  assumes rep: "kmsg_rep env ent st A" and u: "nul_free u"
  shows "\<exists>st'. reply_with (\<lambda>_. ReplyUnit) (handle_update_queue_config env u config st)
      = (st', snd (spec_request now (MsgQueueUpdateQueueConfigReq u config) A))
    \<and> kmsg_rep env ent st' (fst (spec_request now (MsgQueueUpdateQueueConfigReq u config) A))"
proof (cases "a_queues A u")
  case None
  then show ?thesis
    using rep rep_queue [OF rep u]
    by (simp add: handle_update_queue_config_def sr_bind_def with_queue_def reply_with_def get_from_eq
        queue_rep_def holds_def no_queue_error_def)
next
  case (Some q)
  obtain b where b: "ser_config env config = Inr b" "de_config env b = Inr config"
    using config_codec [of config] by blast
  let ?st = "st\<lparr>queues := put env (queues st) (queue_key u) b\<rparr>"
  have qr: "queue_rep env ent st u (Some q)" using rep_queue [OF rep u] Some by simp
  then have "queue_rep env ent ?st u (Some (q\<lparr>aq_config := config\<rparr>))"
    using b by (auto simp: queue_rep_def holds_def put_map meta_of_config wf_config)
  then have "kmsg_rep env ent ?st (set_queue u (Some (q\<lparr>aq_config := config\<rparr>)) A)"
    using rep by (intro rep_set_queue [of env ent st]) (auto simp: put_map queue_key_def)
  moreover have "handle_update_queue_config env u config st = (?st, Inr ())"
    using qr b by (auto simp: handle_update_queue_config_def sr_bind_def tree_ops queue_rep_def holds_def)
  ultimately show ?thesis
    using Some by (simp add: with_queue_def reply_with_def)
qed

end

end
