(* ===== verification/Msg_Queue_Handlers.thy ===== *)
theory Msg_Queue_Handlers
  imports Msg_Queue_Refine
begin

text \<open>
  The handlers that create and delete queues, subscribe, move cursors and trim a queue, each
  against the abstract state, and the loop that draws identifiers.
\<close>

lemma message_prefix_disjoint:
  assumes "nul_free u" "nul_free v" "prefix (message_prefix u) k" "prefix (message_prefix v) k"
  shows "u = v"
proof -
  obtain r where "k = message_prefix v @ r" using assms(4) by (auto simp: prefix_def)
  then have "as_bytes u = as_bytes v"
    using assms prefix_nul_unique [of "as_bytes u" "as_bytes v" r]
    by (simp add: nul_free_bytes message_prefix_def)
  then show ?thesis by simp
qed

lemma counter_value_be [simp]: "counter_value (Some (to_be_bytes v)) = Some v"
  by (simp add: counter_value_def)

lemma set_sub_nul_free:
  "kmsg_rep env ent st A \<Longrightarrow> a_subs A s = Some sub \<Longrightarrow> nul_free (sub_queue_urn (sub\<lparr>cursor := c\<rparr>))"
  by (simp add: rep_sub_nul_free)

text \<open>A change of the trees that keeps every lookup keeps the abstract state.\<close>

lemma rep_ids_update:
  assumes rep: "kmsg_rep env ent st A" and old: "a_ids A c = v"
    and t: "map_of (ent t) = (map_of (ent (meta st)))(as_bytes c \<mapsto> to_be_bytes w)"
  shows "kmsg_rep env ent (st\<lparr>meta := t\<rparr>) (A\<lparr>a_ids := (a_ids A)(c := w)\<rparr>)"
  using rep unfolding kmsg_rep_def queue_rep_def by (simp add: t)

context kmsg_store
begin

section \<open>Identifiers\<close>

text \<open>One turn: the swap succeeds exactly if the counter is the one that was read.\<close>

lemma next_id_turn:
  assumes "counter_value (map_of (ent t) key) = Some v"
  shows "map_of (ent (interf n t)) key = map_of (ent t) key \<Longrightarrow>
      \<exists>t'. next_id_loop env interf key n t = Some (t', Inr (v + 1))
        \<and> map_of (ent t') = (map_of (ent (interf n t)))(key \<mapsto> to_be_bytes (v + 1))"
    and "map_of (ent (interf n t)) key \<noteq> map_of (ent t) key \<Longrightarrow>
      \<exists>t'. next_id_loop env interf key n t = next_id_loop env interf key (Suc n) t'
        \<and> map_of (ent t') = map_of (ent (interf n t))"
  using assms cas [of "interf n t" key "map_of (ent t) key" "Some (to_be_bytes (v + 1))"]
  by (auto simp: next_id_loop.simps [of env interf key n t] get)

lemma next_id_rep:
  assumes rep: "kmsg_rep env ent st A"
  shows "\<exists>st'. next_id env (\<lambda>_ t. t) c st = Some (st', Inr (a_ids A c + 1))
    \<and> kmsg_rep env ent st' (A\<lparr>a_ids := (a_ids A)(c := a_ids A c + 1)\<rparr>)"
proof -
  obtain t where t: "next_id_loop env (\<lambda>_ t. t) (as_bytes c) 0 (meta st) = Some (t, Inr (a_ids A c + 1))"
    "map_of (ent t) = (map_of (ent (meta st)))(as_bytes c \<mapsto> to_be_bytes (a_ids A c + 1))"
    using next_id_turn(1) [OF rep_ids [OF rep, of c], of "\<lambda>_ t. t" 0] by blast
  then show ?thesis
    using rep_ids_update [OF rep refl t(2)] by (simp add: next_id_def)
qed

section \<open>Creating and subscribing\<close>

lemma create_named_rep:
  assumes rep: "kmsg_rep env ent st A" and u: "nul_free u"
  shows "\<exists>st'. create_named_queue env u config st
      = (st', if a_queues A u \<noteq> None then Inl (ReasonError (''Queue already exists: '' @ u)) else Inr u)
    \<and> kmsg_rep env ent st' (if a_queues A u \<noteq> None then A
        else set_queue u (Some \<lparr>aq_config = config, aq_next = 1, aq_log = []\<rparr>) A)"
proof -
  obtain b where b: "ser_config env config = Inr b" "de_config env b = Inr config"
    using config_codec [of config] by blast
  obtain t where t: "sl_cas env (queues st) (queue_key u) None (Some b)
      = Inr (t, map_of (ent (queues st)) (queue_key u) = None)"
    "map_of (ent t) = (if map_of (ent (queues st)) (queue_key u) = None
       then (map_of (ent (queues st)))(queue_key u := Some b) else map_of (ent (queues st)))"
    using cas [of "queues st" "queue_key u" None "Some b"] by blast
  have qr: "queue_rep env ent st u (a_queues A u)" by (rule rep_queue [OF rep u])
  show ?thesis
  proof (cases "a_queues A u")
    case None
    then have free: "map_of (ent (queues st)) (queue_key u) = None"
      using qr by (simp add: queue_rep_def holds_def)
    let ?q = "\<lparr>aq_config = config, aq_next = 1, aq_log = []\<rparr>"
    obtain mb where mb: "store_queue_meta env u empty_meta (st\<lparr>queues := t\<rparr>)
        = (st\<lparr>queues := t, queue_metas := put env (queue_metas st) (queue_key u) mb\<rparr>, Inr ())"
      "de_meta env mb = Inr empty_meta"
      by (rule store_queue_meta_rep [of u empty_meta "st\<lparr>queues := t\<rparr>"]) simp
    define st' where "st' = st\<lparr>queues := t, queue_metas := put env (queue_metas st) (queue_key u) mb\<rparr>"
    have "queue_rep env ent st' u (Some ?q)"
      using qr None b(2) mb(2) t(2) free
      by (simp add: queue_rep_def holds_def st'_def put_map meta_of_new wf_new)
    then have "kmsg_rep env ent st' (set_queue u (Some ?q) A)"
      using free t(2) by (intro rep_set_queue [OF rep]) (simp_all add: st'_def put_map queue_key_def)
    moreover have "create_named_queue env u config st = (st', Inr u)"
      using b(1) t(1) free mb(1) by (simp add: create_named_queue_def sr_bind_def sync_if_eq st'_def)
    ultimately show ?thesis using None by simp
  next
    case (Some q)
    then have used: "map_of (ent (queues st)) (queue_key u) \<noteq> None"
      using qr by (auto simp: queue_rep_def holds_def)
    with t(2) have same: "map_of (ent t) = map_of (ent (queues st))" by simp
    then have "holds dec (ent t) k a = holds dec (ent (queues st)) k a"
      for dec :: "bytes \<Rightarrow> (string, queue_config) result" and k a
      by (intro holds_cong) simp
    then have "kmsg_rep env ent (st\<lparr>queues := t\<rparr>) A"
      using rep by (simp add: kmsg_rep_def queue_rep_def)
    then show ?thesis
      using b(1) t(1) used Some by (simp add: create_named_queue_def sr_bind_def)
  qed
qed

lemma create_refines:
  assumes rep: "kmsg_rep env ent st A" and names: "plain_names (MsgQueueCreateQueueReq name appid owner config)"
  shows "\<exists>st'. map_option (reply_with ReplyString) (handle_create_queue env (\<lambda>_ t. t) name appid owner config st)
      = Some (st', snd (spec_request now (MsgQueueCreateQueueReq name appid owner config) A))
    \<and> kmsg_rep env ent st' (fst (spec_request now (MsgQueueCreateQueueReq name appid owner config) A))"
proof (cases name)
  case (Some v)
  let ?u = "calc_queue_urn appid owner v"
  have "nul_free ?u" using names Some by (simp add: nul_free_calc)
  from create_named_rep [OF rep this, of config] show ?thesis
    using Some by (cases "a_queues A ?u") (auto simp: handle_create_queue_def choose_name_def reply_with_def Let_def)
next
  case None
  define n where "n = a_ids A ''queue_id'' + 1"
  define u where "u = calc_queue_urn appid owner (''queue-'' @ show_nat (unat n))"
  define A' where "A' = A\<lparr>a_ids := (a_ids A)(''queue_id'' := n)\<rparr>"
  obtain st1 where st1: "next_id env (\<lambda>_ t. t) ''queue_id'' st = Some (st1, Inr n)" "kmsg_rep env ent st1 A'"
    using next_id_rep [OF rep, of "''queue_id''"] unfolding n_def A'_def by blast
  have handle: "handle_create_queue env (\<lambda>_ t. t) name appid owner config st
      = Some (create_named_queue env u config st1)"
    by (simp add: handle_create_queue_def None st1(1) u_def)
  have spec: "spec_request now (MsgQueueCreateQueueReq name appid owner config) A =
      (if a_queues A' u \<noteq> None then (A', Inl (ReasonError (''Queue already exists: '' @ u)))
       else (set_queue u (Some \<lparr>aq_config = config, aq_next = 1, aq_log = []\<rparr>) A', Inr (ReplyString u)))"
    by (simp add: None choose_name_def Let_def A'_def u_def n_def)
  have "nul_free u" unfolding u_def using names nul_free_show_nat by (intro nul_free_calc) simp_all
  from create_named_rep [OF st1(2) this, of config] show ?thesis
    unfolding handle spec by (cases "a_queues A' u") (auto simp: reply_with_def)
qed

lemma subscribe_named_rep:
  assumes rep: "kmsg_rep env ent st A" and u: "nul_free u"
  shows "\<exists>st'. subscribe_named env u cur s st
      = (st', if a_subs A s \<noteq> None then Inl (ReasonError (''Subscription already exists: '' @ s)) else Inr s)
    \<and> kmsg_rep env ent st' (if a_subs A s \<noteq> None then A
        else set_sub s (Some \<lparr>sub_queue_urn = u, cursor = cur\<rparr>) A)"
proof (cases "a_subs A s")
  case None
  obtain st' where st': "store_sub env s \<lparr>sub_queue_urn = u, cursor = cur\<rparr> st = (st', Inr ())"
    "kmsg_rep env ent st' (set_sub s (Some \<lparr>sub_queue_urn = u, cursor = cur\<rparr>) A)"
    using store_sub_rep [OF rep, of "\<lparr>sub_queue_urn = u, cursor = cur\<rparr>" s] u by auto
  have "map_of (ent (subs st)) (as_bytes s) = None"
    using rep_sub [OF rep, of s] None by (simp add: holds_def)
  then have "subscribe_named env u cur s st = (st', Inr s)"
    using st'(1) by (auto simp: subscribe_named_def store_sub_def sr_bind_def tree_ops split: sum.splits)
  then show ?thesis using st'(2) None by simp
next
  case (Some sub)
  then have "map_of (ent (subs st)) (as_bytes s) \<noteq> None"
    using rep_sub [OF rep, of s] by (auto simp: holds_def)
  then show ?thesis
    using rep Some by (simp add: subscribe_named_def sr_bind_def tree_ops)
qed

lemma subscribe_refines:
  assumes rep: "kmsg_rep env ent st A" and u: "nul_free u"
  shows "\<exists>st'. map_option (reply_with ReplyString) (handle_subscribe env (\<lambda>_ t. t) u name position st)
      = Some (st', snd (spec_request now (MsgQueueSubscribeReq u user app name position) A))
    \<and> kmsg_rep env ent st' (fst (spec_request now (MsgQueueSubscribeReq u user app name position) A))"
proof (cases "a_queues A u")
  case None
  then show ?thesis
    using rep get_queue_meta_rep [OF rep_queue [OF rep u]]
    by (simp add: handle_subscribe_def with_queue_def reply_with_def)
next
  case (Some q)
  then have "aq_wf q" using rep_queue [OF rep u] by (simp add: queue_rep_def)
  define c where "c = log_cursor (aq_log q) position"
  have meta: "get_queue_meta env u st = (st, Inr (meta_of q))"
    using get_queue_meta_rep [OF rep_queue [OF rep u]] Some by simp
  have c: "cursor_for (meta_of q) position = c"
    unfolding c_def by (rule cursor_for_meta [OF \<open>aq_wf q\<close>])
  obtain s st1 A' where chosen: "choose_name ''sub_id'' ''sub-'' name A = (s, A')" "kmsg_rep env ent st1 A'"
    "handle_subscribe env (\<lambda>_ t. t) u name position st = Some (subscribe_named env u c s st1)"
  proof (cases name)
    case None
    obtain st1 where "next_id env (\<lambda>_ t. t) ''sub_id'' st = Some (st1, Inr (a_ids A ''sub_id'' + 1))"
      "kmsg_rep env ent st1 (A\<lparr>a_ids := (a_ids A)(''sub_id'' := a_ids A ''sub_id'' + 1)\<rparr>)"
      using next_id_rep [OF rep] by blast
    then show ?thesis
      using None by (intro that) (simp_all add: choose_name_def handle_subscribe_def meta c Let_def)
  qed (use rep in \<open>intro that, simp_all add: choose_name_def handle_subscribe_def meta c\<close>)
  have spec: "spec_request now (MsgQueueSubscribeReq u user app name position) A =
      (if a_subs A' s \<noteq> None then (A', Inl (ReasonError (''Subscription already exists: '' @ s)))
       else (set_sub s (Some \<lparr>sub_queue_urn = u, cursor = c\<rparr>) A', Inr (ReplyString s)))"
    by (simp add: with_queue_def Some chosen(1) c_def)
  from subscribe_named_rep [OF chosen(2) u, of c s] show ?thesis
    unfolding chosen(3) spec by (cases "a_subs A' s") (auto simp: reply_with_def)
qed

lemma unsubscribe_refines:
  assumes rep: "kmsg_rep env ent st A"
  shows "\<exists>st'. reply_with (\<lambda>_. ReplyUnit) (handle_unsubscribe env s st)
      = (st', snd (spec_request now (MsgQueueUnsubscribeReq s) A))
    \<and> kmsg_rep env ent st' (fst (spec_request now (MsgQueueUnsubscribeReq s) A))"
proof -
  let ?st = "st\<lparr>subs := del env (subs st) (as_bytes s)\<rparr>"
  have holds: "holds (de_sub env) (ent (subs ?st)) (as_bytes s') (((a_subs A)(s := None)) s')" for s'
    using rep_sub [OF rep, of s'] by (auto simp: holds_def del_map split: option.splits)
  then have gone: "kmsg_rep env ent ?st (set_sub s None A)"
    using rep by (auto simp: kmsg_rep_def queue_rep_def set_sub_def)
  have un: "handle_unsubscribe env s st
      = (?st, if map_of (ent (subs st)) (as_bytes s) = None then Inl (no_sub_error s) else Inr ())"
    by (simp add: handle_unsubscribe_def sr_bind_def tree_ops no_sub_error_def)
  show ?thesis
  proof (cases "a_subs A s")
    case None
    then have "set_sub s None A = A" by (simp add: set_sub_def fun_upd_idem)
    then show ?thesis
      using gone un None rep_sub [OF rep, of s] by (simp add: with_sub_def reply_with_def holds_def)
  next
    case (Some sub)
    then show ?thesis
      using gone un rep_sub [OF rep, of s] by (auto simp: with_sub_def reply_with_def holds_def)
  qed
qed

section \<open>Moving the cursor\<close>

lemma commit_refines:
  assumes rep: "kmsg_rep env ent st A"
  shows "\<exists>st'. reply_with (\<lambda>_. ReplyUnit) (handle_commit_ack env s i st)
      = (st', snd (spec_request now (MsgQueueCommitAckReq s i) A))
    \<and> kmsg_rep env ent st' (fst (spec_request now (MsgQueueCommitAckReq s i) A))"
proof (cases "a_subs A s")
  case None
  then show ?thesis
    using rep load_sub_rep [OF rep, of s]
    by (simp add: handle_commit_ack_def sr_bind_def with_sub_def reply_with_def)
next
  case (Some sub)
  obtain st' where "store_sub env s (sub\<lparr>cursor := i + 1\<rparr>) st = (st', Inr ())"
    "kmsg_rep env ent st' (set_sub s (Some (sub\<lparr>cursor := i + 1\<rparr>)) A)"
    using store_sub_rep [OF rep set_sub_nul_free [OF rep Some]] by blast
  then show ?thesis
    using load_sub_rep [OF rep, of s] Some
    by (simp add: handle_commit_ack_def sr_bind_def with_sub_def reply_with_def)
qed

lemma seek_refines:
  assumes rep: "kmsg_rep env ent st A"
  shows "\<exists>st'. reply_with (\<lambda>_. ReplyUnit) (handle_seek env s position st)
      = (st', snd (spec_request now (MsgQueueSeekReq s position) A))
    \<and> kmsg_rep env ent st' (fst (spec_request now (MsgQueueSeekReq s position) A))"
proof (cases "a_subs A s")
  case None
  then show ?thesis
    using rep load_sub_rep [OF rep, of s]
    by (simp add: handle_seek_def sr_bind_def with_sub_def reply_with_def)
next
  case (Some sub)
  let ?u = "sub_queue_urn sub"
  have qr: "queue_rep env ent st ?u (a_queues A ?u)"
    by (rule rep_queue [OF rep rep_sub_nul_free [OF rep Some]])
  show ?thesis
  proof (cases "a_queues A ?u")
    case None
    then show ?thesis
      using rep load_sub_rep [OF rep, of s] get_queue_meta_rep [OF qr] Some
      by (simp add: handle_seek_def sr_bind_def with_sub_def with_queue_def reply_with_def)
  next
    case q: (Some q)
    then have "aq_wf q" using qr by (simp add: queue_rep_def)
    obtain st' where "store_sub env s (sub\<lparr>cursor := log_cursor (aq_log q) position\<rparr>) st = (st', Inr ())"
      "kmsg_rep env ent st' (set_sub s (Some (sub\<lparr>cursor := log_cursor (aq_log q) position\<rparr>)) A)"
      using store_sub_rep [OF rep set_sub_nul_free [OF rep Some]] by blast
    then show ?thesis
      using load_sub_rep [OF rep, of s] get_queue_meta_rep [OF qr] Some q cursor_for_meta [OF \<open>aq_wf q\<close>]
      by (simp add: handle_seek_def sr_bind_def with_sub_def with_queue_def reply_with_def)
  qed
qed

lemma fetch_refines:
  assumes rep: "kmsg_rep env ent st A"
  shows "\<exists>st'. reply_with ReplyMessages (handle_fetch_messages env s len commit st)
      = (st', snd (spec_request now (MsgQueueFetchMessagesReq s len commit) A))
    \<and> kmsg_rep env ent st' (fst (spec_request now (MsgQueueFetchMessagesReq s len commit) A))"
proof (cases "a_subs A s")
  case None
  then show ?thesis
    using rep load_sub_rep [OF rep, of s]
    by (simp add: handle_fetch_messages_def sr_bind_def with_sub_def reply_with_def)
next
  case (Some sub)
  let ?u = "sub_queue_urn sub"
  define msgs where "msgs = take (max 1 len) (backlog (cursor sub) (log_of A ?u))"
  have "list_all2 (entry_of env ?u) (message_entries ?u (ent (messages st))) (log_of A ?u)"
    using rep_queue [OF rep rep_sub_nul_free [OF rep Some]] by (simp add: queue_rep_def log_of_def)
  then have read: "read_range env len [] (sl_range_incl env (messages st)
      (message_key ?u (cursor sub)) (message_key ?u (-1))) = Inr msgs"
    unfolding msgs_def by (rule read_from_cursor)
  obtain st' where st': "store_sub env s (sub\<lparr>cursor := msg_index (last msgs) + 1\<rparr>) st = (st', Inr ())"
    "kmsg_rep env ent st' (set_sub s (Some (sub\<lparr>cursor := msg_index (last msgs) + 1\<rparr>)) A)"
    using store_sub_rep [OF rep set_sub_nul_free [OF rep Some]] by blast
  have spec: "spec_request now (MsgQueueFetchMessagesReq s len commit) A =
      (if commit \<and> msgs \<noteq> [] then set_sub s (Some (sub\<lparr>cursor := msg_index (last msgs) + 1\<rparr>)) A else A,
       Inr (ReplyMessages msgs))"
    by (simp add: with_sub_def Some Let_def msgs_def)
  show ?thesis
    unfolding spec using load_sub_rep [OF rep, of s] Some read st' rep
    by (simp add: handle_fetch_messages_def sr_bind_def reply_with_def)
qed

end

end
