(* ===== verification/Msg_Queue_Trim.thy ===== *)
theory Msg_Queue_Trim
  imports Msg_Queue_Handlers
begin

text \<open>
  Removing messages: trimming the front of a queue and deleting a queue, and with them the
  refinement of every request.
\<close>

lemma of_nat_u64_zero: "n < 2 ^ 64 \<Longrightarrow> (of_nat n :: u64) = 0 \<longleftrightarrow> n = 0"
  using unat_of_nat_small [of n, where ?'a = 64] by (auto simp: unat_eq_zero)

text \<open>The effect of trimming with counters \<open>m\<close> that were read before, possibly outdated: the
  messages below \<open>i\<close> go, and the counters derived from \<open>m\<close> are written if one went.\<close>

definition trimmed :: "u64 \<Rightarrow> message list \<Rightarrow> queue_meta \<Rightarrow> queue_meta" where
  "trimmed i log m =
     (let removed = filter (\<lambda>x. msg_index x < i) log;
          kept = backlog i log;
          m = m\<lparr>message_count := saturating_sub (message_count m) (of_nat (length removed)),
                size_bytes := saturating_sub (size_bytes m) (of_nat (payload_bytes removed))\<rparr> in
      if message_count m = 0 then m\<lparr>first_index := 0, last_index := 0\<rparr>
      else if kept = [] then m else m\<lparr>first_index := msg_index (hd kept)\<rparr>)"

lemma trimmed_meta_of:
  assumes wf: "aq_wf q"
  shows "trimmed i (aq_log q) (meta_of q) = meta_of (q\<lparr>aq_log := backlog i (aq_log q)\<rparr>)"
proof -
  define log where "log = aq_log q"
  define gone where "gone = filter (\<lambda>x. msg_index x < i) log"
  define kept where "kept = backlog i log"
  have len: "length log = length kept + length gone"
    using sum_length_filter_compl [of "\<lambda>x. i \<le> msg_index x" log]
    by (simp add: kept_def gone_def backlog_def not_le)
  have bytes: "payload_bytes log = payload_bytes kept + payload_bytes gone"
    using payload_bytes_split [of log "\<lambda>x. i \<le> msg_index x"]
    by (simp add: kept_def gone_def backlog_def not_le)
  have small: "length log < 2 ^ 64" "payload_bytes log < 2 ^ 64"
    using wf wf_length [OF wf] by (simp_all add: aq_wf_def log_def)
  have count: "saturating_sub (of_nat (length log) :: u64) (of_nat (length gone)) = of_nat (length kept)"
    using small(1) unfolding len by (rule saturating_sub_of_nat)
  have size: "saturating_sub (of_nat (payload_bytes log) :: u64) (of_nat (payload_bytes gone)) = of_nat (payload_bytes kept)"
    using small(2) unfolding bytes by (rule saturating_sub_of_nat)
  have zero: "(of_nat (length kept) :: u64) = 0 \<longleftrightarrow> kept = []"
    using of_nat_u64_zero [of "length kept"] len small(1) by simp
  have last: "newest kept = newest log" if "kept \<noteq> []"
  proof -
    obtain x where x: "x \<in> set log" "i \<le> msg_index x"
      using \<open>kept \<noteq> []\<close> by (auto simp: kept_def backlog_def filter_empty_conv)
    then have "i \<le> msg_index (last log)"
      using wf_last_max [OF wf, of x] by (simp add: log_def)
    with x(1) show ?thesis
      using last_filter_last [of log "\<lambda>x. i \<le> msg_index x"] \<open>kept \<noteq> []\<close>
      by (auto simp: newest_def kept_def backlog_def)
  qed
  have "trimmed i log (meta_of q) = meta_of (q\<lparr>aq_log := kept\<rparr>)"
    using count size zero last
    by (cases kept) (simp_all add: trimmed_def meta_of_def Let_def gone_def [symmetric] kept_def [symmetric]
        log_def [symmetric] oldest_def newest_def)
  then show ?thesis by (simp add: log_def kept_def)
qed

context kmsg_store
begin

section \<open>Removing entries\<close>

lemma message_entries_removed:
  assumes ks: "ks = map fst (filter (\<lambda>(k, v). P k) (message_entries u (ent t)))"
  shows "message_entries u (ent (foldl (del env) t ks)) = filter (\<lambda>(k, v). \<not> P k) (message_entries u (ent t))"
proof (rule key_sorted_unique)
  let ?es = "message_entries u (ent t)"
  have gone: "k \<in> set ks \<longleftrightarrow> P k \<and> map_of ?es k \<noteq> None" for k
    by (force simp: ks map_of_eq_None_iff)
  show "map_of (message_entries u (ent (foldl (del env) t ks))) = map_of (filter (\<lambda>(k, v). \<not> P k) ?es)"
  proof
    fix k
    show "map_of (message_entries u (ent (foldl (del env) t ks))) k = map_of (filter (\<lambda>(k, v). \<not> P k) ?es) k"
      using gone [of k] by (auto simp: map_of_message_entries map_of_filter_key foldl_del_map restrict_map_def)
  qed
qed (simp_all add: message_entries_sorted key_sorted_filter)

lemma message_entries_removed_other:
  assumes "ks = map fst (filter (\<lambda>(k, v). P k) (message_entries u (ent t)))" "nul_free u" "nul_free v" "v \<noteq> u"
  shows "message_entries v (ent (foldl (del env) t ks)) = message_entries v (ent t)"
proof (rule message_entries_cong)
  fix k assume "prefix (message_prefix v) k"
  then have "k \<notin> set ks"
    using assms message_prefix_disjoint [of u v k] by (auto simp: message_entries_def)
  then show "map_of (ent (foldl (del env) t ks)) k = map_of (ent t) k"
    by (simp add: foldl_del_map)
qed

lemma remove_messages_eq:
  "remove_all_from env messages messages_update ks st
     = (st\<lparr>messages := foldl (del env) (messages st) ks\<rparr>, Inr ())"
  by (rule remove_all_from_eq) simp_all

lemma remove_subs_eq:
  "remove_all_from env subs subs_update ks st = (st\<lparr>subs := foldl (del env) (subs st) ks\<rparr>, Inr ())"
  by (rule remove_all_from_eq) simp_all

lemma remove_metas_eq:
  "remove_all_from env queue_metas queue_metas_update ks st
     = (st\<lparr>queue_metas := foldl (del env) (queue_metas st) ks\<rparr>, Inr ())"
  by (rule remove_all_from_eq) simp_all

section \<open>Trimming\<close>

lemma collect_removed_entries:
  assumes "list_all2 (entry_of env u) es log"
  shows "collect_removed env (c, b, ks) (map Inr es)
    = Inr (c + of_nat (length log), b + of_nat (payload_bytes log), ks @ map fst es)"
  using assms
proof (induction arbitrary: c b ks rule: list_all2_induct)
  case (Cons e es m log)
  obtain k v where "e = (k, v)" "de_message env v = Inr m"
    using Cons.hyps(1) by (cases e) (simp add: entry_of_def)
  with Cons.IH show ?case by (simp add: decode_message_def algebra_simps)
qed simp

lemma first_remaining_entries:
  assumes "list_all2 (entry_of env u) es log"
  shows "first_remaining (map Inr es) = Inr (if log = [] then None else Some (msg_index (hd log)))"
  using assms
proof (induction rule: list_all2_induct)
  case (Cons e es' m log')
  then show ?case by (cases e) (simp add: entry_of_def)
qed simp

lemma trim_queue_effect:
  assumes log: "list_all2 (entry_of env u) (message_entries u (ent (messages st))) log"
    and small: "length log < 2 ^ 64" and u: "nul_free u"
  obtains msgs b where
    "trim_queue env u i m st = (if filter (\<lambda>x. msg_index x < i) log = [] then (st\<lparr>messages := msgs\<rparr>, Inr 0)
       else (st\<lparr>messages := msgs, queue_metas := put env (queue_metas st) (queue_key u) b\<rparr>,
             Inr (of_nat (length (filter (\<lambda>x. msg_index x < i) log)))))"
    "de_meta env b = Inr (trimmed i log m)"
    "list_all2 (entry_of env u) (message_entries u (ent msgs)) (backlog i log)"
    "\<And>v. nul_free v \<Longrightarrow> v \<noteq> u \<Longrightarrow> message_entries v (ent msgs) = message_entries v (ent (messages st))"
proof -
  let ?es = "message_entries u (ent (messages st))"
  let ?P = "\<lambda>k. message_key u 0 \<le> k \<and> k < message_key u i"
  define gone where "gone = filter (\<lambda>x. msg_index x < i) log"
  define ks where "ks = map fst (filter (\<lambda>(k, v). ?P k) ?es)"
  define msgs where "msgs = foldl (del env) (messages st) ks"
  have gone_es: "list_all2 (entry_of env u) (filter (\<lambda>(k, v). ?P k) ?es) gone"
    unfolding gone_def using log by (rule list_all2_filter_entries) simp
  have collected: "collect_removed env (0, 0, []) (sl_range env (messages st) (message_key u 0) (message_key u i))
      = Inr (of_nat (length gone), of_nat (payload_bytes gone), ks)"
    unfolding range_entries ks_def using collect_removed_entries [OF gone_es, of 0 0 "[]"] by simp
  have kept_es: "list_all2 (entry_of env u) (message_entries u (ent msgs)) (backlog i log)"
    unfolding msgs_def message_entries_removed [OF ks_def] backlog_def
    using log by (rule list_all2_filter_entries) (simp add: not_less)
  have count0: "(of_nat (length gone) :: u64) = 0 \<longleftrightarrow> gone = []"
    unfolding gone_def using of_nat_u64_zero [OF le_less_trans [OF length_filter_le small]] by simp
  have "list_all2 (entry_of env u)
      (filter (\<lambda>(k, v). message_key u i \<le> k \<and> k \<le> message_key u (-1)) (message_entries u (ent msgs)))
      (filter (\<lambda>x. i \<le> msg_index x) (backlog i log))"
    using kept_es by (rule list_all2_filter_entries) simp
  then have first: "first_remaining (sl_range_incl env msgs (message_key u i) (message_key u (-1)))
      = Inr (if backlog i log = [] then None else Some (msg_index (hd (backlog i log))))"
    by (simp add: range_incl_entries first_remaining_entries backlog_def)
  have "trimmed_meta env u i m (of_nat (length gone)) (of_nat (payload_bytes gone)) (st\<lparr>messages := msgs\<rparr>)
      = (st\<lparr>messages := msgs\<rparr>, Inr (trimmed i log m))"
    using first by (simp add: trimmed_meta_def trimmed_def sr_bind_def Let_def gone_def [symmetric])
  note steps = collected count0 this remove_messages_eq msgs_def [symmetric]
  obtain b where b: "store_queue_meta env u (trimmed i log m) (st\<lparr>messages := msgs\<rparr>)
      = (st\<lparr>messages := msgs, queue_metas := put env (queue_metas st) (queue_key u) b\<rparr>, Inr ())"
    "de_meta env b = Inr (trimmed i log m)"
    by (rule store_queue_meta_rep [of u "trimmed i log m" "st\<lparr>messages := msgs\<rparr>"]) simp
  show ?thesis
  proof (rule that [of msgs b])
    show "trim_queue env u i m st = (if filter (\<lambda>x. msg_index x < i) log = [] then (st\<lparr>messages := msgs\<rparr>, Inr 0)
       else (st\<lparr>messages := msgs, queue_metas := put env (queue_metas st) (queue_key u) b\<rparr>,
             Inr (of_nat (length (filter (\<lambda>x. msg_index x < i) log)))))"
      unfolding gone_def [symmetric] using b(1) by (simp add: trim_queue_def sr_bind_def steps)
  qed (use b(2) kept_es message_entries_removed_other [OF ks_def u] in \<open>simp_all add: msgs_def\<close>)
qed

lemma delete_before_refines:
  assumes rep: "kmsg_rep env ent st A" and u: "nul_free u"
  shows "\<exists>st'. reply_with ReplyU64 (handle_delete_message_before env u i st)
      = (st', snd (spec_request now (MsgQueueDeleteMessageBeforeReq u i) A))
    \<and> kmsg_rep env ent st' (fst (spec_request now (MsgQueueDeleteMessageBeforeReq u i) A))"
proof (cases "a_queues A u")
  case None
  then show ?thesis
    using rep get_queue_config_rep [OF rep_queue [OF rep u]]
    by (simp add: handle_delete_message_before_def sr_bind_def with_queue_def reply_with_def)
next
  case (Some q)
  have qr: "queue_rep env ent st u (Some q)" using rep_queue [OF rep u] Some by simp
  then have wf: "aq_wf q" and log: "list_all2 (entry_of env u) (message_entries u (ent (messages st))) (aq_log q)"
    by (simp_all add: queue_rep_def)
  define gone where "gone = filter (\<lambda>x. msg_index x < i) (aq_log q)"
  let ?q = "q\<lparr>aq_log := backlog i (aq_log q)\<rparr>"
  obtain msgs b where eff:
    "trim_queue env u i (meta_of q) st = (if gone = [] then (st\<lparr>messages := msgs\<rparr>, Inr 0)
       else (st\<lparr>messages := msgs, queue_metas := put env (queue_metas st) (queue_key u) b\<rparr>, Inr (of_nat (length gone))))"
    and b: "de_meta env b = Inr (trimmed i (aq_log q) (meta_of q))"
    and kept: "list_all2 (entry_of env u) (message_entries u (ent msgs)) (backlog i (aq_log q))"
    and other: "\<And>v. nul_free v \<Longrightarrow> v \<noteq> u \<Longrightarrow> message_entries v (ent msgs) = message_entries v (ent (messages st))"
    unfolding gone_def by (rule trim_queue_effect [OF log wf_length [OF wf] u]) blast
  define st' where "st' = (if gone = [] then st\<lparr>messages := msgs\<rparr>
    else st\<lparr>messages := msgs, queue_metas := put env (queue_metas st) (queue_key u) b\<rparr>)"
  have num: "length (aq_log q) - length (backlog i (aq_log q)) = length gone"
    using sum_length_filter_compl [of "\<lambda>x. i \<le> msg_index x" "aq_log q"]
    by (simp add: gone_def backlog_def not_le)
  have same: "backlog i (aq_log q) = aq_log q" if "gone = []"
    using that by (simp add: gone_def backlog_def filter_empty_conv filter_id_conv not_less)
  have "queue_rep env ent st' u (Some ?q)"
  proof (cases "gone = []")
    case True
    then show ?thesis using qr kept same by (simp add: queue_rep_def st'_def)
  next
    case False
    then show ?thesis
      using qr kept b wf_trimmed [OF wf] trimmed_meta_of [OF wf, of i]
      by (simp add: queue_rep_def st'_def holds_def put_map)
  qed
  then have "kmsg_rep env ent st' (set_queue u (Some ?q) A)"
    using other by (intro rep_set_queue [OF rep]) (simp_all add: st'_def put_map queue_key_def)
  moreover have "handle_delete_message_before env u i st = (st', Inr (of_nat (length gone)))"
    using get_queue_config_rep [OF qr] get_queue_meta_rep [OF qr] eff
    by (simp add: handle_delete_message_before_def sr_bind_def sync_if_eq st'_def)
  ultimately show ?thesis
    using Some num by (simp add: with_queue_def reply_with_def Let_def)
qed

section \<open>Deleting a queue\<close>

lemma sub_keys_of_iff:
  "as_bytes s \<in> set (sub_keys_of env u (sl_iter env t))
     \<longleftrightarrow> (\<exists>v sub. map_of (ent t) (as_bytes s) = Some v \<and> de_sub env v = Inr sub \<and> sub_queue_urn sub = u)"
proof -
  have "k \<in> set (sub_keys_of env u (map Inr es))
      \<longleftrightarrow> (\<exists>v sub. (k, v) \<in> set es \<and> de_sub env v = Inr sub \<and> sub_queue_urn sub = u)" for k es
  proof (induction es)
    case (Cons e es)
    then show ?case
      by (cases e, cases "de_sub env (snd e)") (auto simp: sub_keys_of_def map_filter_simps)
  qed (simp add: sub_keys_of_def map_filter_simps)
  then show ?thesis
    by (simp add: iter map_of_eq_Some_iff [OF key_sorted_distinct [OF ent_sorted]])
qed

lemma keys_of_scan: "keys_of (sl_scan_prefix env t (message_prefix u)) = map fst (message_entries u (ent t))"
proof -
  have "keys_of (map Inr es) = map fst es" for es
    by (induction es) (auto simp: keys_of_def map_filter_def)
  then show ?thesis by (simp add: scan_prefix message_entries_def)
qed

lemma rep_delete_queue:
  assumes rep: "kmsg_rep env ent st A" and u: "nul_free u"
    and st': "st' = st\<lparr>queues := del env (queues st) (queue_key u),
      messages := foldl (del env) (messages st) (map fst (message_entries u (ent (messages st)))),
      subs := foldl (del env) (subs st) (sub_keys_of env u (sl_iter env (subs st))),
      queue_metas := del env (queue_metas st) (queue_key u)\<rparr>"
  shows "kmsg_rep env ent st' (A\<lparr>a_queues := (a_queues A)(u := None),
      a_subs := (\<lambda>s. case a_subs A s of None \<Rightarrow> None | Some sub \<Rightarrow> if sub_queue_urn sub = u then None else Some sub)\<rparr>)"
proof -
  define subs' where "subs' = (\<lambda>s. case a_subs A s of None \<Rightarrow> None
    | Some sub \<Rightarrow> if sub_queue_urn sub = u then None else Some sub)"
  define st1 where "st1 = st'\<lparr>subs := subs st\<rparr>"
  have all: "map fst (message_entries u (ent (messages st)))
      = map fst (filter (\<lambda>(k, v). (\<lambda>_. True) k) (message_entries u (ent (messages st))))"
    by simp
  have "message_entries u (ent (messages st1)) = []"
    using message_entries_removed [OF all] by (simp add: st1_def st')
  then have "queue_rep env ent st1 u None"
    by (simp add: queue_rep_def holds_def st1_def st' del_map)
  then have "kmsg_rep env ent st1 (set_queue u None A)"
    using message_entries_removed_other [OF all u]
    by (intro rep_set_queue [OF rep]) (simp_all add: st1_def st' del_map queue_key_def)
  moreover have "holds (de_sub env) (ent (subs st')) (as_bytes s) (subs' s)" for s
    using rep_sub [OF rep, of s] sub_keys_of_iff [of s u "subs st"]
    by (cases "a_subs A s") (auto simp: holds_def st' foldl_del_map restrict_map_def subs'_def)
  moreover have "nul_free (sub_queue_urn sub)" if "subs' s = Some sub" for s sub
    using that rep_sub_nul_free [OF rep, of s] by (auto simp: subs'_def split: option.splits if_splits)
  ultimately have "kmsg_rep env ent st' (A\<lparr>a_queues := (a_queues A)(u := None), a_subs := subs'\<rparr>)"
    by (simp add: kmsg_rep_def queue_rep_def st1_def set_queue_def)
  then show ?thesis by (simp only: subs'_def)
qed

lemma delete_queue_refines:
  assumes rep: "kmsg_rep env ent st A" and u: "nul_free u"
  shows "\<exists>st'. reply_with (\<lambda>_. ReplyUnit) (handle_delete_queue env u st)
      = (st', snd (spec_request now (MsgQueueDeleteQueueReq u) A))
    \<and> kmsg_rep env ent st' (fst (spec_request now (MsgQueueDeleteQueueReq u) A))"
proof (cases "a_queues A u")
  case None
  let ?st = "st\<lparr>queues := del env (queues st) (queue_key u)\<rparr>"
  have absent: "map_of (ent (queues st)) (queue_key u) = None"
    using rep_queue [OF rep u] None by (simp add: queue_rep_def holds_def)
  then have "holds dec (ent (queues ?st)) k a = holds dec (ent (queues st)) k a"
    for dec :: "bytes \<Rightarrow> (string, queue_config) result" and k a
    by (intro holds_cong) (simp add: del_map)
  then have "kmsg_rep env ent ?st A"
    using rep by (simp add: kmsg_rep_def queue_rep_def)
  then show ?thesis
    using None absent
    by (simp add: handle_delete_queue_def sr_bind_def tree_ops with_queue_def reply_with_def no_queue_error_def)
next
  case (Some q)
  then have present: "map_of (ent (queues st)) (queue_key u) \<noteq> None"
    using rep_queue [OF rep u] by (auto simp: queue_rep_def holds_def)
  show ?thesis
    using rep_delete_queue [OF rep u refl] Some present
    by (simp add: handle_delete_queue_def sr_bind_def tree_ops remove_messages_eq remove_subs_eq
        remove_metas_eq keys_of_scan with_queue_def reply_with_def)
qed

section \<open>Every request\<close>

lemma request_refines:
  assumes rep: "kmsg_rep env ent st A" and names: "plain_names req" and room: "room_for req A"
  shows "\<exists>st'. handle_request env (\<lambda>_ t. t) now req st = Some (st', snd (spec_request now req A))
    \<and> kmsg_rep env ent st' (fst (spec_request now req A))"
proof (cases req)
  case (MsgQueueCreateQueueReq name appid owner config)
  then show ?thesis using create_refines [OF rep] names by (simp add: handle_request_def del: spec_request.simps)
next
  case (MsgQueueDeleteQueueReq u)
  then show ?thesis using delete_queue_refines [OF rep, of u] names by (simp add: handle_request_def del: spec_request.simps)
next
  case (MsgQueueGetQueueStatsReq u)
  then show ?thesis using stats_refines [OF rep, of u now] rep names by (simp add: handle_request_def del: spec_request.simps)
next
  case (MsgQueueUpdateQueueConfigReq u config)
  then show ?thesis using update_config_refines [OF rep, of u] names by (simp add: handle_request_def del: spec_request.simps)
next
  case (MsgQueuePostMessageReq u m)
  then show ?thesis using post_refines [OF rep, of u m] names room by (simp add: handle_request_def del: spec_request.simps)
next
  case (MsgQueueSubscribeReq u user app name position)
  then show ?thesis
    using subscribe_refines [OF rep, of u name position now user app] names by (simp add: handle_request_def del: spec_request.simps)
next
  case (MsgQueueUnsubscribeReq s)
  then show ?thesis using unsubscribe_refines [OF rep] by (simp add: handle_request_def del: spec_request.simps)
next
  case (MsgQueueFetchMessagesReq s len commit)
  then show ?thesis using fetch_refines [OF rep] by (simp add: handle_request_def del: spec_request.simps)
next
  case (MsgQueueReadMessageReq u cur len)
  then show ?thesis using read_refines [OF rep, of u cur len now] rep names by (simp add: handle_request_def del: spec_request.simps)
next
  case (MsgQueueCommitAckReq s i)
  then show ?thesis using commit_refines [OF rep] by (simp add: handle_request_def del: spec_request.simps)
next
  case (MsgQueueSeekReq s position)
  then show ?thesis using seek_refines [OF rep] by (simp add: handle_request_def del: spec_request.simps)
next
  case (MsgQueueDeleteMessageBeforeReq u i)
  then show ?thesis using delete_before_refines [OF rep, of u] names by (simp add: handle_request_def del: spec_request.simps)
qed

end

end
