(* ===== verification/Msg_Queue_Client.thy ===== *)
theory Msg_Queue_Client
  imports Msg_Queue_Trim
begin

text \<open>
  The queue service as its clients see it, the locale \<open>queue_service\<close>: a handler of requests
  that implements \<open>spec_request\<close>. Inside it, what a subscriber that commits automatically
  receives over a sequence of requests; \<open>sublocale\<close> gives it to the handlers of the service.
\<close>

section \<open>Sequences of requests\<close>

type_synonym reply = "(rpc_errors, msg_queue_reply) result"
type_synonym timed_req = "u64 \<times> msg_queue_req"

fun run_requests :: "(u64 \<Rightarrow> msg_queue_req \<Rightarrow> 's \<Rightarrow> ('s \<times> reply) option) \<Rightarrow> timed_req list \<Rightarrow> 's
  \<Rightarrow> ('s \<times> reply list) option" where
  "run_requests handle [] s = Some (s, [])"
| "run_requests handle ((now, req) # reqs) s =
     (case handle now req s of
        None \<Rightarrow> None
      | Some (s, r) \<Rightarrow> map_option (\<lambda>(s, rs). (s, r # rs)) (run_requests handle reqs s))"

text \<open>Posts, reads and fetches by anybody, where the subscription \<open>sid\<close> commits what it fetches.\<close>

fun traffic :: "string \<Rightarrow> msg_queue_req \<Rightarrow> bool" where
  "traffic sid (MsgQueuePostMessageReq u m) = nul_free u"
| "traffic sid (MsgQueueFetchMessagesReq s len commit) = (s = sid \<longrightarrow> commit)"
| "traffic sid (MsgQueueReadMessageReq u cur len) = nul_free u"
| "traffic sid (MsgQueueGetQueueStatsReq u) = nul_free u"
| "traffic sid req = False"

text \<open>What the subscription \<open>sid\<close> received, and what was posted to \<open>u\<close> from index \<open>n\<close> on.\<close>

fun received :: "string \<Rightarrow> msg_queue_req \<Rightarrow> reply \<Rightarrow> message list" where
  "received sid (MsgQueueFetchMessagesReq s len commit) (Inr (ReplyMessages ms)) = (if s = sid then ms else [])"
| "received sid req r = []"

definition delivered :: "string \<Rightarrow> timed_req list \<Rightarrow> reply list \<Rightarrow> message list" where
  "delivered sid reqs rs = concat (map2 (\<lambda>(now, req) r. received sid req r) reqs rs)"

fun posted :: "string \<Rightarrow> u64 \<Rightarrow> timed_req list \<Rightarrow> message list" where
  "posted u n [] = []"
| "posted u n ((now, MsgQueuePostMessageReq v m) # reqs) =
     (if v = u then stamp now n m # posted u (n + 1) reqs else posted u n reqs)"
| "posted u n ((now, req) # reqs) = posted u n reqs"

primrec rooms :: "timed_req list \<Rightarrow> astate \<Rightarrow> bool" where
  "rooms [] A = True"
| "rooms (r # reqs) A \<longleftrightarrow> room_for (snd r) A \<and> rooms reqs (fst (spec_request (fst r) (snd r) A))"

lemma traffic_plain: "traffic sid req \<Longrightarrow> plain_names req"
  by (cases req) simp_all

lemma delivered_simps [simp]:
  "delivered sid [] [] = []"
  "delivered sid ((now, req) # reqs) (r # rs) = received sid req r @ delivered sid reqs rs"
  by (simp_all add: delivered_def)

section \<open>Reading on from the cursor\<close>

lemma backlog_append: "backlog c (xs @ ys) = backlog c xs @ backlog c ys"
  by (simp add: backlog_def)

lemma wf_backlog_sorted: "aq_wf q \<Longrightarrow> sorted_wrt (\<lambda>x y. msg_index x < msg_index y) (backlog c (aq_log q))"
proof -
  assume "aq_wf q"
  then have "sorted_wrt (<) (map (unat \<circ> msg_index) (aq_log q))"
    by (simp add: aq_wf_def del: map_map sorted_wrt_map)
  then have "sorted_wrt (\<lambda>x y. msg_index x < msg_index y) (aq_log q)"
    by (simp add: sorted_wrt_map word_less_nat_alt)
  then show ?thesis
    unfolding backlog_def by (rule sorted_wrt_filter)
qed

lemma index_after:
  assumes "aq_wf q" "x \<in> set (aq_log q)"
  shows "unat (msg_index x + 1) = unat (msg_index x) + 1" "msg_index x + 1 \<le> aq_next q"
proof -
  have less: "unat (msg_index x) < unat (aq_next q)"
    using wf_index(2) [OF assms] by (simp add: word_less_nat_alt)
  then show "unat (msg_index x + 1) = unat (msg_index x) + 1"
    using unat_u64_less [of "aq_next q"] by (intro unat_plus_one) simp
  with less show "msg_index x + 1 \<le> aq_next q"
    by (simp add: word_le_nat_alt)
qed

lemma backlog_after_fetch:
  assumes wf: "aq_wf q" and msgs: "msgs = take k (backlog c (aq_log q))" "msgs \<noteq> []"
  shows "backlog (msg_index (last msgs) + 1) (aq_log q) = drop k (backlog c (aq_log q))"
    and "msg_index (last msgs) + 1 \<le> aq_next q"
proof -
  let ?B = "backlog c (aq_log q)" and ?l = "last msgs"
  define rest where "rest = drop k ?B"
  have B: "?B = msgs @ rest" by (simp add: msgs(1) rest_def)
  then have "?l \<in> set ?B" using msgs(2) by simp
  then have l: "?l \<in> set (aq_log q)" "c \<le> msg_index ?l" by (simp_all add: backlog_def)
  note after = index_after [OF wf l(1)]
  show "msg_index ?l + 1 \<le> aq_next q" by (rule after(2))
  have next_iff: "msg_index ?l + 1 \<le> j \<longleftrightarrow> msg_index ?l < j" for j
    using after(1) by (simp add: word_le_nat_alt word_less_nat_alt Suc_le_eq)
  obtain front where "msgs = front @ [?l]" using msgs(2) by (metis append_butlast_last_id)
  then have B': "?B = front @ [?l] @ rest" using B by (metis append.assoc)
  have sorted: "sorted_wrt (\<lambda>x y. msg_index x < msg_index y) (front @ [?l] @ rest)"
    using wf_backlog_sorted [OF wf, of c] unfolding B' .
  have "backlog (msg_index ?l + 1) (aq_log q) = filter (\<lambda>x. msg_index ?l + 1 \<le> msg_index x) ?B"
    unfolding backlog_def filter_filter next_iff
    by (rule filter_cong) (use l(2) in auto)
  also have "\<dots> = filter (\<lambda>x. msg_index ?l < msg_index x) (front @ [?l] @ rest)"
    unfolding B' next_iff ..
  also have "\<dots> = rest"
    using sorted by (auto simp: sorted_wrt_append filter_empty_conv filter_id_conv dest: less_not_sym)
  finally show "backlog (msg_index ?l + 1) (aq_log q) = drop k ?B" by (simp add: rest_def)
qed

section \<open>One subscriber\<close>

definition consumer :: "string \<Rightarrow> string \<Rightarrow> u64 \<Rightarrow> aqueue \<Rightarrow> astate \<Rightarrow> bool" where
  "consumer sid u c q A \<longleftrightarrow> a_subs A sid = Some \<lparr>sub_queue_urn = u, cursor = c\<rparr>
     \<and> a_queues A u = Some q \<and> aq_wf q \<and> c \<le> aq_next q"

lemma consumer_post:
  assumes con: "consumer sid u c q A" and room: "room_for (MsgQueuePostMessageReq u m) A"
  shows "consumer sid u c (appended now m q) (set_queue u (Some (appended now m q)) A)"
    and "backlog c (aq_log (appended now m q)) = backlog c (aq_log q) @ [stamp now (aq_next q) m]"
proof -
  have q: "a_queues A u = Some q" "aq_wf q" "c \<le> aq_next q" using con by (simp_all add: consumer_def)
  have space: "unat (aq_next q) + 1 < 2 ^ 64" "payload_bytes (aq_log q) + length (msg_payload m) < 2 ^ 64"
    using room q(1) by simp_all
  have "unat (aq_next q + 1) = unat (aq_next q) + 1"
    using space(1) by (intro unat_plus_one) simp
  then have "c \<le> aq_next (appended now m q)"
    using q(3) by (simp add: appended_def word_le_nat_alt)
  then show "consumer sid u c (appended now m q) (set_queue u (Some (appended now m q)) A)"
    using con wf_appended [OF q(2) space] by (simp add: consumer_def set_queue_def)
  show "backlog c (aq_log (appended now m q)) = backlog c (aq_log q) @ [stamp now (aq_next q) m]"
    using q(3) by (simp add: appended_def backlog_append) (simp add: backlog_def)
qed

lemma consumer_other_queue: "consumer sid u c q A \<Longrightarrow> v \<noteq> u \<Longrightarrow> consumer sid u c q (set_queue v x A)"
  by (simp add: consumer_def set_queue_def)

lemma consumer_other_sub: "consumer sid u c q A \<Longrightarrow> s \<noteq> sid \<Longrightarrow> consumer sid u c q (set_sub s x A)"
  by (simp add: consumer_def set_sub_def)

lemma consumer_fetch:
  assumes con: "consumer sid u c q A" and A': "spec_request now (MsgQueueFetchMessagesReq sid len True) A = (A', r)"
  shows "\<exists>c'. consumer sid u c' q A'
    \<and> r = Inr (ReplyMessages (take (max 1 len) (backlog c (aq_log q))))
    \<and> backlog c' (aq_log q) = drop (max 1 len) (backlog c (aq_log q))"
proof -
  define msgs where "msgs = take (max 1 len) (backlog c (aq_log q))"
  have q: "a_subs A sid = Some \<lparr>sub_queue_urn = u, cursor = c\<rparr>" "a_queues A u = Some q" "aq_wf q"
    using con by (simp_all add: consumer_def)
  have spec: "A' = (if msgs \<noteq> [] then set_sub sid (Some \<lparr>sub_queue_urn = u, cursor = msg_index (last msgs) + 1\<rparr>) A else A)"
    "r = Inr (ReplyMessages msgs)"
    using A' by (auto simp: with_sub_def log_of_def q msgs_def Let_def)
  show ?thesis
  proof (cases "msgs = []")
    case True
    then have "backlog c (aq_log q) = []" by (simp add: msgs_def)
    then show ?thesis using True spec con by (intro exI [of _ c]) (simp add: msgs_def)
  next
    case False
    note on = backlog_after_fetch [OF q(3) msgs_def False]
    have "consumer sid u (msg_index (last msgs) + 1) q A'"
      using con on(2) False by (simp add: spec(1) consumer_def set_sub_def)
    then show ?thesis using on(1) spec(2) by (auto simp: msgs_def)
  qed
qed

lemma consumer_step:
  assumes con: "consumer sid u c q A" and ok: "traffic sid req" "room_for req A"
    and A': "spec_request now req A = (A', r)"
  shows "\<exists>c' q'. consumer sid u c' q' A'
    \<and> received sid req r @ backlog c' (aq_log q') @ posted u (aq_next q') reqs
      = backlog c (aq_log q) @ posted u (aq_next q) ((now, req) # reqs)"
proof (cases req)
  case (MsgQueuePostMessageReq v m)
  show ?thesis
  proof (cases "v = u")
    case True
    with MsgQueuePostMessageReq con A' have "A' = set_queue u (Some (appended now m q)) A"
      by (auto simp: with_queue_def consumer_def)
    then show ?thesis
      using consumer_post [OF con, of m now] ok(2) True MsgQueuePostMessageReq
      by (intro exI [of _ c] exI [of _ "appended now m q"]) (simp, simp add: appended_def)
  next
    case False
    with MsgQueuePostMessageReq A' consumer_other_queue [OF con False] con
    have "consumer sid u c q A'" by (auto simp: with_queue_def split: option.splits)
    with False MsgQueuePostMessageReq show ?thesis by (intro exI [of _ c] exI [of _ q]) simp
  qed
next
  case (MsgQueueFetchMessagesReq s len commit)
  show ?thesis
  proof (cases "s = sid")
    case True
    then have A'': "spec_request now (MsgQueueFetchMessagesReq sid len True) A = (A', r)"
      using MsgQueueFetchMessagesReq ok(1) A' by simp
    from consumer_fetch [OF con A''] obtain c' where "consumer sid u c' q A'"
      "r = Inr (ReplyMessages (take (max 1 len) (backlog c (aq_log q))))"
      "backlog c' (aq_log q) = drop (max 1 len) (backlog c (aq_log q))"
      by blast
    then show ?thesis
      using True MsgQueueFetchMessagesReq
      by (intro exI [of _ c'] exI [of _ q]) (simp add: append_assoc [symmetric] del: append_assoc)
  next
    case False
    then have "received sid req r = []"
      using MsgQueueFetchMessagesReq by (cases r; cases "projr r") auto
    moreover have "consumer sid u c q A'"
      using False MsgQueueFetchMessagesReq A' con consumer_other_sub [OF con False]
      by (auto simp: with_sub_def Let_def split: option.splits if_splits)
    ultimately show ?thesis
      using MsgQueueFetchMessagesReq by (intro exI [of _ c] exI [of _ q]) simp
  qed
qed (use con ok A' in \<open>auto simp: with_queue_def split: option.splits intro!: exI [of _ c] exI [of _ q]\<close>)

section \<open>The contract of the service\<close>

lemma run_requests_length: "run_requests handle reqs s = Some (s', rs) \<Longrightarrow> length rs = length reqs"
  by (induction handle reqs s arbitrary: s' rs rule: run_requests.induct) (auto split: option.splits)

lemma run_requests_snoc:
  assumes "run_requests handle reqs s = Some (s', rs)" "handle now req s' = Some (s'', r)"
  shows "run_requests handle (reqs @ [(now, req)]) s = Some (s'', rs @ [r])"
  using assms
  by (induction handle reqs s arbitrary: s' rs rule: run_requests.induct) (auto split: option.splits)

lemma delivered_snoc:
  "length rs = length reqs \<Longrightarrow>
    delivered sid (reqs @ [(now, req)]) (rs @ [r]) = delivered sid reqs rs @ received sid req r"
  by (simp add: delivered_def)

locale queue_service =
  fixes handle :: "u64 \<Rightarrow> msg_queue_req \<Rightarrow> 's \<Rightarrow> ('s \<times> reply) option" and R :: "'s \<Rightarrow> astate \<Rightarrow> bool"
  assumes implements: "R s A \<Longrightarrow> plain_names req \<Longrightarrow> room_for req A \<Longrightarrow>
    \<exists>s'. handle now req s = Some (s', snd (spec_request now req A)) \<and> R s' (fst (spec_request now req A))"
begin

lemma run_delivers:
  assumes "R s A" "consumer sid u c q A" "\<forall>r \<in> set reqs. traffic sid (snd r)" "rooms reqs A"
  shows "\<exists>s' rs A' c' q'. run_requests handle reqs s = Some (s', rs) \<and> R s' A' \<and> consumer sid u c' q' A'
    \<and> delivered sid reqs rs @ backlog c' (aq_log q') = backlog c (aq_log q) @ posted u (aq_next q) reqs"
  using assms
proof (induction reqs arbitrary: s A c q)
  case (Cons x reqs)
  obtain now req where x: "x = (now, req)" by (cases x)
  obtain A1 r where A1: "spec_request now req A = (A1, r)" by (cases "spec_request now req A")
  have ok: "traffic sid req" "room_for req A" "rooms reqs A1"
    using Cons.prems x A1 by simp_all
  obtain s1 where s1: "handle now req s = Some (s1, r)" "R s1 A1"
    using implements [OF Cons.prems(1) traffic_plain [OF ok(1)] ok(2), of now] A1 by auto
  obtain c1 q1 where c1: "consumer sid u c1 q1 A1"
    "received sid req r @ backlog c1 (aq_log q1) @ posted u (aq_next q1) reqs
      = backlog c (aq_log q) @ posted u (aq_next q) ((now, req) # reqs)"
    using consumer_step [OF Cons.prems(2) ok(1,2) A1] by blast
  obtain s' rs A' c' q' where "run_requests handle reqs s1 = Some (s', rs)" "R s' A'" "consumer sid u c' q' A'"
    "delivered sid reqs rs @ backlog c' (aq_log q') = backlog c1 (aq_log q1) @ posted u (aq_next q1) reqs"
    using Cons.IH [OF s1(2) c1(1)] Cons.prems(3) ok(3) by auto
  then show ?case
    using s1(1) c1(2) x
    by (intro exI [of _ s'] exI [of _ "r # rs"] exI [of _ A'] exI [of _ c'] exI [of _ q']) simp
qed auto

lemma exactly_once_in_order:
  assumes "R s A" "consumer sid u c q A" "\<forall>r \<in> set reqs. traffic sid (snd r)" "rooms reqs A"
    and len: "length (backlog c (aq_log q) @ posted u (aq_next q) reqs) \<le> len"
  shows "\<exists>s' rs. run_requests handle (reqs @ [(now, MsgQueueFetchMessagesReq sid len True)]) s = Some (s', rs)
    \<and> delivered sid (reqs @ [(now, MsgQueueFetchMessagesReq sid len True)]) rs
      = backlog c (aq_log q) @ posted u (aq_next q) reqs"
proof -
  let ?last = "MsgQueueFetchMessagesReq sid len True"
  obtain s1 rs A1 c1 q1 where run: "run_requests handle reqs s = Some (s1, rs)" "R s1 A1" "consumer sid u c1 q1 A1"
    and all: "delivered sid reqs rs @ backlog c1 (aq_log q1) = backlog c (aq_log q) @ posted u (aq_next q) reqs"
    using run_delivers [OF assms(1-4)] by blast
  obtain A2 r where A2: "spec_request now ?last A1 = (A2, r)" by (cases "spec_request now ?last A1")
  obtain s2 where "handle now ?last s1 = Some (s2, r)"
    using implements [OF run(2), of ?last now] A2 by auto
  moreover have "r = Inr (ReplyMessages (backlog c1 (aq_log q1)))"
  proof -
    have "length (backlog c1 (aq_log q1)) \<le> max 1 len"
      using len arg_cong [OF all, of length] by simp
    then show ?thesis using consumer_fetch [OF run(3) A2] by auto
  qed
  ultimately show ?thesis
    using run_requests_snoc [OF run(1)] delivered_snoc [OF run_requests_length [OF run(1)]] all
    by fastforce
qed

end

sublocale kmsg_store \<subseteq> svc: queue_service "handle_request env (\<lambda>_ t. t)" "kmsg_rep env ent"
  by unfold_locales (rule request_refines)

context kmsg_store
begin

lemmas service = svc.queue_service_axioms

end

end
