(* ===== verification/Msg_Queue_Instance.thy ===== *)
theory Msg_Queue_Instance
  imports Msg_Queue_Client "HOL-Library.RBT"
begin

text \<open>
  A store that obeys the laws of \<open>kmsg_store\<close>: every tree is a red-black tree and every record
  is written field by field. It shows that the laws can hold together, and it is the store of
  the concrete runs below. \<open>mem\<close> is the interpretation of the interface on it.
\<close>

section \<open>An encoding\<close>

text \<open>A byte string is written with a 1 before every byte and ends with a 0; a list of pairs of
  strings likewise.\<close>

fun enc_bytes :: "bytes \<Rightarrow> bytes" where
  "enc_bytes [] = [0]"
| "enc_bytes (b # bs) = 1 # b # enc_bytes bs"

fun dec_bytes :: "bytes \<Rightarrow> bytes \<times> bytes" where
  "dec_bytes (x # b # bs) = (if x = 1 then (case dec_bytes bs of (p, r) \<Rightarrow> (b # p, r)) else ([], b # bs))"
| "dec_bytes [x] = ([], [])"
| "dec_bytes [] = ([], [])"

definition from_bytes :: "bytes \<Rightarrow> string" where
  "from_bytes bs = map (\<lambda>b. char_of (unat b)) bs"

definition enc_string :: "string \<Rightarrow> bytes" where
  "enc_string s = enc_bytes (as_bytes s)"

definition dec_string :: "bytes \<Rightarrow> string \<times> bytes" where
  "dec_string bs = (case dec_bytes bs of (p, r) \<Rightarrow> (from_bytes p, r))"

definition dec_u64 :: "bytes \<Rightarrow> u64 \<times> bytes" where
  "dec_u64 bs = (from_be_bytes (take 8 bs), drop 8 bs)"

fun enc_headers :: "(string \<times> string) list \<Rightarrow> bytes" where
  "enc_headers [] = [0]"
| "enc_headers ((k, v) # hs) = 1 # enc_string k @ enc_string v @ enc_headers hs"

text \<open>The length of the input bounds the number of pairs.\<close>

fun dec_headers :: "nat \<Rightarrow> bytes \<Rightarrow> (string \<times> string) list" where
  "dec_headers (Suc n) (x # bs) =
     (if x = 1 then
        (case dec_string bs of (k, bs) \<Rightarrow> case dec_string bs of (v, bs) \<Rightarrow> (k, v) # dec_headers n bs)
      else [])"
| "dec_headers n bs = []"

definition enc_message :: "message \<Rightarrow> bytes" where
  "enc_message m = to_be_bytes (msg_index m) @ to_be_bytes (msg_created_at m)
     @ enc_bytes (msg_payload m) @ enc_headers (msg_headers m)"

definition dec_message :: "bytes \<Rightarrow> message" where
  "dec_message bs =
     (case dec_u64 bs of (i, bs) \<Rightarrow> case dec_u64 bs of (t, bs) \<Rightarrow> case dec_bytes bs of (p, bs) \<Rightarrow>
      \<lparr>msg_index = i, msg_created_at = t, msg_payload = p, msg_headers = dec_headers (length bs) bs\<rparr>)"

definition enc_sub :: "subscription_state \<Rightarrow> bytes" where
  "enc_sub s = to_be_bytes (cursor s) @ enc_string (sub_queue_urn s)"

definition dec_sub :: "bytes \<Rightarrow> subscription_state" where
  "dec_sub bs = (case dec_u64 bs of (c, bs) \<Rightarrow> \<lparr>sub_queue_urn = fst (dec_string bs), cursor = c\<rparr>)"

definition enc_meta :: "queue_meta \<Rightarrow> bytes" where
  "enc_meta m = to_be_bytes (next_index m) @ to_be_bytes (message_count m) @ to_be_bytes (first_index m)
     @ to_be_bytes (last_index m) @ to_be_bytes (size_bytes m)"

definition dec_meta :: "bytes \<Rightarrow> queue_meta" where
  "dec_meta bs =
     (case dec_u64 bs of (n, bs) \<Rightarrow> case dec_u64 bs of (c, bs) \<Rightarrow> case dec_u64 bs of (f, bs) \<Rightarrow>
      case dec_u64 bs of (l, bs) \<Rightarrow>
      \<lparr>next_index = n, message_count = c, first_index = f, last_index = l, size_bytes = fst (dec_u64 bs)\<rparr>)"

definition enc_bool :: "bool \<Rightarrow> u8" where
  "enc_bool b = (if b then 1 else 0)"

definition enc_limit :: "u64 option \<Rightarrow> bytes" where
  "enc_limit l = (case l of None \<Rightarrow> 0 # to_be_bytes 0 | Some n \<Rightarrow> 1 # to_be_bytes n)"

definition dec_limit :: "bytes \<Rightarrow> u64 option" where
  "dec_limit bs = (if bs ! 0 = 0 then None else Some (from_be_bytes (take 8 (drop 1 bs))))"

definition enc_config :: "queue_config \<Rightarrow> bytes" where
  "enc_config c = enc_limit (max_messages c) @ enc_limit (retention_seconds c)
     @ map enc_bool [sync_write c, other_app_can_read c, other_app_can_write c,
                     other_user_can_read c, other_user_can_write c]"

definition dec_config :: "bytes \<Rightarrow> queue_config" where
  "dec_config bs =
     (let flags = map (\<lambda>b. b = 1) (drop 18 bs) in
      \<lparr>max_messages = dec_limit bs, retention_seconds = dec_limit (drop 9 bs),
       sync_write = flags ! 0, other_app_can_read = flags ! 1, other_app_can_write = flags ! 2,
       other_user_can_read = flags ! 3, other_user_can_write = flags ! 4\<rparr>)"

lemma dec_enc_bytes [simp]: "dec_bytes (enc_bytes bs @ r) = (bs, r)"
proof (induction bs)
  case Nil
  then show ?case by (cases r) simp_all
qed simp

lemma from_as_bytes [simp]: "from_bytes (as_bytes s) = s"
  by (simp add: from_bytes_def as_bytes_def comp_def unat_of_char)

lemma dec_enc_string [simp]: "dec_string (enc_string s @ r) = (s, r)"
  by (simp add: dec_string_def enc_string_def)

lemma dec_enc_u64 [simp]: "dec_u64 (to_be_bytes w @ r) = (w, r)"
  by (simp add: dec_u64_def)

lemma dec_enc_headers: "length hs \<le> n \<Longrightarrow> dec_headers (Suc n) (enc_headers hs) = hs"
proof (induction hs arbitrary: n)
  case (Cons h hs)
  then obtain n' where "n = Suc n'" by (cases n) simp_all
  with Cons show ?case by (cases h) simp
qed simp

lemma length_enc_headers: "length hs < length (enc_headers hs)"
  by (induction hs rule: enc_headers.induct) simp_all

lemma dec_enc_message [simp]: "dec_message (enc_message m) = m"
proof -
  let ?h = "msg_headers m"
  obtain n where "length (enc_headers ?h) = Suc n" "length ?h \<le> n"
    using length_enc_headers [of ?h] by (cases "length (enc_headers ?h)") auto
  then show ?thesis by (simp add: dec_message_def enc_message_def dec_enc_headers)
qed

lemma dec_enc_sub [simp]: "dec_sub (enc_sub s) = s"
  using dec_enc_string [of "sub_queue_urn s" "[]"] by (simp add: dec_sub_def enc_sub_def)

lemma dec_enc_meta [simp]: "dec_meta (enc_meta m) = m"
  using dec_enc_u64 [of "size_bytes m" "[]"] by (simp add: dec_meta_def enc_meta_def)

lemma length_enc_limit [simp]: "length (enc_limit l) = 9"
  by (simp add: enc_limit_def split: option.splits)

lemma dec_enc_limit [simp]: "dec_limit (enc_limit l @ r) = l"
  by (simp add: dec_limit_def enc_limit_def split: option.splits)

lemma dec_enc_config [simp]: "dec_config (enc_config c) = c"
  by (simp add: dec_config_def enc_config_def Let_def enc_bool_def)

section \<open>The store\<close>

type_synonym mem_tree = "(bytes, bytes) rbt"

definition mem_env :: "mem_tree kmsg_env" where
  "mem_env = \<lparr>
     sl_get = (\<lambda>t k. Inr (RBT.lookup t k)),
     sl_insert = (\<lambda>t k v. Inr (RBT.insert k v t)),
     sl_remove = (\<lambda>t k. Inr (RBT.delete k t, RBT.lookup t k)),
     sl_cas = (\<lambda>t k old new.
       if RBT.lookup t k = old
       then Inr (case new of None \<Rightarrow> RBT.delete k t | Some v \<Rightarrow> RBT.insert k v t, True)
       else Inr (t, False)),
     sl_range = (\<lambda>t a b. map Inr (filter (\<lambda>(k, v). a \<le> k \<and> k < b) (RBT.entries t))),
     sl_range_incl = (\<lambda>t a b. map Inr (filter (\<lambda>(k, v). a \<le> k \<and> k \<le> b) (RBT.entries t))),
     sl_scan_prefix = (\<lambda>t p. map Inr (filter (\<lambda>(k, v). prefix p k) (RBT.entries t))),
     sl_iter = (\<lambda>t. map Inr (RBT.entries t)),
     sl_transaction = (\<lambda>f trees. f trees),
     sl_flush = (\<lambda>_. Inr ()),
     ser_config = (\<lambda>c. Inr (enc_config c)), de_config = (\<lambda>b. Inr (dec_config b)),
     ser_meta = (\<lambda>m. Inr (enc_meta m)), de_meta = (\<lambda>b. Inr (dec_meta b)),
     ser_message = (\<lambda>m. Inr (enc_message m)), de_message = (\<lambda>b. Inr (dec_message b)),
     ser_sub = (\<lambda>s. Inr (enc_sub s)), de_sub = (\<lambda>b. Inr (dec_sub b))\<rparr>"

lemma entries_key_sorted: "key_sorted (RBT.entries t)"
  using RBT.sorted_entries [of t] RBT.distinct_entries [of t] by (simp add: strict_sorted_iff)

interpretation mem: kmsg_store mem_env RBT.entries
  by unfold_locales
    (auto simp: mem_env_def entries_key_sorted map_of_entries fun_eq_iff split: option.splits)

definition mem_empty :: "mem_tree sled_msg_queue" where
  "mem_empty = \<lparr>queues = RBT.empty, queue_metas = RBT.empty, messages = RBT.empty,
     subs = RBT.empty, meta = RBT.empty\<rparr>"

definition a_empty :: astate where
  "a_empty = \<lparr>a_queues = (\<lambda>_. None), a_subs = (\<lambda>_. None), a_ids = (\<lambda>_. 0)\<rparr>"

lemma entries_empty [simp]: "RBT.entries RBT.empty = []"
  by (simp add: entries.rep_eq empty.rep_eq)

lemma mem_empty_rep: "kmsg_rep mem_env RBT.entries mem_empty a_empty"
  by (simp add: kmsg_rep_def queue_rep_def holds_def mem_empty_def a_empty_def message_entries_def
      counter_value_def)

end
