(* ===== verification/Msg_Queue_Correct.thy ===== *)
theory Msg_Queue_Correct
  imports Msg_Queue_Instance
begin

text \<open>
  The properties of the message queue service. \<open>kmsg_store env ent\<close> is the hypothesis that the
  store and the encoding behave as documented and no input or output fails; \<open>kmsg_rep\<close> that the
  trees hold the abstract state \<open>A\<close>. The witnesses run on the store of \<open>Msg_Queue_Instance\<close>.
\<close>

section \<open>A small run\<close>

text \<open>The queue \<open>/q\<close> and the subscription \<open>s\<close> at its beginning, on the store in memory.\<close>

definition demo_queue :: aqueue where
  "demo_queue = \<lparr>aq_config = default_queue_config, aq_next = 1, aq_log = []\<rparr>"

definition demo_A :: astate where
  "demo_A = set_sub ''s'' (Some \<lparr>sub_queue_urn = ''/q'', cursor = 1\<rparr>) (set_queue ''/q'' (Some demo_queue) a_empty)"

definition demo_st :: "mem_tree sled_msg_queue" where
  "demo_st = fst (the (run_requests (handle_request mem_env (\<lambda>_ t. t))
     [(1, MsgQueueCreateQueueReq (Some ''/q'') ''app'' ''owner'' default_queue_config),
      (2, MsgQueueSubscribeReq ''/q'' ''user'' ''app'' (Some ''s'') Earliest)] mem_empty))"

lemma calc_demo: "calc_queue_urn ''app'' ''owner'' ''/q'' = ''/q''"
  by code_simp

lemma demo_rep: "kmsg_rep mem_env RBT.entries demo_st demo_A"
proof -
  let ?c = "MsgQueueCreateQueueReq (Some ''/q'') ''app'' ''owner'' default_queue_config"
  let ?s = "MsgQueueSubscribeReq ''/q'' ''user'' ''app'' (Some ''s'') Earliest"
  let ?A = "set_queue ''/q'' (Some demo_queue) a_empty"
  have "spec_request 1 ?c a_empty = (?A, Inr (ReplyString ''/q''))"
    by (simp add: choose_name_def calc_demo a_empty_def demo_queue_def Let_def)
  then obtain st1 where st1: "handle_request mem_env (\<lambda>_ t. t) 1 ?c mem_empty = Some (st1, Inr (ReplyString ''/q''))"
    "kmsg_rep mem_env RBT.entries st1 ?A"
    using mem.request_refines [OF mem_empty_rep, of ?c 1] by auto
  have "spec_request 2 ?s ?A = (demo_A, Inr (ReplyString ''s''))"
    by (simp add: choose_name_def with_queue_def demo_A_def set_queue_def a_empty_def log_cursor_def demo_queue_def)
  then obtain st2 where "handle_request mem_env (\<lambda>_ t. t) 2 ?s st1 = Some (st2, Inr (ReplyString ''s''))"
    "kmsg_rep mem_env RBT.entries st2 demo_A"
    using mem.request_refines [OF st1(2), of ?s 2] by auto
  with st1(1) show ?thesis by (simp add: demo_st_def)
qed

lemma demo_consumer: "consumer ''s'' ''/q'' 1 demo_queue demo_A"
  by (simp add: consumer_def demo_A_def set_sub_def set_queue_def demo_queue_def aq_wf_def)

text \<open>The same queue with one message.\<close>

definition demo_queue1 :: aqueue where
  "demo_queue1 = appended 5 (new_message [10]) demo_queue"

definition demo_st1 :: "mem_tree sled_msg_queue" where
  "demo_st1 = fst (handle_post_message mem_env 5 ''/q'' (new_message [10]) demo_st)"

lemma demo_rep1: "kmsg_rep mem_env RBT.entries demo_st1 (set_queue ''/q'' (Some demo_queue1) demo_A)"
proof -
  have q: "a_queues demo_A ''/q'' = Some demo_queue" by (simp add: demo_A_def set_sub_def set_queue_def)
  then have "room_for (MsgQueuePostMessageReq ''/q'' (new_message [10])) demo_A"
    by (simp add: demo_queue_def new_message_def)
  from mem.post_refines [OF demo_rep _ this, of 5] show ?thesis
    by (auto simp: q with_queue_def reply_with_def demo_st1_def demo_queue1_def)
qed

section \<open>Names and keys\<close>

lemma split_colons_Cons:
  assumes "x \<noteq> CHR '':''"
  shows "split_colons (x # s) = (case split_colons s of [] \<Rightarrow> [[x]] | p # ps \<Rightarrow> (x # p) # ps)"
  using assms by (cases s) simp_all

lemma split_colons_plain: "CHR '':'' \<notin> set a \<Longrightarrow> split_colons a = [a]"
  by (induction a) (auto simp: split_colons_Cons)

lemma split_colons_sep: "CHR '':'' \<notin> set a \<Longrightarrow> split_colons (a @ ''::'' @ s) = a # split_colons s"
  by (induction a) (auto simp: split_colons_Cons)

lemma not_sublist_colons: "CHR '':'' \<notin> set s \<Longrightarrow> \<not> contains s ''::''"
  unfolding contains_def by (auto dest!: set_mono_sublist)

text \<open>C35: names and keys. An index is read back from the key of its message, keys are ordered as
  their indexes, and different queues have different keys; a name that is put together from an
  application, an owner and a queue without colons is taken apart again. All this holds for names
  without a zero byte: a queue whose name goes on after a zero byte has its messages among those
  of the queue with the shorter name.\<close>

theorem names_and_keys:
  assumes "nul_free u" "nul_free v"
    and "CHR '':'' \<notin> set appid" "CHR '':'' \<notin> set owner" "CHR '':'' \<notin> set name"
    and "trim name = name" "\<not> starts_with name ''/''"
  shows "decode_index_from_key (message_key u i) = Some i
    \<and> (message_key u i < message_key u j \<longleftrightarrow> i < j)
    \<and> (message_key u i = message_key v j \<longleftrightarrow> u = v \<and> i = j)
    \<and> parse_queue_urn (calc_queue_urn appid owner name) = Some (appid, owner, name)
    \<and> prefix (message_prefix u) (message_key (u @ CHR 0x00 # w) j)"
proof -
  have "u = v" if "message_key u i = message_key v j"
    using that message_prefix_unique [OF assms(1,2)] prefix_message_key [of u i] by metis
  then have "message_key u i = message_key v j \<longleftrightarrow> u = v \<and> i = j" by auto
  moreover have "calc_queue_urn appid owner name = appid @ ''::'' @ owner @ ''::'' @ name"
    using assms(5-7) not_sublist_colons [of name] by (simp add: calc_queue_urn_def)
  then have "parse_queue_urn (calc_queue_urn appid owner name) = Some (appid, owner, name)"
    unfolding parse_queue_urn_def
    by (simp only: split_colons_sep [OF assms(3)] split_colons_sep [OF assms(4)] split_colons_plain [OF assms(5)] list.case)
  moreover have "prefix (message_prefix u) (message_key (u @ CHR 0x00 # w) j)"
    by (simp add: message_prefix_def message_key_def as_bytes_def)
  ultimately show ?thesis by simp
qed

theorem names_and_keys_witness:
  "decode_index_from_key (message_key ''/a'' 7) = Some 7
   \<and> (message_key ''/a'' 7 < message_key ''/a'' 300 \<longleftrightarrow> (7 :: u64) < 300)
   \<and> (message_key ''/a'' 7 = message_key ''/b'' 300 \<longleftrightarrow> ''/a'' = ''/b'' \<and> (7 :: u64) = 300)
   \<and> parse_queue_urn (calc_queue_urn ''app'' ''owner'' ''q'') = Some (''app'', ''owner'', ''q'')
   \<and> prefix (message_prefix ''/a'') (message_key (''/a'' @ CHR 0x00 # ''b'') 300)"
proof (rule names_and_keys)
  show "trim ''q'' = ''q''" by code_simp
qed (simp_all add: starts_with_def)

section \<open>Refinement\<close>

text \<open>C5: every request implements the abstract queue service. Whatever request arrives, the
  handlers on the trees end, answer what \<open>spec_request\<close> answers, error messages included, and
  leave trees that hold the state \<open>spec_request\<close> leaves; a post needs a free index and room in
  the byte counter.\<close>

theorem requests_implement_spec:
  assumes "kmsg_store env ent" "kmsg_rep env ent st A" "plain_names req" "room_for req A"
  shows "\<exists>st'. handle_request env (\<lambda>_ t. t) now req st = Some (st', snd (spec_request now req A))
    \<and> kmsg_rep env ent st' (fst (spec_request now req A))"
  using kmsg_store.request_refines [OF assms] .

theorem requests_implement_spec_witness:
  "\<exists>st'. handle_request mem_env (\<lambda>_ t. t) 5
      (MsgQueueCreateQueueReq (Some ''/q'') ''app'' ''owner'' default_queue_config) mem_empty
      = Some (st', Inr (ReplyString ''/q''))
    \<and> kmsg_rep mem_env RBT.entries st'
        (set_queue ''/q'' (Some \<lparr>aq_config = default_queue_config, aq_next = 1, aq_log = []\<rparr>) a_empty)"
  using requests_implement_spec [OF mem.kmsg_store_axioms mem_empty_rep,
      of "MsgQueueCreateQueueReq (Some ''/q'') ''app'' ''owner'' default_queue_config" 5]
  by (simp add: choose_name_def calc_demo a_empty_def Let_def)

section \<open>Delivery\<close>

text \<open>C4: a subscriber receives every message exactly once and in order. Over any sequence of
  posts, reads and fetches by anybody in which the subscription commits what it fetches, and that
  ends with a fetch long enough for what is left, the messages handed to the subscription are
  exactly those from its cursor on followed by those posted to its queue meanwhile.\<close>

theorem subscriber_receives_every_message:
  assumes "kmsg_store env ent" "kmsg_rep env ent st A" "consumer sid u c q A"
    and "\<forall>r \<in> set reqs. traffic sid (snd r)" "rooms reqs A"
    and "length (backlog c (aq_log q) @ posted u (aq_next q) reqs) \<le> len"
  shows "\<exists>st' rs. run_requests (handle_request env (\<lambda>_ t. t))
        (reqs @ [(now, MsgQueueFetchMessagesReq sid len True)]) st = Some (st', rs)
    \<and> delivered sid (reqs @ [(now, MsgQueueFetchMessagesReq sid len True)]) rs
      = backlog c (aq_log q) @ posted u (aq_next q) reqs"
  using queue_service.exactly_once_in_order [OF kmsg_store.service [OF assms(1)] assms(2-6)] .

theorem subscriber_receives_every_message_witness:
  "\<exists>st' rs. run_requests (handle_request mem_env (\<lambda>_ t. t))
      [(5, MsgQueuePostMessageReq ''/q'' (new_message [10])),
       (6, MsgQueueFetchMessagesReq ''s'' 1 True),
       (7, MsgQueuePostMessageReq ''/q'' (new_message [20])),
       (8, MsgQueueFetchMessagesReq ''s'' 9 True)] demo_st = Some (st', rs)
    \<and> delivered ''s''
      [(5, MsgQueuePostMessageReq ''/q'' (new_message [10])),
       (6, MsgQueueFetchMessagesReq ''s'' 1 True),
       (7, MsgQueuePostMessageReq ''/q'' (new_message [20])),
       (8, MsgQueueFetchMessagesReq ''s'' 9 True)] rs
      = [stamp 5 1 (new_message [10]), stamp 7 2 (new_message [20])]"
proof -
  define reqs where "reqs = [(5 :: u64, MsgQueuePostMessageReq ''/q'' (new_message [10])),
    (6, MsgQueueFetchMessagesReq ''s'' 1 True), (7, MsgQueuePostMessageReq ''/q'' (new_message [20]))]"
  have posts: "backlog 1 (aq_log demo_queue) @ posted ''/q'' (aq_next demo_queue) reqs
      = [stamp 5 1 (new_message [10]), stamp 7 2 (new_message [20])]"
    by (simp add: reqs_def demo_queue_def backlog_def)
  have "\<forall>r \<in> set reqs. traffic ''s'' (snd r)" by (simp add: reqs_def)
  moreover have "rooms reqs demo_A"
    by (simp add: reqs_def demo_A_def demo_queue_def set_queue_def set_sub_def with_queue_def with_sub_def
        appended_def backlog_def log_of_def new_message_def stamp_def Let_def)
  ultimately show ?thesis
    using subscriber_receives_every_message [OF mem.kmsg_store_axioms demo_rep demo_consumer,
        of reqs 9 8] posts
    by (simp add: reqs_def)
qed

section \<open>Drawing identifiers\<close>

context kmsg_store
begin

lemma next_id_loop_from:
  assumes "counter_value (map_of (ent t) key) = Some v"
    and others: "\<And>n t. map_of (ent (interf n t)) key = (if k n = 0 then map_of (ent t) key
      else Some (to_be_bytes (the (counter_value (map_of (ent t) key)) + k n)))"
    and "\<forall>i < d. k (n + i) \<noteq> 0" "k (n + d) = 0"
  shows "\<exists>t'. next_id_loop env interf key n t = Some (t', Inr (v + sum k {n..<n + d} + 1))
    \<and> map_of (ent t') key = Some (to_be_bytes (v + sum k {n..<n + d} + 1))"
  using assms(1,3,4)
proof (induction d arbitrary: n t v)
  case 0
  then have "map_of (ent (interf n t)) key = map_of (ent t) key" using others by simp
  from next_id_turn(1) [where interf = interf, OF 0(1) this] show ?case by auto
next
  case (Suc d)
  have k: "k n \<noteq> 0" using Suc.prems(2) by force
  have new: "map_of (ent (interf n t)) key = Some (to_be_bytes (v + k n))"
    using others [of n t] k Suc.prems(1) by simp
  have "map_of (ent (interf n t)) key \<noteq> map_of (ent t) key"
  proof
    assume "map_of (ent (interf n t)) key = map_of (ent t) key"
    with new Suc.prems(1) show False using k by simp
  qed
  from next_id_turn(2) [where interf = interf, OF Suc.prems(1) this] obtain t' where
    t': "next_id_loop env interf key n t = next_id_loop env interf key (Suc n) t'"
    "map_of (ent t') = map_of (ent (interf n t))" by blast
  have "counter_value (map_of (ent t') key) = Some (v + k n)" using new t'(2) by simp
  moreover have "\<forall>i < d. k (Suc n + i) \<noteq> 0" "k (Suc n + d) = 0"
    using Suc.prems(2,3) by auto
  moreover have "sum k {n..<n + Suc d} = k n + sum k {Suc n..<Suc n + d}"
    by (simp add: sum.atLeast_Suc_lessThan)
  ultimately show ?case
    using Suc.IH [of t' "v + k n" "Suc n"] t'(1) by (simp add: add.assoc)
qed

end

text \<open>C33: drawing an identifier ends. Between the read and the swap of turn \<open>n\<close> the other requests
  draw \<open>k n\<close> identifiers; the loop returns at the first turn in which nobody else draws, with the
  number after all that were drawn before, so that no number is given out twice.\<close>

theorem next_id_returns:
  assumes "kmsg_store env ent" "counter_value (map_of (ent (meta st)) (as_bytes key)) = Some v"
    and "\<And>n t. map_of (ent (interf n t)) (as_bytes key) = (if k n = 0 then map_of (ent t) (as_bytes key)
      else Some (to_be_bytes (the (counter_value (map_of (ent t) (as_bytes key))) + k n)))"
    and "\<forall>i < d. k i \<noteq> 0" "k d = 0"
  shows "\<exists>t'. next_id env interf key st = Some (st\<lparr>meta := t'\<rparr>, Inr (v + sum k {..<d} + 1))
    \<and> counter_value (map_of (ent t') (as_bytes key)) = Some (v + sum k {..<d} + 1)"
proof -
  obtain t' where "next_id_loop env interf (as_bytes key) 0 (meta st) = Some (t', Inr (v + sum k {..<d} + 1))"
    "map_of (ent t') (as_bytes key) = Some (to_be_bytes (v + sum k {..<d} + 1))"
    using kmsg_store.next_id_loop_from [where interf = interf and k = k and d = d and n = 0, OF assms(1-3)] assms(4,5) by (auto simp: lessThan_atLeast0)
  then show ?thesis by (intro exI [of _ t']) (simp add: next_id_def)
qed

theorem next_id_returns_witness:
  "\<exists>t'. next_id mem_env (\<lambda>n t. if n < 2 then RBT.insert (as_bytes ''sub_id'')
        (to_be_bytes (the (counter_value (RBT.lookup t (as_bytes ''sub_id''))) + 3)) t else t) ''sub_id'' mem_empty
      = Some (mem_empty\<lparr>meta := t'\<rparr>, Inr 7)
    \<and> counter_value (map_of (RBT.entries t') (as_bytes ''sub_id'')) = Some 7"
proof -
  define k :: "nat \<Rightarrow> u64" where "k = (\<lambda>n. if n < 2 then 3 else 0)"
  have zero: "counter_value (map_of (RBT.entries (meta mem_empty)) (as_bytes ''sub_id'')) = Some 0"
    by (simp add: mem_empty_def counter_value_def)
  have "sum k {..<2} = 6" by (simp add: k_def numeral_2_eq_2)
  then show ?thesis
    using next_id_returns [OF mem.kmsg_store_axioms zero, where k = k and d = 2 and
        interf = "\<lambda>n t. if n < 2 then RBT.insert (as_bytes ''sub_id'')
          (to_be_bytes (the (counter_value (RBT.lookup t (as_bytes ''sub_id''))) + 3)) t else t"]
    by (auto simp: k_def map_of_entries)
qed

section \<open>Trimming during a post\<close>

lemma next_index_trimmed [simp]: "next_index (trimmed i log m) = next_index m"
  by (simp add: trimmed_def Let_def)

context kmsg_store
begin

text \<open>A message written over the last one is all that is read from its index on.\<close>

lemma read_overwritten:
  assumes log: "list_all2 (entry_of env u) (message_entries u (ent t)) log"
    and top: "\<forall>x \<in> set log. msg_index x \<le> n" and d: "de_message env d = Inr m" "msg_index m = n"
  shows "read_range env len [] (sl_range_incl env (put env t (message_key u n) d)
      (message_key u n) (message_key u (-1))) = Inr [m]"
proof -
  let ?es = "message_entries u (ent (put env t (message_key u n) d))"
  let ?P = "\<lambda>k. message_key u n \<le> k \<and> k \<le> message_key u (-1)"
  have none: "map_of (ent t) k = None" if "?P k" "k \<noteq> message_key u n" for k
  proof (rule ccontr)
    assume "map_of (ent t) k \<noteq> None"
    moreover have "prefix (message_prefix u) k" using that message_range_prefix by blast
    ultimately obtain v where "map_of (message_entries u (ent t)) k = Some v"
      by (auto simp: map_of_message_entries)
    then obtain x where "x \<in> set log" "entry_of env u (k, v) x"
      using entry_message [OF log] map_of_SomeD by metis
    then have "x \<in> set log" "k = message_key u (msg_index x)" by (simp_all add: entry_of_def)
    then show False using top that by force
  qed
  have "filter (\<lambda>(k, v). ?P k) ?es = [(message_key u n, d)]"
  proof (rule key_sorted_unique)
    show "map_of (filter (\<lambda>(k, v). ?P k) ?es) = map_of [(message_key u n, d)]"
      by (rule ext) (auto simp: map_of_filter_key map_of_message_entries put_map none)
  qed (simp_all add: key_sorted_filter message_entries_sorted)
  then show ?thesis
    using d read_range_entries [of u "[(message_key u n, d)]" "[m]" len "[]"]
    by (simp add: range_incl_entries entry_of_def)
qed

lemma stale_trim:
  assumes rep: "kmsg_rep env ent st A" and u: "nul_free u" and q: "a_queues A u = Some q"
    and old: "x \<in> set (aq_log q)" "msg_index x < i" "i \<le> aq_next q"
    and room: "room_for (MsgQueuePostMessageReq u m1) A"
  shows "\<exists>st1 st2 st3 r. get_queue_meta env u st = (st, Inr (meta_of q))
    \<and> handle_post_message env now u m1 st = (st1, Inr (aq_next q))
    \<and> trim_queue env u i (meta_of q) st1 = (st2, Inr r)
    \<and> handle_post_message env now' u m2 st2 = (st3, Inr (aq_next q))
    \<and> (\<forall>len. handle_read_message env u (aq_next q) len st3 = (st3, Inr [stamp now' (aq_next q) m2]))"
proof -
  let ?n = "aq_next q" and ?q1 = "appended now m1 q"
  have meta0: "get_queue_meta env u st = (st, Inr (meta_of q))"
    using get_queue_meta_rep [OF rep_queue [OF rep u]] q by simp
  obtain st1 where post1: "handle_post_message env now u m1 st = (st1, Inr ?n)"
    and rep1: "kmsg_rep env ent st1 (set_queue u (Some ?q1) A)"
    using post_refines [OF rep u room, of now] q
    by (cases "handle_post_message env now u m1 st")
      (auto simp: with_queue_def reply_with_def rbind_Inr_iff)
  have qr1: "queue_rep env ent st1 u (Some ?q1)"
    using rep_queue [OF rep1 u] by (simp add: set_queue_def)
  then have wf1: "aq_wf ?q1" and log1: "list_all2 (entry_of env u) (message_entries u (ent (messages st1))) (aq_log ?q1)"
    by (simp_all add: queue_rep_def)
  define gone where "gone = filter (\<lambda>x. msg_index x < i) (aq_log ?q1)"
  obtain msgs b where trim: "trim_queue env u i (meta_of q) st1 = (if gone = [] then (st1\<lparr>messages := msgs\<rparr>, Inr 0)
       else (st1\<lparr>messages := msgs, queue_metas := put env (queue_metas st1) (queue_key u) b\<rparr>, Inr (of_nat (length gone))))"
    and b: "de_meta env b = Inr (trimmed i (aq_log ?q1) (meta_of q))"
    and kept: "list_all2 (entry_of env u) (message_entries u (ent msgs)) (backlog i (aq_log ?q1))"
    unfolding gone_def by (rule trim_queue_effect [OF log1 wf_length [OF wf1] u]) blast
  have "gone \<noteq> []" using old by (auto simp: gone_def appended_def filter_empty_conv)
  define st2 where "st2 = st1\<lparr>messages := msgs, queue_metas := put env (queue_metas st1) (queue_key u) b\<rparr>"
  obtain cb where "map_of (ent (queues st2)) (queue_key u) = Some cb" "de_config env cb = Inr (aq_config q)"
    using qr1 by (auto simp: queue_rep_def holds_def st2_def)
  moreover have "map_of (ent (queue_metas st2)) (queue_key u) = Some b" by (simp add: st2_def put_map)
  moreover have "next_index (trimmed i (aq_log ?q1) (meta_of q)) = ?n" by (simp add: meta_of_def)
  ultimately obtain d b' where post2: "handle_post_message env now' u m2 st2
      = (st2\<lparr>messages := put env (messages st2) (message_key u ?n) d,
            queue_metas := put env (queue_metas st2) (queue_key u) b'\<rparr>, Inr ?n)"
    and d: "de_message env d = Inr (stamp now' ?n m2)"
    and b': "de_meta env b' = Inr (count_message (of_nat (length (msg_payload m2))) (trimmed i (aq_log ?q1) (meta_of q)))"
    using post_effect [of st2 u cb "aq_config q" b "trimmed i (aq_log ?q1) (meta_of q)" now' m2] b by metis
  have "\<forall>x \<in> set (backlog i (aq_log ?q1)). msg_index x \<le> ?n"
    using wf_last_max [OF wf1] by (simp add: backlog_def appended_def)
  from read_overwritten [OF kept this d] have
    "handle_read_message env u ?n len (st2\<lparr>messages := put env (messages st2) (message_key u ?n) d,
       queue_metas := put env (queue_metas st2) (queue_key u) b'\<rparr>)
     = (st2\<lparr>messages := put env (messages st2) (message_key u ?n) d,
          queue_metas := put env (queue_metas st2) (queue_key u) b'\<rparr>, Inr [stamp now' ?n m2])" for len
    using b' by (simp add: handle_read_message_def get_queue_meta_def sr_bind_def get_from_eq put_map
        decode_queue_meta_def st2_def)
  moreover have "trim_queue env u i (meta_of q) st1 = (st2, Inr (of_nat (length gone)))"
    using trim \<open>gone \<noteq> []\<close> by (simp add: st2_def)
  ultimately show ?thesis using meta0 post1 post2 by blast
qed

end

text \<open>C15: trimming is not safe against a post. When a message is posted between the reading of the
  counters in \<open>delete_message_before\<close> and their writing, the counters go back to before the post:
  the next post is given the index of the first one and its message replaces it in the store,
  although both calls returned success.\<close>

theorem stale_trim_reuses_index:
  assumes "kmsg_store env ent" "kmsg_rep env ent st A" "nul_free u" "a_queues A u = Some q"
    and "x \<in> set (aq_log q)" "msg_index x < i" "i \<le> aq_next q"
    and "room_for (MsgQueuePostMessageReq u m1) A"
  shows "\<exists>st1 st2 st3 r. get_queue_meta env u st = (st, Inr (meta_of q))
    \<and> handle_post_message env now u m1 st = (st1, Inr (aq_next q))
    \<and> trim_queue env u i (meta_of q) st1 = (st2, Inr r)
    \<and> handle_post_message env now' u m2 st2 = (st3, Inr (aq_next q))
    \<and> (\<forall>len. handle_read_message env u (aq_next q) len st3 = (st3, Inr [stamp now' (aq_next q) m2]))"
  using kmsg_store.stale_trim [OF assms] .

theorem stale_trim_reuses_index_witness:
  "\<exists>st1 st2 st3 r. get_queue_meta mem_env ''/q'' demo_st1 = (demo_st1, Inr (meta_of demo_queue1))
    \<and> handle_post_message mem_env 6 ''/q'' (new_message [20]) demo_st1 = (st1, Inr 2)
    \<and> trim_queue mem_env ''/q'' 2 (meta_of demo_queue1) st1 = (st2, Inr r)
    \<and> handle_post_message mem_env 7 ''/q'' (new_message [30]) st2 = (st3, Inr 2)
    \<and> (\<forall>len. handle_read_message mem_env ''/q'' 2 len st3 = (st3, Inr [stamp 7 2 (new_message [30])]))"
proof -
  let ?A = "set_queue ''/q'' (Some demo_queue1) demo_A"
  have q: "a_queues ?A ''/q'' = Some demo_queue1" by (simp add: set_queue_def)
  have two: "aq_next demo_queue1 = 2" by (simp add: demo_queue1_def appended_def demo_queue_def)
  have room: "room_for (MsgQueuePostMessageReq ''/q'' (new_message [20])) ?A"
    by (simp add: q two) (simp add: demo_queue1_def appended_def demo_queue_def new_message_def)
  have x: "stamp 5 1 (new_message [10]) \<in> set (aq_log demo_queue1)"
    by (simp add: demo_queue1_def appended_def demo_queue_def)
  show ?thesis
    using stale_trim_reuses_index [OF mem.kmsg_store_axioms demo_rep1 _ q x, of 2 "new_message [20]" 6 7 "new_message [30]"] room
    by (simp only: two) simp
qed

section \<open>Failures of the store\<close>

text \<open>The requests that write to the store at most once.\<close>

fun single_write :: "msg_queue_req \<Rightarrow> bool" where
  "single_write (MsgQueueGetQueueStatsReq u) = True"
| "single_write (MsgQueueUpdateQueueConfigReq u config) = True"
| "single_write (MsgQueuePostMessageReq u m) = True"
| "single_write (MsgQueueFetchMessagesReq s len commit) = True"
| "single_write (MsgQueueReadMessageReq u cur len) = True"
| "single_write (MsgQueueCommitAckReq s i) = True"
| "single_write (MsgQueueSeekReq s position) = True"
| "single_write req = False"

definition flush_failed :: "'t kmsg_env \<Rightarrow> 't sled_msg_queue \<Rightarrow> rpc_errors \<Rightarrow> bool" where
  "flush_failed env st e \<longleftrightarrow>
     (\<exists>err. sl_flush env [queues st, queue_metas st, messages st, subs st, meta st] = Inl err \<and> e = ReasonError err)"

named_theorems store_calls

lemma reads_keep_state [store_calls]:
  "get_from env tree key st = (st', r) \<Longrightarrow> st' = st"
  by (simp add: get_from_def)

lemma loads_keep_state [store_calls]:
  "get_queue_config env u st = (st', rc) \<Longrightarrow> st' = st"
  "get_queue_meta env u st = (st', rm) \<Longrightarrow> st' = st"
  "load_sub env s st = (st', rs) \<Longrightarrow> st' = st"
  by (auto simp: get_queue_config_def get_queue_meta_def load_sub_def sr_bind_def get_from_def
      split: sum.splits option.splits)

lemma failed_writes_keep_state [store_calls]:
  "insert_into env tree upd key v st = (st', Inl e) \<Longrightarrow> st' = st"
  "store_sub env s sub st = (st', Inl e) \<Longrightarrow> st' = st"
  by (auto simp: insert_into_def store_sub_def sr_bind_def split: sum.splits)

lemma failed_sync [store_calls]:
  "sync_if env config st = (st', Inl e) \<Longrightarrow> st' = st \<and> flush_failed env st e"
  by (auto simp: sync_if_def flush_def flush_failed_def map_err_def split: if_splits sum.splits)

lemma failed_post:
  "handle_post_message env now u m st = (st', Inl e) \<Longrightarrow> st' = st \<or> flush_failed env st' e"
  by (auto simp: handle_post_message_def sr_bind_def Let_def dest: store_calls
      split: prod.splits sum.splits tx_error.splits if_splits)

lemma failed_update:
  "handle_update_queue_config env u config st = (st', Inl e) \<Longrightarrow> st' = st \<or> flush_failed env st' e"
  by (auto simp: handle_update_queue_config_def sr_bind_def dest: store_calls
      split: prod.splits sum.splits if_splits)

lemma failed_fetch: "handle_fetch_messages env s len commit st = (st', Inl e) \<Longrightarrow> st' = st"
  by (auto simp: handle_fetch_messages_def sr_bind_def dest: store_calls
      split: prod.splits sum.splits if_splits)

lemma failed_cursor:
  "handle_commit_ack env s i st = (st', Inl e) \<Longrightarrow> st' = st"
  "handle_seek env s position st = (st', Inl e) \<Longrightarrow> st' = st"
  by (auto simp: handle_commit_ack_def handle_seek_def sr_bind_def dest: store_calls
      split: prod.splits sum.splits)

lemma failed_read:
  "handle_get_queue_stats env u st = (st', Inl e) \<Longrightarrow> st' = st"
  "handle_read_message env u cur len st = (st', Inl e) \<Longrightarrow> st' = st"
  by (auto simp: handle_get_queue_stats_def handle_read_message_def sr_bind_def dest: store_calls
      split: prod.splits sum.splits)

lemma reply_with_Inl: "reply_with f p = (st', Inl e) \<Longrightarrow> p = (st', Inl e)"
  by (cases p; cases "snd p") (auto simp: reply_with_def)

text \<open>C34: a request that fails changes nothing. Whatever the store does and whichever of its calls
  fails, a post, a change of the configuration, a fetch, a read, an acknowledgement or a seek that
  returns an error leaves all trees as they were; the one exception is an error of the final flush,
  after the change has been made.\<close>

theorem failed_request_changes_nothing:
  assumes "single_write req" "handle_request env interf now req st = Some (st', Inl e)"
  shows "st' = st \<or> flush_failed env st' e"
  using assms
  by (cases req)
    (auto simp: handle_request_def dest!: reply_with_Inl
      dest: failed_post failed_update failed_fetch failed_cursor failed_read)

definition full_disk :: "mem_tree kmsg_env" where
  "full_disk = mem_env\<lparr>sl_transaction := \<lambda>_ _. Inl (Storage ''disk full'')\<rparr>"

theorem failed_request_changes_nothing_witness:
  "\<exists>st' e. handle_request full_disk (\<lambda>_ t. t) 6 (MsgQueuePostMessageReq ''/q'' (new_message [20])) demo_st1
      = Some (st', Inl e)
    \<and> e = ReasonError ''disk full'' \<and> (st' = demo_st1 \<or> flush_failed full_disk st' e)"
proof -
  have dec: "decode_queue_config full_disk = decode_queue_config mem_env"
    by (rule ext) (simp add: decode_queue_config_def full_disk_def)
  have "get_queue_config full_disk ''/q'' demo_st1 = get_queue_config mem_env ''/q'' demo_st1"
    unfolding get_queue_config_def get_from_def dec by (simp add: full_disk_def)
  also have "\<dots> = (demo_st1, Inr (aq_config demo_queue1))"
    using mem.get_queue_config_rep [OF rep_queue [OF demo_rep1, of "''/q''"]] by (simp add: set_queue_def)
  finally have "handle_request full_disk (\<lambda>_ t. t) 6 (MsgQueuePostMessageReq ''/q'' (new_message [20])) demo_st1
      = Some (demo_st1, Inl (ReasonError ''disk full''))"
    by (simp add: handle_request_def handle_post_message_def sr_bind_def reply_with_def Let_def) (simp add: full_disk_def)
  with failed_request_changes_nothing [OF _ this] show ?thesis by simp
qed

end
