(* ===== verification/Msg_Queue_Rpc.thy ===== *)
theory Msg_Queue_Rpc
  imports Msg_Queue_Instance
begin

text \<open>
  The two ways to the message queue: \<open>MsgQueueClient\<close> calls the handlers in its own process or
  sends a request through \<open>kRPC\<close> to \<open>MsgQueueServerHandler\<close>. The JSON encoding and the
  transport are not part of the repository: \<open>rpc_codec\<close> and \<open>call\<close> are parameters, and the locale
  \<open>kmsg_rpc\<close> states what the client relies on.
\<close>

section \<open>Requests and responses\<close>

datatype req_kind =
  KCreateQueue | KDeleteQueue | KGetQueueStats | KUpdateQueueConfig | KPostMessage | KSubscribe
| KUnsubscribe | KFetchMessages | KReadMessage | KCommitAck | KSeek | KDeleteMessageBefore

fun struct_name :: "req_kind \<Rightarrow> string" where
  "struct_name KCreateQueue = ''MsgQueueCreateQueueReq''"
| "struct_name KDeleteQueue = ''MsgQueueDeleteQueueReq''"
| "struct_name KGetQueueStats = ''MsgQueueGetQueueStatsReq''"
| "struct_name KUpdateQueueConfig = ''MsgQueueUpdateQueueConfigReq''"
| "struct_name KPostMessage = ''MsgQueuePostMessageReq''"
| "struct_name KSubscribe = ''MsgQueueSubscribeReq''"
| "struct_name KUnsubscribe = ''MsgQueueUnsubscribeReq''"
| "struct_name KFetchMessages = ''MsgQueueFetchMessagesReq''"
| "struct_name KReadMessage = ''MsgQueueReadMessageReq''"
| "struct_name KCommitAck = ''MsgQueueCommitAckReq''"
| "struct_name KSeek = ''MsgQueueSeekReq''"
| "struct_name KDeleteMessageBefore = ''MsgQueueDeleteMessageBeforeReq''"

fun kind_of :: "msg_queue_req \<Rightarrow> req_kind" where
  "kind_of (MsgQueueCreateQueueReq _ _ _ _) = KCreateQueue"
| "kind_of (MsgQueueDeleteQueueReq _) = KDeleteQueue"
| "kind_of (MsgQueueGetQueueStatsReq _) = KGetQueueStats"
| "kind_of (MsgQueueUpdateQueueConfigReq _ _) = KUpdateQueueConfig"
| "kind_of (MsgQueuePostMessageReq _ _) = KPostMessage"
| "kind_of (MsgQueueSubscribeReq _ _ _ _ _) = KSubscribe"
| "kind_of (MsgQueueUnsubscribeReq _) = KUnsubscribe"
| "kind_of (MsgQueueFetchMessagesReq _ _ _) = KFetchMessages"
| "kind_of (MsgQueueReadMessageReq _ _ _) = KReadMessage"
| "kind_of (MsgQueueCommitAckReq _ _) = KCommitAck"
| "kind_of (MsgQueueSeekReq _ _) = KSeek"
| "kind_of (MsgQueueDeleteMessageBeforeReq _ _) = KDeleteMessageBefore"

record 'j rpc_codec =
  ser_req :: "msg_queue_req \<Rightarrow> (string, 'j) result"
  de_req :: "req_kind \<Rightarrow> 'j \<Rightarrow> (string, msg_queue_req) result"
  ser_reply :: "msg_queue_reply \<Rightarrow> 'j"
  as_str :: "'j \<Rightarrow> string option"
  as_u64 :: "'j \<Rightarrow> u64 option"
  de_stats :: "'j \<Rightarrow> (string, queue_stats) result"
  de_messages :: "'j \<Rightarrow> (string, message list) result"
  err_to_string :: "rpc_errors \<Rightarrow> string"

record 'j rpc_request =
  rq_method :: string
  rq_params :: 'j
  rq_seq :: u64
  rq_trace_id :: "string option"

datatype 'j rpc_result = Success 'j | Failed string

record 'j rpc_response =
  rs_result :: "'j rpc_result"
  rs_seq :: u64
  rs_trace_id :: "string option"

section \<open>The server\<close>

definition from_json :: "'j rpc_codec \<Rightarrow> req_kind \<Rightarrow> 'j \<Rightarrow> (rpc_errors, msg_queue_req) result" where
  "from_json codec kind value =
     map_err (\<lambda>e. ParseRequestError (''Failed to parse '' @ struct_name kind @ '': '' @ e)) (de_req codec kind value)"

text \<open>The method names of the arms of \<open>handle_rpc_call\<close>.\<close>

definition method_kind :: "string \<Rightarrow> req_kind option" where
  "method_kind m = map_of
     [(''create_queue'', KCreateQueue), (''delete_queue'', KDeleteQueue),
      (''get_queue_stats'', KGetQueueStats), (''update_queue_config'', KUpdateQueueConfig),
      (''post_message'', KPostMessage), (''subscribe'', KSubscribe), (''unsubscribe'', KUnsubscribe),
      (''fetch_messages'', KFetchMessages), (''read_message'', KReadMessage),
      (''commit_ack'', KCommitAck), (''seek'', KSeek), (''delete_message_before'', KDeleteMessageBefore)] m"

definition handle_rpc_call :: "'j rpc_codec \<Rightarrow> 't kmsg_env \<Rightarrow> (nat \<Rightarrow> 't \<Rightarrow> 't) \<Rightarrow> u64 \<Rightarrow> 'j rpc_request
  \<Rightarrow> 't sled_msg_queue \<Rightarrow> ('t sled_msg_queue \<times> (rpc_errors, 'j rpc_response) result) option" where
  "handle_rpc_call codec env interf now req st =
     (case method_kind (rq_method req) of
        None \<Rightarrow> Some (st, Inl (UnknownMethod (rq_method req)))
      | Some kind \<Rightarrow>
          (case from_json codec kind (rq_params req) of
             Inl e \<Rightarrow> Some (st, Inl e)
           | Inr r \<Rightarrow>
               map_option (\<lambda>(st, reply). (st, rbind reply (\<lambda>x.
                 Inr \<lparr>rs_result = Success (ser_reply codec x), rs_seq = rq_seq req, rs_trace_id = rq_trace_id req\<rparr>)))
                 (handle_request env interf now r st)))"

text \<open>\<open>SledMsgQueueServer::handle_rpc_call\<close> turns every error into a failed response.\<close>

definition serve_rpc_call :: "'j rpc_codec \<Rightarrow> 't kmsg_env \<Rightarrow> (nat \<Rightarrow> 't \<Rightarrow> 't) \<Rightarrow> u64 \<Rightarrow> 'j rpc_request
  \<Rightarrow> 't sled_msg_queue \<Rightarrow> ('t sled_msg_queue \<times> 'j rpc_response) option" where
  "serve_rpc_call codec env interf now req st =
     map_option (\<lambda>(st, r). (st, case r of
        Inr resp \<Rightarrow> resp
      | Inl err \<Rightarrow> \<lparr>rs_result = Failed (err_to_string codec err), rs_seq = rq_seq req, rs_trace_id = rq_trace_id req\<rparr>))
       (handle_rpc_call codec env interf now req st)"

section \<open>The client\<close>

datatype client_kind = InProcess | KRPC

type_synonym ('t, 'j) rpc_call =
  "string \<Rightarrow> 'j \<Rightarrow> 't sled_msg_queue \<Rightarrow> ('t sled_msg_queue \<times> (rpc_errors, 'j) result) option"

text \<open>What every method of the client does in the \<open>KRPC\<close> case: encode the request, call, decode the
  answer.\<close>

definition krpc_request :: "'j rpc_codec \<Rightarrow> ('t, 'j) rpc_call \<Rightarrow> string \<Rightarrow> msg_queue_req
  \<Rightarrow> ('j \<Rightarrow> (rpc_errors, 'a) result) \<Rightarrow> 't sled_msg_queue \<Rightarrow> ('t sled_msg_queue \<times> (rpc_errors, 'a) result) option" where
  "krpc_request codec call method req decode st =
     (case ser_req codec req of
        Inl e \<Rightarrow> Some (st, Inl (ReasonError (''Failed to serialize '' @ struct_name (kind_of req) @ '': '' @ e)))
      | Inr j \<Rightarrow> map_option (\<lambda>(st, r). (st, rbind r decode)) (call method j st))"

definition expect_str :: "'j rpc_codec \<Rightarrow> string \<Rightarrow> 'j \<Rightarrow> (rpc_errors, string) result" where
  "expect_str codec what j = (case as_str codec j of None \<Rightarrow> Inl (ParserResponseError what) | Some s \<Rightarrow> Inr s)"

definition expect_u64 :: "'j rpc_codec \<Rightarrow> string \<Rightarrow> 'j \<Rightarrow> (rpc_errors, u64) result" where
  "expect_u64 codec what j = (case as_u64 codec j of None \<Rightarrow> Inl (ParserResponseError what) | Some n \<Rightarrow> Inr n)"

definition expect_messages :: "'j rpc_codec \<Rightarrow> 'j \<Rightarrow> (rpc_errors, message list) result" where
  "expect_messages codec j =
     map_err (\<lambda>e. ParserResponseError (''Failed to deserialize Vec<Message> response: '' @ e)) (de_messages codec j)"

definition create_queue where
  "create_queue kind codec call env interf name appid app_owner config st =
     (case kind of
        InProcess \<Rightarrow> handle_create_queue env interf name appid app_owner config st
      | KRPC \<Rightarrow> krpc_request codec call ''create_queue'' (MsgQueueCreateQueueReq name appid app_owner config)
                 (expect_str codec ''Expected QueueUrn string'') st)"

definition delete_queue where
  "delete_queue kind codec call env queue_urn st =
     (case kind of
        InProcess \<Rightarrow> Some (handle_delete_queue env queue_urn st)
      | KRPC \<Rightarrow> krpc_request codec call ''delete_queue'' (MsgQueueDeleteQueueReq queue_urn) (\<lambda>_. Inr ()) st)"

definition get_queue_stats where
  "get_queue_stats kind codec call env queue_urn st =
     (case kind of
        InProcess \<Rightarrow> Some (handle_get_queue_stats env queue_urn st)
      | KRPC \<Rightarrow> krpc_request codec call ''get_queue_stats'' (MsgQueueGetQueueStatsReq queue_urn)
                 (\<lambda>j. map_err (\<lambda>e. ParserResponseError (''Failed to deserialize QueueStats response: '' @ e))
                    (de_stats codec j)) st)"

definition update_queue_config where
  "update_queue_config kind codec call env queue_urn config st =
     (case kind of
        InProcess \<Rightarrow> Some (handle_update_queue_config env queue_urn config st)
      | KRPC \<Rightarrow> krpc_request codec call ''update_queue_config'' (MsgQueueUpdateQueueConfigReq queue_urn config)
                 (\<lambda>_. Inr ()) st)"

definition post_message where
  "post_message kind codec call env now queue_urn msg st =
     (case kind of
        InProcess \<Rightarrow> Some (handle_post_message env now queue_urn msg st)
      | KRPC \<Rightarrow> krpc_request codec call ''post_message'' (MsgQueuePostMessageReq queue_urn msg)
                 (expect_u64 codec ''Expected MsgIndex u64'') st)"

definition subscribe where
  "subscribe kind codec call env interf queue_urn user_id app_id sub_id position st =
     (case kind of
        InProcess \<Rightarrow> handle_subscribe env interf queue_urn sub_id position st
      | KRPC \<Rightarrow> krpc_request codec call ''subscribe'' (MsgQueueSubscribeReq queue_urn user_id app_id sub_id position)
                 (expect_str codec ''Expected SubscriptionId string'') st)"

definition unsubscribe where
  "unsubscribe kind codec call env sub_id st =
     (case kind of
        InProcess \<Rightarrow> Some (handle_unsubscribe env sub_id st)
      | KRPC \<Rightarrow> krpc_request codec call ''unsubscribe'' (MsgQueueUnsubscribeReq sub_id) (\<lambda>_. Inr ()) st)"

definition fetch_messages where
  "fetch_messages kind codec call env sub_id len auto_commit st =
     (case kind of
        InProcess \<Rightarrow> Some (handle_fetch_messages env sub_id len auto_commit st)
      | KRPC \<Rightarrow> krpc_request codec call ''fetch_messages'' (MsgQueueFetchMessagesReq sub_id len auto_commit)
                 (expect_messages codec) st)"

definition read_message where
  "read_message kind codec call env queue_urn cur len st =
     (case kind of
        InProcess \<Rightarrow> Some (handle_read_message env queue_urn cur len st)
      | KRPC \<Rightarrow> krpc_request codec call ''read_message'' (MsgQueueReadMessageReq queue_urn cur len)
                 (expect_messages codec) st)"

definition commit_ack where
  "commit_ack kind codec call env sub_id i st =
     (case kind of
        InProcess \<Rightarrow> Some (handle_commit_ack env sub_id i st)
      | KRPC \<Rightarrow> krpc_request codec call ''commit_ack'' (MsgQueueCommitAckReq sub_id i) (\<lambda>_. Inr ()) st)"

definition seek where
  "seek kind codec call env sub_id position st =
     (case kind of
        InProcess \<Rightarrow> Some (handle_seek env sub_id position st)
      | KRPC \<Rightarrow> krpc_request codec call ''seek'' (MsgQueueSeekReq sub_id position) (\<lambda>_. Inr ()) st)"

definition delete_message_before where
  "delete_message_before kind codec call env queue_urn i st =
     (case kind of
        InProcess \<Rightarrow> Some (handle_delete_message_before env queue_urn i st)
      | KRPC \<Rightarrow> krpc_request codec call ''delete_message_before'' (MsgQueueDeleteMessageBeforeReq queue_urn i)
                 (expect_u64 codec ''Expected deleted count u64'') st)"

section \<open>Over the wire\<close>

text \<open>How an answer changes on its way: an error arrives as what the transport makes of its text.\<close>

definition over_wire :: "'j rpc_codec \<Rightarrow> (string \<Rightarrow> rpc_errors) \<Rightarrow> ('s \<times> (rpc_errors, 'a) result) option
  \<Rightarrow> ('s \<times> (rpc_errors, 'a) result) option" where
  "over_wire codec remote = map_option (\<lambda>(s, r). (s, map_err (\<lambda>e. remote (err_to_string codec e)) r))"

text \<open>What the client relies on: JSON reads back what it wrote, and a call hands the request to the
  server once and returns the value of its response, or \<open>remote e\<close> for a failed one.\<close>

locale kmsg_rpc =
  fixes codec :: "'j rpc_codec" and call :: "('t, 'j) rpc_call" and remote :: "string \<Rightarrow> rpc_errors"
    and env :: "'t kmsg_env" and interf :: "nat \<Rightarrow> 't \<Rightarrow> 't" and now :: u64
  assumes req_codec: "\<exists>j. ser_req codec req = Inr j \<and> de_req codec (kind_of req) j = Inr req"
    and str_codec: "as_str codec (ser_reply codec (ReplyString s)) = Some s"
    and u64_codec: "as_u64 codec (ser_reply codec (ReplyU64 n)) = Some n"
    and stats_codec: "de_stats codec (ser_reply codec (ReplyStats x)) = Inr x"
    and messages_codec: "de_messages codec (ser_reply codec (ReplyMessages ms)) = Inr ms"
    and call_served: "\<exists>seq trace. call method params st =
      map_option (\<lambda>(st, resp). (st, case rs_result resp of Success j \<Rightarrow> Inr j | Failed e \<Rightarrow> Inl (remote e)))
        (serve_rpc_call codec env interf now
          \<lparr>rq_method = method, rq_params = params, rq_seq = seq, rq_trace_id = trace\<rparr> st)"
begin

text \<open>A request whose method name is its own is answered as \<open>handle_request\<close> answers it.\<close>

lemma krpc_request_served:
  assumes "method_kind method = Some (kind_of req)"
    and "handle_request env interf now req st = map_option (reply_with f) h"
    and "\<And>a. decode (ser_reply codec (f a)) = Inr a"
  shows "krpc_request codec call method req decode st = over_wire codec remote h"
proof -
  obtain j where j: "ser_req codec req = Inr j" "de_req codec (kind_of req) j = Inr req"
    using req_codec by blast
  obtain seq trace where call: "call method j st =
      map_option (\<lambda>(st, resp). (st, case rs_result resp of Success j \<Rightarrow> Inr j | Failed e \<Rightarrow> Inl (remote e)))
        (serve_rpc_call codec env interf now \<lparr>rq_method = method, rq_params = j, rq_seq = seq, rq_trace_id = trace\<rparr> st)"
    using call_served by blast
  show ?thesis
  proof (cases h)
    case (Some p)
    obtain s r where "p = (s, r)" by (cases p)
    then show ?thesis
      using assms j call Some
      by (cases r) (simp_all add: krpc_request_def serve_rpc_call_def handle_rpc_call_def from_json_def
          over_wire_def reply_with_def)
  qed (use assms j call in \<open>simp add: krpc_request_def serve_rpc_call_def handle_rpc_call_def from_json_def
      over_wire_def\<close>)
qed

lemmas handled = handle_request_def expect_str_def expect_u64_def expect_messages_def
  str_codec u64_codec stats_codec messages_codec

lemma names_over_wire:
  "create_queue KRPC codec call env interf name appid owner config st
     = over_wire codec remote (create_queue InProcess codec call env interf name appid owner config st)"
  "subscribe KRPC codec call env interf u user app sid position st
     = over_wire codec remote (subscribe InProcess codec call env interf u user app sid position st)"
  unfolding create_queue_def subscribe_def client_kind.case
  by (rule krpc_request_served [where f = ReplyString], simp add: method_kind_def, simp add: handled, simp add: handled)+

lemma units_over_wire:
  "delete_queue KRPC codec call env u st = over_wire codec remote (delete_queue InProcess codec call env u st)"
  "update_queue_config KRPC codec call env u config st
     = over_wire codec remote (update_queue_config InProcess codec call env u config st)"
  "unsubscribe KRPC codec call env sid st = over_wire codec remote (unsubscribe InProcess codec call env sid st)"
  "commit_ack KRPC codec call env sid i st = over_wire codec remote (commit_ack InProcess codec call env sid i st)"
  "seek KRPC codec call env sid position st = over_wire codec remote (seek InProcess codec call env sid position st)"
  unfolding delete_queue_def update_queue_config_def unsubscribe_def commit_ack_def seek_def client_kind.case
  by (rule krpc_request_served [where f = "\<lambda>_. ReplyUnit"], simp add: method_kind_def, simp add: handled, simp)+

lemma values_over_wire:
  "get_queue_stats KRPC codec call env u st = over_wire codec remote (get_queue_stats InProcess codec call env u st)"
  "post_message KRPC codec call env now u m st = over_wire codec remote (post_message InProcess codec call env now u m st)"
  "delete_message_before KRPC codec call env u i st
     = over_wire codec remote (delete_message_before InProcess codec call env u i st)"
  unfolding get_queue_stats_def post_message_def delete_message_before_def client_kind.case
  by (rule krpc_request_served [where f = ReplyStats], simp add: method_kind_def, simp add: handled, simp add: handled)
    (rule krpc_request_served [where f = ReplyU64], simp add: method_kind_def, simp add: handled, simp add: handled)+

lemma messages_over_wire:
  "fetch_messages KRPC codec call env sid len commit st
     = over_wire codec remote (fetch_messages InProcess codec call env sid len commit st)"
  "read_message KRPC codec call env u cur len st
     = over_wire codec remote (read_message InProcess codec call env u cur len st)"
  unfolding fetch_messages_def read_message_def client_kind.case
  by (rule krpc_request_served [where f = ReplyMessages], simp add: method_kind_def, simp add: handled, simp add: handled)+

end

section \<open>A wire\<close>

text \<open>An encoding that keeps requests and replies as they are, and a transport that calls the
  server: the laws of \<open>kmsg_rpc\<close> can hold.\<close>

datatype wire_value = JReq msg_queue_req | JReply msg_queue_reply

fun wire_error :: "rpc_errors \<Rightarrow> string" where
  "wire_error (ReasonError e) = e"
| "wire_error (ParseRequestError e) = e"
| "wire_error (ParserResponseError e) = e"
| "wire_error (UnknownMethod m) = m"
| "wire_error (Panic e) = e"

definition wire_codec :: "wire_value rpc_codec" where
  "wire_codec = \<lparr>
     ser_req = (\<lambda>r. Inr (JReq r)),
     de_req = (\<lambda>k j. case j of JReq r \<Rightarrow> if kind_of r = k then Inr r else Inl ''struct'' | _ \<Rightarrow> Inl ''value''),
     ser_reply = JReply,
     as_str = (\<lambda>j. case j of JReply (ReplyString s) \<Rightarrow> Some s | _ \<Rightarrow> None),
     as_u64 = (\<lambda>j. case j of JReply (ReplyU64 n) \<Rightarrow> Some n | _ \<Rightarrow> None),
     de_stats = (\<lambda>j. case j of JReply (ReplyStats x) \<Rightarrow> Inr x | _ \<Rightarrow> Inl ''value''),
     de_messages = (\<lambda>j. case j of JReply (ReplyMessages ms) \<Rightarrow> Inr ms | _ \<Rightarrow> Inl ''value''),
     err_to_string = wire_error\<rparr>"

definition wire_call :: "'t kmsg_env \<Rightarrow> (nat \<Rightarrow> 't \<Rightarrow> 't) \<Rightarrow> u64 \<Rightarrow> ('t, wire_value) rpc_call" where
  "wire_call env interf now method params st =
     map_option (\<lambda>(st, resp). (st, case rs_result resp of Success j \<Rightarrow> Inr j | Failed e \<Rightarrow> Inl (ReasonError e)))
       (serve_rpc_call wire_codec env interf now
         \<lparr>rq_method = method, rq_params = params, rq_seq = 1, rq_trace_id = None\<rparr> st)"

interpretation wire: kmsg_rpc wire_codec "wire_call env interf now" ReasonError env interf now
  for env :: "'t kmsg_env" and interf :: "nat \<Rightarrow> 't \<Rightarrow> 't" and now :: u64
  by unfold_locales (auto simp: wire_codec_def wire_call_def)

section \<open>The client\<close>

text \<open>C19: the client does the same through \<open>kRPC\<close> as in its own process. For every method, the call
  over the wire leaves the same state and returns the same value, and an error arrives with the
  text it has on the server.\<close>

theorem krpc_client_as_in_process:
  assumes "kmsg_rpc codec call remote env interf now"
  shows "create_queue KRPC codec call env interf name appid owner config st
      = over_wire codec remote (create_queue InProcess codec call env interf name appid owner config st)
    \<and> delete_queue KRPC codec call env u st = over_wire codec remote (delete_queue InProcess codec call env u st)
    \<and> get_queue_stats KRPC codec call env u st = over_wire codec remote (get_queue_stats InProcess codec call env u st)
    \<and> update_queue_config KRPC codec call env u config st
      = over_wire codec remote (update_queue_config InProcess codec call env u config st)
    \<and> post_message KRPC codec call env now u m st = over_wire codec remote (post_message InProcess codec call env now u m st)
    \<and> subscribe KRPC codec call env interf u user app sub position st
      = over_wire codec remote (subscribe InProcess codec call env interf u user app sub position st)
    \<and> unsubscribe KRPC codec call env sid st = over_wire codec remote (unsubscribe InProcess codec call env sid st)
    \<and> fetch_messages KRPC codec call env sid len commit st
      = over_wire codec remote (fetch_messages InProcess codec call env sid len commit st)
    \<and> read_message KRPC codec call env u cur len st
      = over_wire codec remote (read_message InProcess codec call env u cur len st)
    \<and> commit_ack KRPC codec call env sid i st = over_wire codec remote (commit_ack InProcess codec call env sid i st)
    \<and> seek KRPC codec call env sid position st = over_wire codec remote (seek InProcess codec call env sid position st)
    \<and> delete_message_before KRPC codec call env u i st
      = over_wire codec remote (delete_message_before InProcess codec call env u i st)"
  by (intro conjI kmsg_rpc.names_over_wire [OF assms] kmsg_rpc.units_over_wire [OF assms]
      kmsg_rpc.values_over_wire [OF assms] kmsg_rpc.messages_over_wire [OF assms])

theorem krpc_client_as_in_process_witness:
  "post_message KRPC wire_codec (wire_call mem_env (\<lambda>_ t. t) 5) mem_env 5 ''/none'' (new_message [1]) mem_empty
   = Some (mem_empty, Inl (ReasonError ''Queue not found: /none''))"
proof -
  have "post_message InProcess wire_codec (wire_call mem_env (\<lambda>_ t. t) 5) mem_env 5 ''/none'' (new_message [1]) mem_empty
      = Some (mem_empty, Inl (ReasonError ''Queue not found: /none''))"
    using mem.get_queue_config_rep [OF rep_queue [OF mem_empty_rep, of "''/none''"]]
    by (simp add: post_message_def handle_post_message_def sr_bind_def a_empty_def no_queue_error_def)
  then show ?thesis
    using krpc_client_as_in_process [OF wire.kmsg_rpc_axioms, of mem_env "\<lambda>_ t. t" 5]
    by (simp add: over_wire_def) (simp add: wire_codec_def)
qed

end
