(* ===== verification/Klog.thy ===== *)
theory Klog
  imports Prelude "HOL-Library.List_Lexorder" "HOL-Library.Char_ord"
begin

text \<open>
  The replicated log \<open>klog\<close>: the requests of \<open>klog/src/lib.rs\<close>, the cache of recent request
  identifiers and the manager of \<open>state_store/store.rs\<close>, the store in memory of
  \<open>state_store/memory.rs\<close> and the state machine of \<open>state_machine/machine.rs\<close>.

  Consensus (the crate \<open>openraft\<close>) decides which entries are applied and in which order; it is
  not part of the repository. Its log identifiers and memberships are the type variables \<open>'l\<close>,
  \<open>'m\<close> and \<open>'sm\<close>. Every reading of the clock is a parameter. The store behind the manager is a
  trait object, here the record \<open>klog_store_ops\<close> of its methods.
\<close>

section \<open>Entries and requests\<close>

datatype klog_error = InvalidFormat string

type_synonym 'a kresult = "(klog_error, 'a) result"

datatype klog_level = LevelTrace | LevelDebug | LevelInfo | LevelWarn | LevelError | LevelFatal

record klog_entry =
  ke_id :: u64
  ke_timestamp :: u64
  ke_node_id :: u64
  ke_request_id :: "string option"
  ke_level :: klog_level
  ke_source :: "string option"
  ke_attrs :: "(string, string) hmap"
  ke_message :: string

record klog_meta_entry =
  km_key :: string
  km_value :: string
  km_updated_at :: u64
  km_updated_by :: u64
  km_revision :: u64

datatype klog_request =
  AppendLog klog_entry
| PutMeta klog_meta_entry "u64 option"
| DeleteMeta string

datatype klog_response =
  RespOk | RespEmpty
| AppendOk u64
| MetaPutOk string u64
| MetaPutConflict string u64 "u64 option"
| MetaDeleteOk string bool "klog_meta_entry option"
| RespErr string

datatype klog_meta_put_result = Stored klog_meta_entry | VersionConflict u64 "u64 option"

record klog_state_snapshot_data =
  sd_entries :: "klog_entry list"
  sd_meta_entries :: "klog_meta_entry list"

datatype klog_query_order = Asc | Desc

record klog_query =
  q_start_id :: "u64 option"
  q_end_id :: "u64 option"
  q_limit :: nat
  q_order :: klog_query_order
  q_level :: "klog_level option"
  q_source :: "string option"
  q_attr_key :: "string option"
  q_attr_value :: "string option"

definition default_query :: klog_query where
  "default_query = \<lparr>q_start_id = None, q_end_id = None, q_limit = 100, q_order = Asc, q_level = None,
     q_source = None, q_attr_key = None, q_attr_value = None\<rparr>"

record ('l, 'sm) state_machine_meta =
  smm_last_applied_log_id :: "'l option"
  smm_last_membership :: 'sm

text \<open>\<open>.map(trim).filter(|v| !v.is_empty())\<close>\<close>

definition trimmed_non_empty :: "string option \<Rightarrow> string option" where
  "trimmed_non_empty s =
     (case s of None \<Rightarrow> None | Some v \<Rightarrow> let v = trim v in if v = [] then None else Some v)"

definition normalize_request_id :: "string option \<Rightarrow> string option" where
  "normalize_request_id request_id = trimmed_non_empty request_id"

section \<open>Recent request identifiers\<close>

definition REQUEST_DEDUP_WINDOW_MS :: u64 where "REQUEST_DEDUP_WINDOW_MS = 5 * 60 * 1000"
definition REQUEST_DEDUP_MAX_ITEMS :: nat where "REQUEST_DEDUP_MAX_ITEMS = 10000"

record dedup_record =
  dr_log_id :: u64
  dr_seen_at_ms :: u64

record dedup_cache =
  dc_records :: "(string, dedup_record) hmap"
  dc_order :: "(u64 \<times> string) list"

definition empty_dedup :: dedup_cache where
  "empty_dedup = \<lparr>dc_records = [], dc_order = []\<rparr>"

text \<open>The loop of \<open>cleanup\<close>: it ends because every turn takes an element off the queue.\<close>

fun cleanup_loop :: "u64 \<Rightarrow> (string, dedup_record) hmap \<Rightarrow> (u64 \<times> string) list \<Rightarrow> dedup_cache" where
  "cleanup_loop now_ms records [] = \<lparr>dc_records = records, dc_order = []\<rparr>"
| "cleanup_loop now_ms records ((seen_at_ms, request_id) # order) =
     (if saturating_sub now_ms seen_at_ms > REQUEST_DEDUP_WINDOW_MS
         \<or> length records > REQUEST_DEDUP_MAX_ITEMS then
        cleanup_loop now_ms
          (case hm_get records request_id of
             None \<Rightarrow> records
           | Some v \<Rightarrow> if dr_seen_at_ms v = seen_at_ms then hm_remove request_id records else records)
          order
      else \<lparr>dc_records = records, dc_order = (seen_at_ms, request_id) # order\<rparr>)"

definition dedup_cleanup :: "u64 \<Rightarrow> dedup_cache \<Rightarrow> dedup_cache" where
  "dedup_cleanup now_ms d = cleanup_loop now_ms (dc_records d) (dc_order d)"

definition dedup_lookup :: "string \<Rightarrow> u64 \<Rightarrow> dedup_cache \<Rightarrow> dedup_cache \<times> u64 option" where
  "dedup_lookup request_id now_ms d =
     (let d = dedup_cleanup now_ms d
      in (d, map_option dr_log_id (hm_get (dc_records d) request_id)))"

definition dedup_remember :: "string \<Rightarrow> u64 \<Rightarrow> u64 \<Rightarrow> dedup_cache \<Rightarrow> dedup_cache" where
  "dedup_remember request_id log_id now_ms d =
     (let d = dedup_cleanup now_ms d;
          d = d\<lparr>dc_records := hm_insert request_id \<lparr>dr_log_id = log_id, dr_seen_at_ms = now_ms\<rparr> (dc_records d),
                dc_order := dc_order d @ [(now_ms, request_id)]\<rparr>
      in dedup_cleanup now_ms d)"

section \<open>The interface of a store\<close>

text \<open>The methods of the trait \<open>KLogStateStore\<close> as functions on the state \<open>'s\<close> of the store.\<close>

record ('s, 'l, 'sm) klog_store_ops =
  so_append :: "u64 \<Rightarrow> klog_entry list \<Rightarrow> 's \<Rightarrow> 's \<times> unit kresult"
  so_query :: "klog_query \<Rightarrow> 's \<Rightarrow> klog_entry list kresult"
  so_put_meta :: "klog_meta_entry \<Rightarrow> 's \<Rightarrow> 's \<times> klog_meta_entry kresult"
  so_delete_meta :: "string \<Rightarrow> 's \<Rightarrow> 's \<times> klog_meta_entry option kresult"
  so_get_meta :: "string \<Rightarrow> 's \<Rightarrow> klog_meta_entry option kresult"
  so_list_meta :: "string option \<Rightarrow> nat \<Rightarrow> 's \<Rightarrow> klog_meta_entry list kresult"
  so_build_snapshot :: "'s \<Rightarrow> bytes kresult"
  so_install_snapshot :: "bytes \<Rightarrow> 's \<Rightarrow> 's \<times> unit kresult"
  so_load_next_log_id :: "'s \<Rightarrow> u64 option kresult"
  so_save_next_log_id :: "u64 \<Rightarrow> 's \<Rightarrow> 's \<times> unit kresult"
  so_load_state_machine_meta :: "'s \<Rightarrow> ('l, 'sm) state_machine_meta option kresult"
  so_save_state_machine_meta :: "('l, 'sm) state_machine_meta \<Rightarrow> 's \<Rightarrow> 's \<times> unit kresult"
  so_lookup_recent_request_id :: "string \<Rightarrow> u64 \<Rightarrow> 's \<Rightarrow> 's \<times> u64 option kresult"

section \<open>The store in memory\<close>

record ('l, 'sm) memory_state_store =
  ms_logs :: "klog_entry list"
  ms_metas :: "(string, klog_meta_entry) hmap"
  ms_next_log_id :: u64
  ms_state_machine_meta :: "('l, 'sm) state_machine_meta option"
  ms_request_dedup :: dedup_cache

definition new_memory_store :: "('l, 'sm) memory_state_store" where
  "new_memory_store = \<lparr>ms_logs = [], ms_metas = [], ms_next_log_id = 1, ms_state_machine_meta = None,
     ms_request_dedup = empty_dedup\<rparr>"

text \<open>The pairs of request identifier and log identifier of a batch, and the next log identifier
  after it (0 for an empty batch, \<open>saturating_add\<close> at the end of the range).\<close>

definition request_id_pairs :: "klog_entry list \<Rightarrow> (string \<times> u64) list" where
  "request_id_pairs entries =
     List.map_filter (\<lambda>e. map_option (\<lambda>r. (r, ke_id e)) (normalize_request_id (ke_request_id e))) entries"

definition next_after :: "u64 \<Rightarrow> klog_entry list \<Rightarrow> u64" where
  "next_after dflt entries =
     (case entries of [] \<Rightarrow> dflt | _ \<Rightarrow> Max (set (map (\<lambda>e. saturating_add (ke_id e) 1) entries)))"

definition remember_all :: "u64 \<Rightarrow> (string \<times> u64) list \<Rightarrow> dedup_cache \<Rightarrow> dedup_cache" where
  "remember_all now_ms pairs d = foldl (\<lambda>d (r, i). dedup_remember r i now_ms d) d pairs"

definition ms_append :: "u64 \<Rightarrow> klog_entry list \<Rightarrow> ('l, 'sm) memory_state_store
  \<Rightarrow> ('l, 'sm) memory_state_store \<times> unit kresult" where
  "ms_append now_ms entries s =
     (let candidate_next = next_after 0 entries;
          s = s\<lparr>ms_logs := ms_logs s @ entries\<rparr>;
          s = (if candidate_next > ms_next_log_id s then s\<lparr>ms_next_log_id := candidate_next\<rparr> else s)
      in (s\<lparr>ms_request_dedup := remember_all now_ms (request_id_pairs entries) (ms_request_dedup s)\<rparr>, Inr ()))"

definition entry_matches :: "klog_query \<Rightarrow> string option \<Rightarrow> string option \<Rightarrow> string option \<Rightarrow> klog_entry \<Rightarrow> bool" where
  "entry_matches q source_filter attr_key_filter attr_value_filter e \<longleftrightarrow>
     (case q_start_id q of None \<Rightarrow> True | Some start \<Rightarrow> ke_id e \<ge> start)
     \<and> (case q_end_id q of None \<Rightarrow> True | Some end_id \<Rightarrow> ke_id e \<le> end_id)
     \<and> (case q_level q of None \<Rightarrow> True | Some level \<Rightarrow> ke_level e = level)
     \<and> (case source_filter of None \<Rightarrow> True | Some source \<Rightarrow>
          (case trimmed_non_empty (ke_source e) of None \<Rightarrow> False | Some v \<Rightarrow> v = source))
     \<and> (case attr_key_filter of None \<Rightarrow> True | Some key \<Rightarrow>
          (case hm_get (ke_attrs e) key of
             None \<Rightarrow> False
           | Some v \<Rightarrow> (case attr_value_filter of None \<Rightarrow> True | Some expect \<Rightarrow> v = expect)))"

definition ms_query :: "klog_query \<Rightarrow> ('l, 'sm) memory_state_store \<Rightarrow> klog_entry list kresult" where
  "ms_query q s =
     (let source_filter = trimmed_non_empty (q_source q);
          attr_key_filter = trimmed_non_empty (q_attr_key q);
          attr_value_filter = trimmed_non_empty (q_attr_value q) in
      if attr_key_filter = None \<and> attr_value_filter \<noteq> None then Inr []
      else
        (let entries = filter (entry_matches q source_filter attr_key_filter attr_value_filter) (ms_logs s);
             entries = sort_key ke_id entries;
             entries = (if q_order q = Desc then rev entries else entries)
         in Inr (if length entries > q_limit q then take (q_limit q) entries else entries)))"

definition ms_put_meta :: "klog_meta_entry \<Rightarrow> ('l, 'sm) memory_state_store
  \<Rightarrow> ('l, 'sm) memory_state_store \<times> klog_meta_entry kresult" where
  "ms_put_meta item s =
     (let next_revision = (case hm_get (ms_metas s) (km_key item) of
              None \<Rightarrow> 1 | Some v \<Rightarrow> saturating_add (km_revision v) 1);
          stored = item\<lparr>km_revision := next_revision\<rparr>
      in (s\<lparr>ms_metas := hm_insert (km_key item) stored (ms_metas s)\<rparr>, Inr stored))"

definition ms_delete_meta :: "string \<Rightarrow> ('l, 'sm) memory_state_store
  \<Rightarrow> ('l, 'sm) memory_state_store \<times> klog_meta_entry option kresult" where
  "ms_delete_meta key s =
     (s\<lparr>ms_metas := hm_remove key (ms_metas s)\<rparr>, Inr (hm_get (ms_metas s) key))"

definition ms_get_meta :: "string \<Rightarrow> ('l, 'sm) memory_state_store \<Rightarrow> klog_meta_entry option kresult" where
  "ms_get_meta key s = Inr (hm_get (ms_metas s) key)"

text \<open>The loop of \<open>list_meta\<close> over the sorted keys.\<close>

fun list_meta_loop :: "(string, klog_meta_entry) hmap \<Rightarrow> string option \<Rightarrow> nat \<Rightarrow> klog_meta_entry list
  \<Rightarrow> string list \<Rightarrow> klog_meta_entry list" where
  "list_meta_loop metas pre limit out [] = out"
| "list_meta_loop metas pre limit out (key # keys) =
     (if (case pre of None \<Rightarrow> False | Some p \<Rightarrow> \<not> prefix p key) then list_meta_loop metas pre limit out keys
      else (case hm_get metas key of
              None \<Rightarrow> list_meta_loop metas pre limit out keys
            | Some item \<Rightarrow>
                (let out = out @ [item] in
                 if length out \<ge> limit then out else list_meta_loop metas pre limit out keys)))"

definition ms_list_meta :: "string option \<Rightarrow> nat \<Rightarrow> ('l, 'sm) memory_state_store \<Rightarrow> klog_meta_entry list kresult" where
  "ms_list_meta pre limit s =
     (if limit = 0 then Inr []
      else Inr (list_meta_loop (ms_metas s) (trimmed_non_empty pre) limit [] (sort (hm_keys (ms_metas s)))))"

text \<open>The encoding of snapshots (\<open>bincode\<close>) is a parameter.\<close>

record snapshot_codec =
  enc_snapshot :: "klog_state_snapshot_data \<Rightarrow> (string, bytes) result"
  dec_snapshot :: "bytes \<Rightarrow> (string, klog_state_snapshot_data) result"
  dec_entries :: "bytes \<Rightarrow> (string, klog_entry list) result"

definition ms_build_snapshot :: "snapshot_codec \<Rightarrow> ('l, 'sm) memory_state_store \<Rightarrow> bytes kresult" where
  "ms_build_snapshot codec s =
     map_err (\<lambda>e. InvalidFormat (''Failed to serialize logs for snapshot: '' @ e))
       (enc_snapshot codec \<lparr>sd_entries = ms_logs s, sd_meta_entries = sort_key km_key (hm_values (ms_metas s))\<rparr>)"

definition decode_snapshot_data :: "snapshot_codec \<Rightarrow> bytes \<Rightarrow> klog_state_snapshot_data kresult" where
  "decode_snapshot_data codec data =
     (case dec_snapshot codec data of
        Inr snapshot_data \<Rightarrow> Inr snapshot_data
      | Inl _ \<Rightarrow>
          rbind (map_err (\<lambda>e. InvalidFormat (''Failed to decode state snapshot: '' @ e)) (dec_entries codec data))
            (\<lambda>entries. Inr \<lparr>sd_entries = entries, sd_meta_entries = []\<rparr>))"

definition ms_install_snapshot :: "snapshot_codec \<Rightarrow> bytes \<Rightarrow> ('l, 'sm) memory_state_store
  \<Rightarrow> ('l, 'sm) memory_state_store \<times> unit kresult" where
  "ms_install_snapshot codec snapshot s =
     (case decode_snapshot_data codec snapshot of
        Inl e \<Rightarrow> (s, Inl e)
      | Inr d \<Rightarrow>
          (s\<lparr>ms_logs := sd_entries d,
             ms_metas := foldl (\<lambda>m item. hm_insert (km_key item) item m) [] (sd_meta_entries d),
             ms_next_log_id := next_after 1 (sd_entries d),
             ms_request_dedup := empty_dedup\<rparr>, Inr ()))"

definition ms_lookup_recent_request_id :: "string \<Rightarrow> u64 \<Rightarrow> ('l, 'sm) memory_state_store
  \<Rightarrow> ('l, 'sm) memory_state_store \<times> u64 option kresult" where
  "ms_lookup_recent_request_id request_id now_ms s =
     (case normalize_request_id (Some request_id) of
        None \<Rightarrow> (s, Inr None)
      | Some r \<Rightarrow>
          (case dedup_lookup r now_ms (ms_request_dedup s) of (d, found) \<Rightarrow>
           (s\<lparr>ms_request_dedup := d\<rparr>, Inr found)))"

definition memory_ops :: "snapshot_codec \<Rightarrow> (('l, 'sm) memory_state_store, 'l, 'sm) klog_store_ops" where
  "memory_ops codec = \<lparr>
     so_append = ms_append, so_query = ms_query, so_put_meta = ms_put_meta, so_delete_meta = ms_delete_meta,
     so_get_meta = ms_get_meta, so_list_meta = ms_list_meta,
     so_build_snapshot = ms_build_snapshot codec, so_install_snapshot = ms_install_snapshot codec,
     so_load_next_log_id = (\<lambda>s. Inr (Some (ms_next_log_id s))),
     so_save_next_log_id = (\<lambda>n s. (s\<lparr>ms_next_log_id := n\<rparr>, Inr ())),
     so_load_state_machine_meta = (\<lambda>s. Inr (ms_state_machine_meta s)),
     so_save_state_machine_meta = (\<lambda>m s. (s\<lparr>ms_state_machine_meta := Some m\<rparr>, Inr ())),
     so_lookup_recent_request_id = ms_lookup_recent_request_id\<rparr>"

end
