(* ===== verification/Klog_Machine.thy ===== *)
theory Klog_Machine
  imports Klog
begin

text \<open>
  The manager of the state store (\<open>KLogStateStoreManager\<close>) and the state machine
  (\<open>KLogStateMachine\<close>) of \<open>klog\<close>, over any store \<open>klog_store_ops\<close>. Files of snapshots
  (\<open>SnapshotManager\<close>) are read and written through the operating system: what reading or saving
  one returns is a parameter.
\<close>

section \<open>The manager\<close>

record 's manager =
  mg_state_store :: 's
  mg_next_log_id :: u64
  mg_request_dedup :: dedup_cache

definition new_manager :: "('s, 'l, 'sm) klog_store_ops \<Rightarrow> 's \<Rightarrow> 's manager kresult" where
  "new_manager ops s =
     rbind (so_load_next_log_id ops s) (\<lambda>loaded.
     Inr \<lparr>mg_state_store = s, mg_next_log_id = (case loaded of None \<Rightarrow> 1 | Some n \<Rightarrow> n),
          mg_request_dedup = empty_dedup\<rparr>)"

text \<open>A method of the store called by the manager.\<close>

definition on_store :: "('s \<Rightarrow> 's \<times> 'a kresult) \<Rightarrow> ('s manager, klog_error, 'a) state_result" where
  "on_store f m = (case f (mg_state_store m) of (s, r) \<Rightarrow> (m\<lparr>mg_state_store := s\<rparr>, r))"

text \<open>The loop of \<open>advance_next_log_id\<close> when nobody else changes the counter: the exchange succeeds
  the first time. \<open>advance_cas\<close> below is the loop with other threads.\<close>

definition advance_next_log_id :: "('s, 'l, 'sm) klog_store_ops \<Rightarrow> u64 \<Rightarrow> ('s manager, klog_error, unit) state_result" where
  "advance_next_log_id ops candidate_next m =
     (if candidate_next = 0 then (m, Inr ())
      else if candidate_next > mg_next_log_id m then
        on_store (so_save_next_log_id ops candidate_next) (m\<lparr>mg_next_log_id := candidate_next\<rparr>)
      else (m, Inr ()))"

text \<open>The same loop while other threads change the counter: \<open>actual n\<close> is what the counter holds
  when attempt \<open>n\<close> compares it. The result is the value the counter is left with and whether this
  thread wrote it.\<close>

partial_function (option) advance_cas :: "u64 \<Rightarrow> (nat \<Rightarrow> u64) \<Rightarrow> u64 \<Rightarrow> nat \<Rightarrow> (u64 \<times> bool) option" where
  "advance_cas candidate_next actual current n =
     (if candidate_next > current then
        (if actual n = current then Some (candidate_next, True)
         else advance_cas candidate_next actual (actual n) (Suc n))
      else Some (current, False))"

definition remember_request_ids :: "u64 \<Rightarrow> (string \<times> u64) list \<Rightarrow> 's manager \<Rightarrow> 's manager" where
  "remember_request_ids now_ms request_ids m =
     (if request_ids = [] then m
      else m\<lparr>mg_request_dedup := remember_all now_ms request_ids (mg_request_dedup m)\<rparr>)"

text \<open>The three readings of the clock during one append: by the search for the request, by the
  store, and when the request is remembered.\<close>

record append_times =
  at_find :: u64
  at_store :: u64
  at_remember :: u64

definition manager_append :: "('s, 'l, 'sm) klog_store_ops \<Rightarrow> append_times \<Rightarrow> klog_entry list
  \<Rightarrow> ('s manager, klog_error, unit) state_result" where
  "manager_append ops t entries =
     (let pairs = request_id_pairs entries;
          committed_next = next_after 0 entries in
      sr_bind (on_store (so_append ops (at_store t) entries)) (\<lambda>_.
      sr_bind (advance_next_log_id ops committed_next) (\<lambda>_ m.
      (remember_request_ids (at_remember t) pairs m, Inr ()))))"

text \<open>\<open>fetch_add\<close> wraps around.\<close>

definition alloc_log_id :: "'s manager \<Rightarrow> 's manager \<times> u64" where
  "alloc_log_id m = (m\<lparr>mg_next_log_id := mg_next_log_id m + 1\<rparr>, mg_next_log_id m)"

definition prepare_append_entry :: "klog_entry \<Rightarrow> 's manager \<Rightarrow> 's manager \<times> klog_entry" where
  "prepare_append_entry item m =
     (if ke_id item = 0 then (case alloc_log_id m of (m, i) \<Rightarrow> (m, item\<lparr>ke_id := i\<rparr>)) else (m, item))"

definition find_recent_request_id :: "('s, 'l, 'sm) klog_store_ops \<Rightarrow> u64 \<Rightarrow> string \<Rightarrow> 's manager
  \<Rightarrow> 's manager \<times> u64 option" where
  "find_recent_request_id ops now_ms request_id m =
     (case normalize_request_id (Some request_id) of
        None \<Rightarrow> (m, None)
      | Some r \<Rightarrow>
          (case dedup_lookup r now_ms (mg_request_dedup m) of
             (d, Some existing_id) \<Rightarrow> (m\<lparr>mg_request_dedup := d\<rparr>, Some existing_id)
           | (d, None) \<Rightarrow>
               (case on_store (so_lookup_recent_request_id ops r now_ms) (m\<lparr>mg_request_dedup := d\<rparr>) of
                  (m, Inr (Some existing_id)) \<Rightarrow>
                    (m\<lparr>mg_request_dedup := dedup_remember r existing_id now_ms (mg_request_dedup m)\<rparr>,
                     Some existing_id)
                | (m, Inr None) \<Rightarrow> (m, None)
                | (m, Inl _) \<Rightarrow> (m, None))))"

definition append_prepared_entry :: "('s, 'l, 'sm) klog_store_ops \<Rightarrow> append_times \<Rightarrow> klog_entry
  \<Rightarrow> ('s manager, klog_error, u64) state_result" where
  "append_prepared_entry ops t item m =
     (let append = (\<lambda>m. sr_bind (manager_append ops t [item]) (\<lambda>_. sr_return (ke_id item)) m) in
      case normalize_request_id (ke_request_id item) of
        None \<Rightarrow> append m
      | Some request_id \<Rightarrow>
          (case find_recent_request_id ops (at_find t) request_id m of
             (m, Some existing_id) \<Rightarrow> (m, Inr existing_id)
           | (m, None) \<Rightarrow> append m))"

definition put_meta_entry :: "('s, 'l, 'sm) klog_store_ops \<Rightarrow> klog_meta_entry
  \<Rightarrow> ('s manager, klog_error, klog_meta_entry) state_result" where
  "put_meta_entry ops item = on_store (so_put_meta ops item)"

definition put_meta_entry_with_expected_revision :: "('s, 'l, 'sm) klog_store_ops \<Rightarrow> klog_meta_entry
  \<Rightarrow> u64 option \<Rightarrow> ('s manager, klog_error, klog_meta_put_result) state_result" where
  "put_meta_entry_with_expected_revision ops item expected_revision =
     (let store = sr_bind (on_store (so_put_meta ops item)) (\<lambda>stored. sr_return (Stored stored)) in
      case expected_revision of
        None \<Rightarrow> store
      | Some expected \<Rightarrow> (\<lambda>m.
          sr_bind (sr_lift (so_get_meta ops (km_key item) (mg_state_store m))) (\<lambda>current.
            let current_revision = map_option km_revision current;
                matched = (if expected = 0 then current = None else current_revision = Some expected) in
            if \<not> matched then sr_return (VersionConflict expected current_revision) else store) m))"

definition delete_meta_key :: "('s, 'l, 'sm) klog_store_ops \<Rightarrow> string
  \<Rightarrow> ('s manager, klog_error, klog_meta_entry option) state_result" where
  "delete_meta_key ops key = on_store (so_delete_meta ops key)"

definition manager_install_snapshot :: "('s, 'l, 'sm) klog_store_ops \<Rightarrow> bytes
  \<Rightarrow> ('s manager, klog_error, unit) state_result" where
  "manager_install_snapshot ops snapshot =
     sr_bind (on_store (so_install_snapshot ops snapshot)) (\<lambda>_ m.
     case so_load_next_log_id ops (mg_state_store m) of
       Inl e \<Rightarrow> (m, Inl e)
     | Inr loaded \<Rightarrow>
         (m\<lparr>mg_next_log_id := (case loaded of None \<Rightarrow> 1 | Some n \<Rightarrow> n), mg_request_dedup := empty_dedup\<rparr>, Inr ()))"

section \<open>The state machine\<close>

type_synonym ('l, 'm) stored_membership = "'l option \<times> 'm"

datatype 'm entry_payload = Blank | Normal klog_request | Membership 'm

record ('l, 'm) raft_entry =
  re_log_id :: 'l
  re_payload :: "'m entry_payload"

datatype storage_error = StorageRead string | StorageWrite string | StorageWriteSnapshot string

record ('s, 'l, 'm) state_machine =
  sm_last_applied_log_id :: "'l option"
  sm_last_membership :: "('l, 'm) stored_membership"
  sm_state_store :: "'s manager"

type_synonym ('s, 'l, 'm) machine_ops = "('s, 'l, ('l, 'm) stored_membership) klog_store_ops"

definition display_error :: "klog_error \<Rightarrow> string" where
  "display_error e = (case e of InvalidFormat msg \<Rightarrow> ''Invalid format: '' @ msg)"

definition new_state_machine :: "('s, 'l, 'm) machine_ops \<Rightarrow> 'm \<Rightarrow> 's manager
  \<Rightarrow> (storage_error, ('s, 'l, 'm) state_machine) result" where
  "new_state_machine ops default_membership m =
     (case so_load_state_machine_meta ops (mg_state_store m) of
        Inl e \<Rightarrow> Inl (StorageRead (''Failed to load state machine metadata: '' @ display_error e))
      | Inr (Some meta) \<Rightarrow>
          Inr \<lparr>sm_last_applied_log_id = smm_last_applied_log_id meta,
               sm_last_membership = smm_last_membership meta, sm_state_store = m\<rparr>
      | Inr None \<Rightarrow>
          Inr \<lparr>sm_last_applied_log_id = None, sm_last_membership = (None, default_membership),
               sm_state_store = m\<rparr>)"

definition persist_state_machine_meta :: "('s, 'l, 'm) machine_ops \<Rightarrow> 'l option \<Rightarrow> ('l, 'm) stored_membership
  \<Rightarrow> (('s, 'l, 'm) state_machine, storage_error, unit) state_result" where
  "persist_state_machine_meta ops last_applied membership sm =
     (case on_store (so_save_state_machine_meta ops
             \<lparr>smm_last_applied_log_id = last_applied, smm_last_membership = membership\<rparr>) (sm_state_store sm) of
        (m, r) \<Rightarrow>
          (sm\<lparr>sm_state_store := m\<rparr>,
           map_err (\<lambda>e. StorageWrite (''Failed to persist state machine metadata: '' @ display_error e)) r))"

definition process_request :: "('s, 'l, 'sm) klog_store_ops \<Rightarrow> append_times \<Rightarrow> klog_request \<Rightarrow> 's manager
  \<Rightarrow> 's manager \<times> klog_response" where
  "process_request ops t req m =
     (case req of
        AppendLog item \<Rightarrow>
          (case append_prepared_entry ops t item m of
             (m, Inr i) \<Rightarrow> (m, AppendOk i)
           | (m, Inl err) \<Rightarrow> (m, RespErr (display_error err)))
      | PutMeta item expected \<Rightarrow>
          (case put_meta_entry_with_expected_revision ops item expected m of
             (m, Inr (Stored stored)) \<Rightarrow> (m, MetaPutOk (km_key item) (km_revision stored))
           | (m, Inr (VersionConflict expected current)) \<Rightarrow> (m, MetaPutConflict (km_key item) expected current)
           | (m, Inl err) \<Rightarrow> (m, RespErr (display_error err)))
      | DeleteMeta key \<Rightarrow>
          (case delete_meta_key ops key m of
             (m, Inr prev) \<Rightarrow> (m, MetaDeleteOk key (prev \<noteq> None) prev)
           | (m, Inl err) \<Rightarrow> (m, RespErr (display_error err))))"

text \<open>One turn of the loop of \<open>apply\<close>, the loop, and \<open>apply\<close>.\<close>

definition apply_entry :: "('s, 'l, 'm) machine_ops \<Rightarrow> append_times \<Rightarrow> ('l, 'm) raft_entry
  \<Rightarrow> ('s, 'l, 'm) state_machine \<Rightarrow> ('s, 'l, 'm) state_machine \<times> klog_response" where
  "apply_entry ops t entry sm =
     (let sm = sm\<lparr>sm_last_applied_log_id := Some (re_log_id entry)\<rparr> in
      case re_payload entry of
        Blank \<Rightarrow> (sm, RespEmpty)
      | Normal req \<Rightarrow>
          (case process_request ops t req (sm_state_store sm) of (m, resp) \<Rightarrow> (sm\<lparr>sm_state_store := m\<rparr>, resp))
      | Membership mem \<Rightarrow> (sm\<lparr>sm_last_membership := (Some (re_log_id entry), mem)\<rparr>, RespEmpty))"

fun apply_loop :: "('s, 'l, 'm) machine_ops \<Rightarrow> (append_times \<times> ('l, 'm) raft_entry) list
  \<Rightarrow> ('s, 'l, 'm) state_machine \<Rightarrow> ('s, 'l, 'm) state_machine \<times> klog_response list" where
  "apply_loop ops [] sm = (sm, [])"
| "apply_loop ops ((t, entry) # entries) sm =
     (case apply_entry ops t entry sm of (sm, resp) \<Rightarrow>
      case apply_loop ops entries sm of (sm, replies) \<Rightarrow> (sm, resp # replies))"

definition apply_entries :: "('s, 'l, 'm) machine_ops \<Rightarrow> (append_times \<times> ('l, 'm) raft_entry) list
  \<Rightarrow> (('s, 'l, 'm) state_machine, storage_error, klog_response list) state_result" where
  "apply_entries ops entries sm =
     (case apply_loop ops entries sm of (sm, replies) \<Rightarrow>
      sr_bind (persist_state_machine_meta ops (sm_last_applied_log_id sm) (sm_last_membership sm))
        (\<lambda>_. sr_return replies) sm)"

text \<open>Snapshots. The two reads of \<open>build_snapshot\<close>, of the metadata under the lock and of the store
  after the lock is released, are two definitions, because entries may be applied between them.\<close>

record ('l, 'm) snapshot_meta =
  sn_last_log_id :: "'l option"
  sn_last_membership :: "('l, 'm) stored_membership"
  sn_snapshot_id :: string

record ('l, 'm) snapshot_data =
  snd_meta :: "('l, 'm) snapshot_meta"
  snd_klog_data :: bytes

definition build_snapshot_meta :: "string \<Rightarrow> ('s, 'l, 'm) state_machine \<Rightarrow> ('l, 'm) snapshot_meta" where
  "build_snapshot_meta snapshot_id sm =
     \<lparr>sn_last_log_id = sm_last_applied_log_id sm, sn_last_membership = sm_last_membership sm,
      sn_snapshot_id = snapshot_id\<rparr>"

definition build_snapshot_data :: "('s, 'l, 'm) machine_ops \<Rightarrow> ('l, 'm) snapshot_meta
  \<Rightarrow> ('s, 'l, 'm) state_machine \<Rightarrow> (storage_error, ('l, 'm) snapshot_data) result" where
  "build_snapshot_data ops meta sm =
     rbind (map_err (\<lambda>e. StorageWriteSnapshot (display_error e))
              (so_build_snapshot ops (mg_state_store (sm_state_store sm))))
       (\<lambda>klog_data. Inr \<lparr>snd_meta = meta, snd_klog_data = klog_data\<rparr>)"

text \<open>\<open>received\<close> is what \<open>SnapshotManager::install_snapshot\<close> returns: the data of the file.\<close>

definition install_snapshot :: "('s, 'l, 'm) machine_ops \<Rightarrow> (storage_error, ('l, 'm) snapshot_data) result
  \<Rightarrow> (('s, 'l, 'm) state_machine, storage_error, unit) state_result" where
  "install_snapshot ops received =
     sr_bind (sr_lift received) (\<lambda>data.
     sr_bind (\<lambda>sm. case manager_install_snapshot ops (snd_klog_data data) (sm_state_store sm) of
         (m, r) \<Rightarrow>
           (sm\<lparr>sm_state_store := m\<rparr>,
            map_err (\<lambda>e. StorageWriteSnapshot (''Failed to install state store snapshot: '' @ display_error e)) r)) (\<lambda>_.
     sr_bind (persist_state_machine_meta ops (sn_last_log_id (snd_meta data)) (sn_last_membership (snd_meta data))) (\<lambda>_ sm.
     (sm\<lparr>sm_last_applied_log_id := sn_last_log_id (snd_meta data),
         sm_last_membership := sn_last_membership (snd_meta data)\<rparr>, Inr ()))))"

end
