(* ===== verification/Klog_Store.thy ===== *)
theory Klog_Store
  imports Klog_Machine
begin

text \<open>
  What a store of \<open>klog\<close> promises, as the locale \<open>klog_store\<close>, the specification of the replicated
  state machine over it, and the refinement: inside the window in which request identifiers are
  remembered, the manager and the state machine implement the specification, which reads no clock.
\<close>

section \<open>Trimming is idempotent\<close>

lemma trim_start_fixed: "trim_start ws s = s \<longleftrightarrow> find (\<lambda>w. w \<noteq> [] \<and> prefix w s) ws = None"
proof -
  have shorter: "length (trim_start ws s) \<le> length s" for s
    by (induction ws s rule: trim_start.induct)
      (subst trim_start.simps, fastforce split: option.splits)
  show ?thesis
  proof (cases "find (\<lambda>w. w \<noteq> [] \<and> prefix w s) ws")
    case (Some w)
    then have "0 < length w" "length w \<le> length s"
      by (auto simp: find_Some_iff dest: prefix_length_le)
    then have "length (trim_start ws (drop (length w) s)) < length s"
      using shorter [of "drop (length w) s"] by (simp del: length_greater_0_conv)
    then show ?thesis using Some by (subst trim_start.simps) auto
  qed (simp add: trim_start.simps [of ws s])
qed

lemma trim_start_idem: "trim_start ws (trim_start ws s) = trim_start ws s"
proof (induction ws s rule: trim_start.induct)
  case (1 ws s)
  show ?case
  proof (cases "find (\<lambda>w. w \<noteq> [] \<and> prefix w s) ws")
    case None
    then show ?thesis by (simp add: trim_start.simps [of ws s])
  next
    case (Some w)
    then show ?thesis using 1 by (simp add: trim_start.simps [of ws s])
  qed
qed

lemma trim_start_suffix: "suffix (trim_start ws s) s"
  by (induction ws s rule: trim_start.induct)
    (subst trim_start.simps, auto split: option.splits intro: suffix_order.trans suffix_drop)

lemma trim_idem: "trim (trim s) = trim s"
proof -
  define x where "x = trim_start white_space s"
  define y where "y = trim s"
  have y: "rev y = trim_start (map rev white_space) (rev x)"
    by (simp add: y_def x_def trim_def)
  have "prefix y x"
    using trim_start_suffix [of "map rev white_space" "rev x"] by (simp add: y [symmetric] suffix_to_prefix)
  moreover have "find (\<lambda>w. w \<noteq> [] \<and> prefix w x) white_space = None"
    using trim_start_idem by (simp add: x_def flip: trim_start_fixed)
  ultimately have "trim_start white_space y = y"
    by (auto simp: trim_start_fixed find_None_iff dest: prefix_order.trans)
  moreover have "trim_start (map rev white_space) (rev y) = rev y"
    by (simp add: y trim_start_idem)
  ultimately have "trim y = y" by (simp add: trim_def)
  then show ?thesis by (simp add: y_def)
qed

lemma normalize_request_id_idem:
  "normalize_request_id r = Some r' \<Longrightarrow> normalize_request_id (Some r') = Some r'"
  by (auto simp: normalize_request_id_def trimmed_non_empty_def Let_def trim_idem split: option.splits if_splits)

section \<open>The cache inside the window\<close>

definition in_window :: "u64 \<Rightarrow> u64 \<Rightarrow> bool" where
  "in_window t0 now_ms \<longleftrightarrow> t0 \<le> now_ms \<and> unat now_ms \<le> unat t0 + unat REQUEST_DEDUP_WINDOW_MS"

definition dedup_in :: "u64 \<Rightarrow> dedup_cache \<Rightarrow> bool" where
  "dedup_in t0 d \<longleftrightarrow> hm_wf (dc_records d) \<and> length (dc_records d) \<le> REQUEST_DEDUP_MAX_ITEMS
     \<and> (\<forall>(t, r) \<in> set (dc_order d). t0 \<le> t)"

definition dedup_ids :: "dedup_cache \<Rightarrow> string \<rightharpoonup> u64" where
  "dedup_ids d r = map_option dr_log_id (hm_get (dc_records d) r)"

lemma dedup_in_empty [simp]: "dedup_in t0 empty_dedup" "dedup_ids empty_dedup = Map.empty"
  by (auto simp: dedup_in_def empty_dedup_def hm_wf_def dedup_ids_def)

lemma card_hm:
  assumes "hm_wf m" shows "card {k. hm_get m k \<noteq> None} = length m" "finite {k. hm_get m k \<noteq> None}"
proof -
  have "{k. hm_get m k \<noteq> None} = set (map fst m)"
    by (auto simp: hm_get_None hm_keys_def)
  then show "card {k. hm_get m k \<noteq> None} = length m" "finite {k. hm_get m k \<noteq> None}"
    using assms by (simp_all add: hm_wf_def distinct_card [of "map fst m", simplified])
qed

lemma card_dedup_ids:
  assumes "dedup_in t0 d"
  shows "card (dom (dedup_ids d)) = length (dc_records d)" "finite (dom (dedup_ids d))"
proof -
  have "dom (dedup_ids d) = {k. hm_get (dc_records d) k \<noteq> None}" by (auto simp: dedup_ids_def)
  then show "card (dom (dedup_ids d)) = length (dc_records d)" "finite (dom (dedup_ids d))"
    using card_hm [of "dc_records d"] assms by (auto simp: dedup_in_def)
qed

lemma in_window_fresh:
  assumes "in_window t0 now_ms" and "t0 \<le> t"
  shows "\<not> saturating_sub now_ms t > REQUEST_DEDUP_WINDOW_MS"
  using assms unfolding in_window_def word_less_nat_alt word_le_nat_alt unat_saturating_sub by linarith

lemma cleanup_in_window:
  assumes "dedup_in t0 d" and "in_window t0 now_ms"
  shows "dedup_cleanup now_ms d = d"
proof (cases "dc_order d")
  case (Cons p ps)
  obtain t r where "p = (t, r)" by force
  then show ?thesis using Cons assms in_window_fresh [OF assms(2), of t]
    by (simp add: dedup_cleanup_def dedup_in_def)
qed (simp add: dedup_cleanup_def)

lemma lookup_in_window:
  assumes "dedup_in t0 d" and "in_window t0 now_ms"
  shows "dedup_lookup r now_ms d = (d, dedup_ids d r)"
  using assms by (simp add: dedup_lookup_def cleanup_in_window dedup_ids_def)

lemma length_hm_insert:
  assumes "hm_wf m"
  shows "length (hm_insert k v m) = (if hm_get m k = None then Suc (length m) else length m)"
proof -
  have "{k'. hm_get (hm_insert k v m) k' \<noteq> None} = insert k {k'. hm_get m k' \<noteq> None}"
    by (auto simp: hm_simps)
  then have "length (hm_insert k v m) = card (insert k {k'. hm_get m k' \<noteq> None})"
    using card_hm(1) [of "hm_insert k v m"] assms by (simp add: hm.wf_ins)
  then show ?thesis using card_hm [OF assms] by (simp add: card_insert_if)
qed

lemma remember_in_window:
  assumes d: "dedup_in t0 d" and w: "in_window t0 now_ms"
    and room: "length (dc_records d) < REQUEST_DEDUP_MAX_ITEMS"
  shows "dedup_in t0 (dedup_remember r i now_ms d) \<and> dedup_ids (dedup_remember r i now_ms d) = (dedup_ids d)(r \<mapsto> i)"
proof -
  define d' where "d' = d\<lparr>dc_records := hm_insert r \<lparr>dr_log_id = i, dr_seen_at_ms = now_ms\<rparr> (dc_records d),
                dc_order := dc_order d @ [(now_ms, r)]\<rparr>"
  have in': "dedup_in t0 d'"
    using d w room by (auto simp: d'_def dedup_in_def in_window_def length_hm_insert hm.wf_ins)
  have "dedup_remember r i now_ms d = dedup_cleanup now_ms d'"
    by (simp add: dedup_remember_def cleanup_in_window [OF d w] d'_def Let_def)
  then have "dedup_remember r i now_ms d = d'"
    using cleanup_in_window [OF in' w] by simp
  then show ?thesis using in' by (auto simp: d'_def dedup_ids_def hm_simps)
qed

end
