(* ===== verification/Klog_Refine.thy ===== *)
theory Klog_Refine
  imports Klog_Store
begin

text \<open>
  The specification of the replicated log (a list of entries, a map of metadata, a map from the
  request identifiers that were answered to the identifier of their entry), the locale
  \<open>klog_store\<close> of what a store promises, and the proof that the manager and the state machine
  implement the specification over every such store. The specification reads no clock, so two
  replicas that apply the same entries agree.
\<close>

section \<open>The specification\<close>

record ('l, 'sm) store_view =
  sv_logs :: "klog_entry list"
  sv_metas :: "string \<rightharpoonup> klog_meta_entry"
  sv_recent :: "string \<rightharpoonup> u64"
  sv_state_machine_meta :: "('l, 'sm) state_machine_meta option"

definition spec_remember :: "klog_entry \<Rightarrow> (string \<rightharpoonup> u64) \<Rightarrow> (string \<rightharpoonup> u64)" where
  "spec_remember e recent =
     (case normalize_request_id (ke_request_id e) of None \<Rightarrow> recent | Some r \<Rightarrow> recent(r \<mapsto> ke_id e))"

definition spec_append :: "klog_entry \<Rightarrow> ('l, 'sm) store_view \<Rightarrow> ('l, 'sm) store_view" where
  "spec_append e v = v\<lparr>sv_logs := sv_logs v @ [e], sv_recent := spec_remember e (sv_recent v)\<rparr>"

definition spec_stored :: "klog_meta_entry \<Rightarrow> ('l, 'sm) store_view \<Rightarrow> klog_meta_entry" where
  "spec_stored item v = item\<lparr>km_revision :=
     (case sv_metas v (km_key item) of None \<Rightarrow> 1 | Some old \<Rightarrow> saturating_add (km_revision old) 1)\<rparr>"

definition spec_put_meta :: "klog_meta_entry \<Rightarrow> ('l, 'sm) store_view \<Rightarrow> ('l, 'sm) store_view" where
  "spec_put_meta item v = v\<lparr>sv_metas := (sv_metas v)(km_key item \<mapsto> spec_stored item v)\<rparr>"

definition spec_expected :: "u64 option \<Rightarrow> klog_meta_entry option \<Rightarrow> bool" where
  "spec_expected expected current =
     (case expected of None \<Rightarrow> True
      | Some e \<Rightarrow> if e = 0 then current = None else map_option km_revision current = Some e)"

definition answered :: "klog_entry \<Rightarrow> ('l, 'sm) store_view \<Rightarrow> u64 option" where
  "answered e v = Option.bind (normalize_request_id (ke_request_id e)) (sv_recent v)"

fun spec_request :: "klog_request \<Rightarrow> ('l, 'sm) store_view \<Rightarrow> ('l, 'sm) store_view \<times> klog_response" where
  "spec_request (AppendLog e) v =
     (case answered e v of Some i \<Rightarrow> (v, AppendOk i) | None \<Rightarrow> (spec_append e v, AppendOk (ke_id e)))"
| "spec_request (PutMeta item expected) v =
     (if spec_expected expected (sv_metas v (km_key item))
      then (spec_put_meta item v, MetaPutOk (km_key item) (km_revision (spec_stored item v)))
      else (v, MetaPutConflict (km_key item) (the expected) (map_option km_revision (sv_metas v (km_key item)))))"
| "spec_request (DeleteMeta key) v =
     (v\<lparr>sv_metas := (sv_metas v)(key := None)\<rparr>, MetaDeleteOk key (sv_metas v key \<noteq> None) (sv_metas v key))"

record ('l, 'm) spec_machine =
  sp_last_applied :: "'l option"
  sp_membership :: "('l, 'm) stored_membership"
  sp_view :: "('l, ('l, 'm) stored_membership) store_view"

definition spec_apply_entry :: "('l, 'm) raft_entry \<Rightarrow> ('l, 'm) spec_machine \<Rightarrow> ('l, 'm) spec_machine \<times> klog_response" where
  "spec_apply_entry e S =
     (let S = S\<lparr>sp_last_applied := Some (re_log_id e)\<rparr> in
      case re_payload e of
        Blank \<Rightarrow> (S, RespEmpty)
      | Normal req \<Rightarrow> (case spec_request req (sp_view S) of (v, resp) \<Rightarrow> (S\<lparr>sp_view := v\<rparr>, resp))
      | Membership mem \<Rightarrow> (S\<lparr>sp_membership := (Some (re_log_id e), mem)\<rparr>, RespEmpty))"

fun spec_apply_loop :: "('l, 'm) raft_entry list \<Rightarrow> ('l, 'm) spec_machine \<Rightarrow> ('l, 'm) spec_machine \<times> klog_response list" where
  "spec_apply_loop [] S = (S, [])"
| "spec_apply_loop (e # es) S =
     (case spec_apply_entry e S of (S, resp) \<Rightarrow>
      case spec_apply_loop es S of (S, replies) \<Rightarrow> (S, resp # replies))"

definition spec_persist :: "('l, 'm) spec_machine \<Rightarrow> ('l, 'm) spec_machine" where
  "spec_persist S = S\<lparr>sp_view := (sp_view S)\<lparr>sv_state_machine_meta :=
     Some \<lparr>smm_last_applied_log_id = sp_last_applied S, smm_last_membership = sp_membership S\<rparr>\<rparr>\<rparr>"

definition spec_apply :: "('l, 'm) raft_entry list \<Rightarrow> ('l, 'm) spec_machine \<Rightarrow> ('l, 'm) spec_machine \<times> klog_response list" where
  "spec_apply es S = (case spec_apply_loop es S of (S, replies) \<Rightarrow> (spec_persist S, replies))"

text \<open>Room for the request identifiers of the entries still to come.\<close>

definition room_for :: "nat \<Rightarrow> ('l, 'sm) store_view \<Rightarrow> bool" where
  "room_for n v \<longleftrightarrow> finite (dom (sv_recent v)) \<and> card (dom (sv_recent v)) + n \<le> REQUEST_DEDUP_MAX_ITEMS"

lemma room_spec_remember:
  assumes "finite (dom recent)"
  shows "finite (dom (spec_remember e recent)) \<and> card (dom (spec_remember e recent)) \<le> Suc (card (dom recent))"
  using assms by (auto simp: spec_remember_def card_insert_if split: option.splits)

lemma room_spec_request:
  assumes "room_for (Suc n) v" shows "room_for n (fst (spec_request req v))"
  using assms room_spec_remember [of "sv_recent v"]
  by (cases req) (fastforce simp: room_for_def spec_append_def spec_put_meta_def split: option.splits)+

text \<open>All readings of the clock during an append fall into the window.\<close>

definition times_in :: "u64 \<Rightarrow> append_times \<Rightarrow> bool" where
  "times_in t0 t \<longleftrightarrow> in_window t0 (at_find t) \<and> in_window t0 (at_store t) \<and> in_window t0 (at_remember t)"

section \<open>What a store promises\<close>

locale klog_store =
  fixes ops :: "('s, 'l, 'sm) klog_store_ops"
    and inv :: "u64 \<Rightarrow> 's \<Rightarrow> bool"
    and view :: "'s \<Rightarrow> ('l, 'sm) store_view"
  assumes append_law: "\<lbrakk>inv t0 s; in_window t0 now_ms; room_for 1 (view s)\<rbrakk> \<Longrightarrow>
      \<exists>s'. so_append ops now_ms [e] s = (s', Inr ()) \<and> inv t0 s' \<and> view s' = spec_append e (view s)"
    and lookup_law: "\<lbrakk>inv t0 s; in_window t0 now_ms; normalize_request_id (Some r) = Some r\<rbrakk> \<Longrightarrow>
      \<exists>s'. so_lookup_recent_request_id ops r now_ms s = (s', Inr (sv_recent (view s) r)) \<and> inv t0 s' \<and> view s' = view s"
    and put_meta_law: "inv t0 s \<Longrightarrow>
      \<exists>s'. so_put_meta ops item s = (s', Inr (spec_stored item (view s))) \<and> inv t0 s' \<and> view s' = spec_put_meta item (view s)"
    and delete_meta_law: "inv t0 s \<Longrightarrow>
      \<exists>s'. so_delete_meta ops key s = (s', Inr (sv_metas (view s) key)) \<and> inv t0 s'
        \<and> view s' = (view s)\<lparr>sv_metas := (sv_metas (view s))(key := None)\<rparr>"
    and get_meta_law: "inv t0 s \<Longrightarrow> so_get_meta ops key s = Inr (sv_metas (view s) key)"
    and save_next_law: "inv t0 s \<Longrightarrow>
      \<exists>s'. so_save_next_log_id ops n s = (s', Inr ()) \<and> inv t0 s' \<and> view s' = view s"
    and save_meta_law: "inv t0 s \<Longrightarrow>
      \<exists>s'. so_save_state_machine_meta ops meta s = (s', Inr ()) \<and> inv t0 s'
        \<and> view s' = (view s)\<lparr>sv_state_machine_meta := Some meta\<rparr>"
begin

text \<open>The manager's own cache never contradicts the store's.\<close>

definition manager_rel :: "u64 \<Rightarrow> 's manager \<Rightarrow> ('l, 'sm) store_view \<Rightarrow> bool" where
  "manager_rel t0 m v \<longleftrightarrow> inv t0 (mg_state_store m) \<and> view (mg_state_store m) = v
     \<and> dedup_in t0 (mg_request_dedup m) \<and> dedup_ids (mg_request_dedup m) \<subseteq>\<^sub>m sv_recent v"

lemma advance_keeps:
  assumes "inv t0 (mg_state_store m)"
  shows "\<exists>m'. advance_next_log_id ops n m = (m', Inr ()) \<and> inv t0 (mg_state_store m')
    \<and> view (mg_state_store m') = view (mg_state_store m) \<and> mg_request_dedup m' = mg_request_dedup m"
  using assms save_next_law [of t0 "mg_state_store m" n]
  by (auto simp: advance_next_log_id_def on_store_def split: prod.splits)

lemma own_room:
  assumes m: "manager_rel t0 m v" and room: "room_for 1 v"
  shows "length (dc_records (mg_request_dedup m)) < REQUEST_DEDUP_MAX_ITEMS"
proof -
  have "card (dom (dedup_ids (mg_request_dedup m))) \<le> card (dom (sv_recent v))"
    using m room by (auto simp: manager_rel_def room_for_def intro!: card_mono dest: map_le_implies_dom_le)
  then show ?thesis using card_dedup_ids(1) m room by (fastforce simp: manager_rel_def room_for_def)
qed

lemma find_rel:
  assumes m: "manager_rel t0 m v" and w: "in_window t0 now_ms" and r: "normalize_request_id (Some r) = Some r"
    and room: "room_for 1 v"
  shows "\<exists>m'. find_recent_request_id ops now_ms r m = (m', sv_recent v r) \<and> manager_rel t0 m' v"
proof (cases "dedup_ids (mg_request_dedup m) r")
  case (Some i)
  then have "sv_recent v r = Some i" using m by (auto simp: manager_rel_def map_le_def dom_def)
  then show ?thesis using Some m r w
    by (auto simp: find_recent_request_id_def manager_rel_def lookup_in_window)
next
  case None
  obtain s' where s': "so_lookup_recent_request_id ops r now_ms (mg_state_store m) = (s', Inr (sv_recent v r))"
      "inv t0 s'" "view s' = v"
    using m w r lookup_law [of t0 "mg_state_store m" now_ms r] by (auto simp: manager_rel_def)
  have "dedup_in t0 (mg_request_dedup m)" using m by (simp add: manager_rel_def)
  then show ?thesis
    using None m r w s' remember_in_window [OF _ w own_room [OF m room], of r]
    by (auto simp: find_recent_request_id_def manager_rel_def lookup_in_window on_store_def map_le_def
        split: option.splits)
qed

lemma append_rel:
  assumes m: "manager_rel t0 m v" and w: "in_window t0 (at_store t)" "in_window t0 (at_remember t)"
    and room: "room_for 1 v"
  shows "\<exists>m'. manager_append ops t [e] m = (m', Inr ()) \<and> manager_rel t0 m' (spec_append e v)"
proof -
  obtain s' where s': "so_append ops (at_store t) [e] (mg_state_store m) = (s', Inr ())"
      "inv t0 s'" "view s' = spec_append e v"
    using m w room append_law [of t0 "mg_state_store m" "at_store t" e] by (auto simp: manager_rel_def)
  define m1 where "m1 = m\<lparr>mg_state_store := s'\<rparr>"
  obtain m2 where m2: "advance_next_log_id ops (next_after 0 [e]) m1 = (m2, Inr ())"
      "inv t0 (mg_state_store m2)" "view (mg_state_store m2) = spec_append e v"
      "mg_request_dedup m2 = mg_request_dedup m"
    using advance_keeps [of t0 m1 "next_after 0 [e]"] s'(2,3) by (auto simp: m1_def)
  show ?thesis
  proof (cases "normalize_request_id (ke_request_id e)")
    case None
    then show ?thesis using m m2 s'
      by (auto simp: manager_append_def sr_bind_def on_store_def m1_def request_id_pairs_def manager_rel_def
          List.map_filter_def remember_request_ids_def spec_append_def spec_remember_def)
  next
    case (Some r)
    define d where "d = dedup_remember r (ke_id e) (at_remember t) (mg_request_dedup m)"
    have d: "dedup_in t0 d \<and> dedup_ids d = (dedup_ids (mg_request_dedup m))(r \<mapsto> ke_id e)"
      using remember_in_window [OF _ w(2) own_room [OF m room], of r "ke_id e"] m by (simp add: d_def manager_rel_def)
    have "manager_append ops t [e] m = (m2\<lparr>mg_request_dedup := d\<rparr>, Inr ())"
      using m2 s' Some by (simp add: manager_append_def sr_bind_def on_store_def m1_def request_id_pairs_def
          List.map_filter_def remember_request_ids_def remember_all_def d_def)
    moreover have "manager_rel t0 (m2\<lparr>mg_request_dedup := d\<rparr>) (spec_append e v)"
      using m m2 d Some by (auto simp: manager_rel_def spec_append_def spec_remember_def map_le_def)
    ultimately show ?thesis by blast
  qed
qed

lemma append_prepared_rel:
  assumes m: "manager_rel t0 m v" and t: "times_in t0 t" and room: "room_for 1 v"
  shows "\<exists>m'. append_prepared_entry ops t e m =
      (m', Inr (case answered e v of Some i \<Rightarrow> i | None \<Rightarrow> ke_id e))
    \<and> manager_rel t0 m' (case answered e v of Some i \<Rightarrow> v | None \<Rightarrow> spec_append e v)"
proof -
  have append: "\<exists>m'. manager_append ops t [e] m = (m', Inr ()) \<and> manager_rel t0 m' (spec_append e v)"
    if "manager_rel t0 m v" for m
    using append_rel [OF that _ _ room] t by (simp add: times_in_def)
  show ?thesis
  proof (cases "normalize_request_id (ke_request_id e)")
    case None
    then show ?thesis using append [OF m] by (auto simp: append_prepared_entry_def answered_def sr_bind_def)
  next
    case (Some r)
    obtain m1 where m1: "find_recent_request_id ops (at_find t) r m = (m1, sv_recent v r)" "manager_rel t0 m1 v"
      using find_rel [OF m _ normalize_request_id_idem [OF Some] room] t by (auto simp: times_in_def)
    then show ?thesis using Some append [OF m1(2)]
      by (auto simp: append_prepared_entry_def answered_def sr_bind_def split: option.splits)
  qed
qed

lemma process_rel:
  assumes m: "manager_rel t0 m v" and t: "times_in t0 t" and room: "room_for 1 v"
  shows "\<exists>m'. process_request ops t req m = (m', snd (spec_request req v))
    \<and> manager_rel t0 m' (fst (spec_request req v))"
proof (cases req)
  case (AppendLog e)
  then show ?thesis using append_prepared_rel [OF m t room, of e]
    by (auto simp: process_request_def split: option.splits)
next
  case (PutMeta item expected)
  have inv: "inv t0 (mg_state_store m)" and v: "view (mg_state_store m) = v"
    using m by (auto simp: manager_rel_def)
  show ?thesis using PutMeta put_meta_law [OF inv, of item] get_meta_law [OF inv, of "km_key item"] v m
    by (auto simp: process_request_def put_meta_entry_with_expected_revision_def sr_bind_def on_store_def
        spec_expected_def manager_rel_def spec_put_meta_def Let_def split: option.splits)
next
  case (DeleteMeta key)
  have inv: "inv t0 (mg_state_store m)" using m by (auto simp: manager_rel_def)
  show ?thesis using DeleteMeta delete_meta_law [OF inv, of key] m
    by (auto simp: process_request_def delete_meta_key_def on_store_def manager_rel_def)
qed

end

section \<open>The state machine over a store\<close>

locale klog_replica = klog_store ops inv view
  for ops :: "('s, 'l, 'm) machine_ops"
    and inv :: "u64 \<Rightarrow> 's \<Rightarrow> bool"
    and view :: "'s \<Rightarrow> ('l, ('l, 'm) stored_membership) store_view"
begin

definition replica_rel :: "u64 \<Rightarrow> ('s, 'l, 'm) state_machine \<Rightarrow> ('l, 'm) spec_machine \<Rightarrow> bool" where
  "replica_rel t0 sm S \<longleftrightarrow> sm_last_applied_log_id sm = sp_last_applied S \<and> sm_last_membership sm = sp_membership S
     \<and> manager_rel t0 (sm_state_store sm) (sp_view S)"

lemma apply_entry_rel:
  assumes "replica_rel t0 sm S" and "times_in t0 t" and "room_for (Suc n) (sp_view S)"
  shows "\<exists>sm'. apply_entry ops t e sm = (sm', snd (spec_apply_entry e S))
    \<and> replica_rel t0 sm' (fst (spec_apply_entry e S)) \<and> room_for n (sp_view (fst (spec_apply_entry e S)))"
proof (cases "re_payload e")
  case (Normal req)
  have room: "room_for 1 (sp_view S)" "room_for n (fst (spec_request req (sp_view S)))"
    using assms(3) room_spec_request by (auto simp: room_for_def)
  then show ?thesis
    using process_rel [of t0 "sm_state_store sm" "sp_view S" t req] assms Normal
    by (auto simp: apply_entry_def spec_apply_entry_def replica_rel_def Let_def split: prod.splits)
qed (use assms in \<open>auto simp: apply_entry_def spec_apply_entry_def replica_rel_def room_for_def\<close>)

lemma apply_loop_rel:
  assumes "replica_rel t0 sm S" and "\<forall>(t, e) \<in> set es. times_in t0 t" and "room_for (length es + n) (sp_view S)"
  shows "\<exists>sm'. apply_loop ops es sm = (sm', snd (spec_apply_loop (map snd es) S))
    \<and> replica_rel t0 sm' (fst (spec_apply_loop (map snd es) S))
    \<and> room_for n (sp_view (fst (spec_apply_loop (map snd es) S)))"
  using assms
proof (induction es arbitrary: sm S)
  case (Cons p es)
  obtain t e where p: "p = (t, e)" by force
  obtain sm1 where "apply_entry ops t e sm = (sm1, snd (spec_apply_entry e S))"
      "replica_rel t0 sm1 (fst (spec_apply_entry e S))" "room_for (length es + n) (sp_view (fst (spec_apply_entry e S)))"
    using apply_entry_rel [of t0 sm S t "length es + n" e] Cons.prems p by auto
  then show ?case using Cons.IH [of sm1 "fst (spec_apply_entry e S)"] Cons.prems p
    by (auto split: prod.splits)
qed auto

lemma apply_rel:
  assumes "replica_rel t0 sm S" and "\<forall>(t, e) \<in> set es. times_in t0 t" and "room_for (length es + n) (sp_view S)"
  shows "\<exists>sm'. apply_entries ops es sm = (sm', Inr (snd (spec_apply (map snd es) S)))
    \<and> replica_rel t0 sm' (fst (spec_apply (map snd es) S))
    \<and> room_for n (sp_view (fst (spec_apply (map snd es) S)))"
proof -
  obtain sm1 S1 replies where S1: "spec_apply_loop (map snd es) S = (S1, replies)"
    and sm1: "apply_loop ops es sm = (sm1, replies)" "replica_rel t0 sm1 S1" "room_for n (sp_view S1)"
    using apply_loop_rel [OF assms] by (metis prod.collapse)
  show ?thesis
    using sm1 save_meta_law [of t0 "mg_state_store (sm_state_store sm1)"
        "\<lparr>smm_last_applied_log_id = sp_last_applied S1, smm_last_membership = sp_membership S1\<rparr>"]
    by (auto simp: apply_entries_def S1 spec_apply_def spec_persist_def persist_state_machine_meta_def sr_bind_def
        on_store_def replica_rel_def manager_rel_def room_for_def)
qed

end

end
