(* ===== verification/Klog_Memory.thy ===== *)
theory Klog_Memory
  imports Klog_Refine
begin

text \<open>
  The store in memory keeps the promises of \<open>klog_store\<close>; runs of a replica over it; its
  well-formedness and the freshness of the identifiers it hands out.
\<close>

section \<open>The store in memory as a store\<close>

definition ms_inv :: "u64 \<Rightarrow> ('l, 'sm) memory_state_store \<Rightarrow> bool" where
  "ms_inv t0 s \<longleftrightarrow> hm_wf (ms_metas s) \<and> dedup_in t0 (ms_request_dedup s)"

definition ms_view :: "('l, 'sm) memory_state_store \<Rightarrow> ('l, 'sm) store_view" where
  "ms_view s = \<lparr>sv_logs = ms_logs s, sv_metas = hm_get (ms_metas s), sv_recent = dedup_ids (ms_request_dedup s),
     sv_state_machine_meta = ms_state_machine_meta s\<rparr>"

lemma ms_room:
  assumes "ms_inv t0 s" and "room_for 1 (ms_view s)"
  shows "length (dc_records (ms_request_dedup s)) < REQUEST_DEDUP_MAX_ITEMS"
  using assms card_dedup_ids(1) [of t0 "ms_request_dedup s"] by (simp add: ms_inv_def ms_view_def room_for_def)

lemma ms_append_single:
  assumes inv: "ms_inv t0 s" and w: "in_window t0 now_ms" and room: "room_for 1 (ms_view s)"
  shows "\<exists>s'. ms_append now_ms [e] s = (s', Inr ()) \<and> ms_inv t0 s' \<and> ms_view s' = spec_append e (ms_view s)"
proof (cases "normalize_request_id (ke_request_id e)")
  case None
  then show ?thesis using inv
    by (auto simp: ms_append_def Let_def request_id_pairs_def List.map_filter_def remember_all_def ms_inv_def
        ms_view_def spec_append_def spec_remember_def)
next
  case (Some r)
  then show ?thesis
    using inv remember_in_window [OF _ w ms_room [OF inv room], of r "ke_id e"]
    by (auto simp: ms_append_def Let_def request_id_pairs_def List.map_filter_def remember_all_def ms_inv_def
        ms_view_def spec_append_def spec_remember_def)
qed

interpretation memory: klog_replica "memory_ops codec" ms_inv ms_view for codec
proof
  fix t0 now_ms :: u64 and s :: "('l, ('l, 'm) stored_membership) memory_state_store" and e
  assume "ms_inv t0 s" "in_window t0 now_ms" "room_for 1 (ms_view s)"
  then show "\<exists>s'. so_append (memory_ops codec) now_ms [e] s = (s', Inr ()) \<and> ms_inv t0 s' \<and> ms_view s' = spec_append e (ms_view s)"
    using ms_append_single by (simp add: memory_ops_def)
next
  fix t0 now_ms :: u64 and s :: "('l, ('l, 'm) stored_membership) memory_state_store" and r
  assume "ms_inv t0 s" "in_window t0 now_ms" "normalize_request_id (Some r) = Some r"
  then show "\<exists>s'. so_lookup_recent_request_id (memory_ops codec) r now_ms s = (s', Inr (sv_recent (ms_view s) r))
      \<and> ms_inv t0 s' \<and> ms_view s' = ms_view s"
    by (auto simp: memory_ops_def ms_lookup_recent_request_id_def ms_inv_def lookup_in_window ms_view_def)
qed (auto simp: memory_ops_def ms_inv_def ms_view_def ms_put_meta_def ms_delete_meta_def ms_get_meta_def spec_stored_def
    spec_put_meta_def hm_simps hm.wf_ins hm.wf_rem Let_def fun_eq_iff split: option.splits)

section \<open>Runs of a replica\<close>

text \<open>The batches a replica is given, one call of \<open>apply\<close> each; an error stops the replica.\<close>

fun apply_batches :: "('s, 'l, 'm) machine_ops \<Rightarrow> (append_times \<times> ('l, 'm) raft_entry) list list
  \<Rightarrow> (('s, 'l, 'm) state_machine, storage_error, klog_response list) state_result" where
  "apply_batches ops [] = sr_return []"
| "apply_batches ops (b # bs) =
     sr_bind (apply_entries ops b) (\<lambda>replies.
     sr_bind (apply_batches ops bs) (\<lambda>later. sr_return (replies @ later)))"

fun spec_apply_batches :: "('l, 'm) raft_entry list list \<Rightarrow> ('l, 'm) spec_machine \<Rightarrow> ('l, 'm) spec_machine \<times> klog_response list" where
  "spec_apply_batches [] S = (S, [])"
| "spec_apply_batches (b # bs) S =
     (case spec_apply b S of (S, replies) \<Rightarrow>
      case spec_apply_batches bs S of (S, later) \<Rightarrow> (S, replies @ later))"

lemma apply_batches_rel:
  assumes "memory.replica_rel t0 sm S" and "\<forall>(t, e) \<in> set (concat bs). times_in t0 t"
    and "room_for (length (concat bs)) (sp_view S)"
  shows "\<exists>sm'. apply_batches (memory_ops codec) bs sm = (sm', Inr (snd (spec_apply_batches (map (map snd) bs) S)))
    \<and> memory.replica_rel t0 sm' (fst (spec_apply_batches (map (map snd) bs) S))"
  using assms
proof (induction bs arbitrary: sm S)
  case (Cons b bs)
  obtain S1 replies where S1: "spec_apply (map snd b) S = (S1, replies)" by force
  obtain sm1 where sm1: "apply_entries (memory_ops codec) b sm = (sm1, Inr replies)" "memory.replica_rel t0 sm1 S1"
      "room_for (length (concat bs)) (sp_view S1)"
    using memory.apply_rel [of t0 sm S b "length (concat bs)" codec] Cons.prems S1 by auto
  obtain S2 later where S2: "spec_apply_batches (map (map snd) bs) S1 = (S2, later)" by force
  show ?case using Cons.IH [OF sm1(2) _ sm1(3)] Cons.prems sm1(1) S1 S2 by (auto simp: sr_bind_def)
qed simp

text \<open>How the entries are cut into batches only matters for when the metadata is persisted.\<close>

definition forget_persisted :: "('l, 'm) spec_machine \<Rightarrow> ('l, 'm) spec_machine" where
  "forget_persisted S = S\<lparr>sp_view := (sp_view S)\<lparr>sv_state_machine_meta := None\<rparr>\<rparr>"

lemma spec_request_forget:
  "spec_request req (v\<lparr>sv_state_machine_meta := x\<rparr>) =
     (case spec_request req v of (v', resp) \<Rightarrow> (v'\<lparr>sv_state_machine_meta := x\<rparr>, resp))"
  by (cases req) (auto simp: answered_def spec_append_def spec_put_meta_def spec_stored_def split: option.splits)

lemma spec_apply_entry_forget:
  "spec_apply_entry e (forget_persisted S) = (case spec_apply_entry e S of (S', resp) \<Rightarrow> (forget_persisted S', resp))"
  by (auto simp: spec_apply_entry_def forget_persisted_def spec_request_forget Let_def split: entry_payload.splits prod.splits)

lemma spec_apply_loop_forget:
  "spec_apply_loop es (forget_persisted S) = (case spec_apply_loop es S of (S', replies) \<Rightarrow> (forget_persisted S', replies))"
  by (induction es arbitrary: S) (auto simp: spec_apply_entry_forget split: prod.splits)

lemma spec_apply_loop_append:
  "spec_apply_loop (xs @ ys) S =
     (case spec_apply_loop xs S of (S1, r1) \<Rightarrow> case spec_apply_loop ys S1 of (S2, r2) \<Rightarrow> (S2, r1 @ r2))"
  by (induction xs arbitrary: S) (auto split: prod.splits)

lemma spec_batches_loop:
  "(case spec_apply_batches bs S of (S', replies) \<Rightarrow> (forget_persisted S', replies)) = spec_apply_loop (concat bs) (forget_persisted S)"
proof (induction bs arbitrary: S)
  case (Cons b bs)
  obtain S1 r1 where S1: "spec_apply_loop b S = (S1, r1)" by force
  obtain S2 r2 where S2: "spec_apply_batches bs (spec_persist S1) = (S2, r2)" by force
  have "forget_persisted (spec_persist S1) = forget_persisted S1" by (simp add: forget_persisted_def spec_persist_def)
  then show ?case using Cons.IH [of "spec_persist S1"] S1 S2
    by (simp add: spec_apply_def spec_apply_loop_append spec_apply_loop_forget split: prod.splits)
qed simp

text \<open>A replica that starts with nothing, and the specification's initial state.\<close>

definition start_replica :: "snapshot_codec \<Rightarrow> 'm
  \<Rightarrow> (storage_error, (('l, ('l, 'm) stored_membership) memory_state_store, 'l, 'm) state_machine) result" where
  "start_replica codec default_membership =
     rbind (map_err (\<lambda>e. StorageRead (display_error e)) (new_manager (memory_ops codec) new_memory_store))
       (new_state_machine (memory_ops codec) default_membership)"

definition spec_start :: "'m \<Rightarrow> ('l, 'm) spec_machine" where
  "spec_start default_membership = \<lparr>sp_last_applied = None, sp_membership = (None, default_membership),
     sp_view = \<lparr>sv_logs = [], sv_metas = Map.empty, sv_recent = Map.empty, sv_state_machine_meta = None\<rparr>\<rparr>"

lemma start_replica_eq:
  "start_replica codec dm = Inr \<lparr>sm_last_applied_log_id = None, sm_last_membership = (None, dm),
     sm_state_store = \<lparr>mg_state_store = new_memory_store, mg_next_log_id = 1, mg_request_dedup = empty_dedup\<rparr>\<rparr>"
  by (simp add: start_replica_def new_manager_def new_state_machine_def memory_ops_def new_memory_store_def)

lemma start_replica_rel:
  assumes "start_replica codec dm = Inr sm"
  shows "memory.replica_rel t0 sm (spec_start dm)"
  using assms by (auto simp: start_replica_eq memory.replica_rel_def spec_start_def memory.manager_rel_def ms_inv_def
      new_memory_store_def ms_view_def hm_wf_def fun_eq_iff)

lemma start_room [simp]: "room_for n (sp_view (spec_start dm)) \<longleftrightarrow> n \<le> REQUEST_DEDUP_MAX_ITEMS"
  by (simp add: room_for_def spec_start_def)

end
