(* ===== verification/Klog_Wf.thy ===== *)
theory Klog_Wf
  imports Klog_Memory
begin

text \<open>
  The well-formedness of a \<open>klog\<close> replica over the store in memory: what holds of the caches, of
  the metadata and of the counter of log identifiers in every state that a replica can reach.
\<close>

section \<open>The cache of request identifiers\<close>

definition dedup_covered :: "dedup_cache \<Rightarrow> bool" where
  "dedup_covered d \<longleftrightarrow> hm_wf (dc_records d)
     \<and> list_all (\<lambda>(r, v). (dr_seen_at_ms v, r) \<in> set (dc_order d)) (dc_records d)"

definition dedup_wf :: "dedup_cache \<Rightarrow> bool" where
  "dedup_wf d \<longleftrightarrow> dedup_covered d \<and> length (dc_records d) \<le> REQUEST_DEDUP_MAX_ITEMS"

lemma dedup_covered_alt:
  "dedup_covered d \<longleftrightarrow> hm_wf (dc_records d)
     \<and> (\<forall>r v. hm_get (dc_records d) r = Some v \<longrightarrow> (dr_seen_at_ms v, r) \<in> set (dc_order d))"
  by (auto simp: dedup_covered_def list_all_iff hm_get_in_set)

lemma cleanup_loop_wf:
  assumes "dedup_covered \<lparr>dc_records = records, dc_order = order\<rparr>"
  shows "dedup_wf (cleanup_loop now_ms records order)"
  using assms
proof (induction now_ms records order rule: cleanup_loop.induct)
  case (1 now_ms records)
  then have "records = []" by (cases records) (auto simp: dedup_covered_def)
  then show ?case by (simp add: dedup_wf_def dedup_covered_def hm_wf_def)
next
  case (2 now_ms records t r order)
  show ?case
  proof (cases "saturating_sub now_ms t > REQUEST_DEDUP_WINDOW_MS \<or> length records > REQUEST_DEDUP_MAX_ITEMS")
    case True
    define records' where "records' = (case hm_get records r of None \<Rightarrow> records
        | Some v \<Rightarrow> if dr_seen_at_ms v = t then hm_remove r records else records)"
    have wf: "hm_wf records" and cov: "(dr_seen_at_ms v, r') \<in> set ((t, r) # order)" if "hm_get records r' = Some v" for r' v
      using 2(2) that by (auto simp: dedup_covered_alt)
    have "hm_wf records'"
      using 2(2) by (auto simp: records'_def dedup_covered_alt hm.wf_rem split: option.splits)
    moreover have "(dr_seen_at_ms v, r') \<in> set order" if "hm_get records' r' = Some v" for r' v
    proof (cases "r' = r")
      case True
      then show ?thesis using that 2(2) by (auto simp: records'_def dedup_covered_alt hm_simps split: option.splits if_splits)
    next
      case False
      then have "hm_get records r' = Some v"
        using that 2(2) by (auto simp: records'_def dedup_covered_alt hm_simps split: option.splits if_splits)
      then show ?thesis using cov False by auto
    qed
    ultimately have "dedup_covered \<lparr>dc_records = records', dc_order = order\<rparr>"
      by (simp add: dedup_covered_alt)
    then show ?thesis using 2(1) True by (simp add: records'_def)
  next
    case False
    then show ?thesis using 2(2) by (simp add: dedup_wf_def)
  qed
qed

lemma dedup_cleanup_wf: "dedup_covered d \<Longrightarrow> dedup_wf (dedup_cleanup now_ms d)"
  unfolding dedup_cleanup_def by (rule cleanup_loop_wf) (simp add: dedup_covered_def)

lemma dedup_wf_empty [simp]: "dedup_wf empty_dedup"
  by (simp add: dedup_wf_def dedup_covered_def empty_dedup_def hm_wf_def)

lemma dedup_lookup_wf: "dedup_wf d \<Longrightarrow> dedup_lookup r now_ms d = (d', i) \<Longrightarrow> dedup_wf d'"
  using dedup_cleanup_wf [of d now_ms] by (auto simp: dedup_lookup_def dedup_wf_def Let_def)

lemma dedup_remember_wf:
  assumes "dedup_wf d" shows "dedup_wf (dedup_remember r i now_ms d)"
proof -
  have "dedup_covered (dedup_cleanup now_ms d)"
    using assms dedup_cleanup_wf by (auto simp: dedup_wf_def)
  then show ?thesis unfolding dedup_remember_def Let_def
    by (intro dedup_cleanup_wf) (auto simp: dedup_covered_alt hm_simps hm.wf_ins split: if_splits)
qed

lemma remember_all_wf: "dedup_wf d \<Longrightarrow> dedup_wf (remember_all now_ms pairs d)"
  unfolding remember_all_def by (induction pairs arbitrary: d) (auto simp: dedup_remember_wf)

section \<open>The store and the counter of identifiers\<close>

text \<open>Every identifier in the log is below the counter, the last one of the range apart: there the
  counter saturates.\<close>

definition ids_below :: "u64 \<Rightarrow> klog_entry list \<Rightarrow> bool" where
  "ids_below n logs \<longleftrightarrow> list_all (\<lambda>e. ke_id e < n \<or> ke_id e = - 1 \<and> n = - 1) logs"

definition ms_wf :: "('l, 'sm) memory_state_store \<Rightarrow> bool" where
  "ms_wf s \<longleftrightarrow> hm_wf (ms_metas s) \<and> list_all (\<lambda>(k, v). km_key v = k) (ms_metas s)
     \<and> dedup_wf (ms_request_dedup s) \<and> 0 < ms_next_log_id s \<and> ids_below (ms_next_log_id s) (ms_logs s)"

definition mg_wf :: "('l, 'sm) memory_state_store manager \<Rightarrow> bool" where
  "mg_wf m \<longleftrightarrow> ms_wf (mg_state_store m) \<and> dedup_wf (mg_request_dedup m)
     \<and> ms_next_log_id (mg_state_store m) \<le> mg_next_log_id m"

lemma unat_plus_one_less: "a \<noteq> - 1 \<Longrightarrow> unat a + 1 < 2 ^ 64" for a :: u64
proof -
  assume "a \<noteq> - 1"
  then have "unat a \<noteq> 2 ^ 64 - 1" by (auto dest: unat_eqD)
  then show ?thesis using unat_u64_less [of a] by linarith
qed

lemma saturating_add_one: "a < saturating_add a 1 \<or> a = - 1 \<and> saturating_add a 1 = - 1" for a :: u64
proof (cases "a = - 1")
  case False
  then show ?thesis using unat_plus_one_less [of a] by (simp add: saturating_add_def word_less_nat_alt unat_word_ariths)
qed (simp add: saturating_add_def unsigned_minus_1_eq_mask mask_eq_exp_minus_1)

lemma le_minus_one [simp]: "a \<le> - 1" for a :: u64
  by (rule word_n1_ge)

lemma next_after_bound:
  assumes "e \<in> set entries"
  shows "ke_id e < next_after d entries \<or> ke_id e = - 1 \<and> next_after d entries = - 1"
proof -
  have "next_after d entries = Max (set (map (\<lambda>e. saturating_add (ke_id e) 1) entries))"
    using assms by (cases entries) (auto simp: next_after_def)
  then have "saturating_add (ke_id e) 1 \<le> next_after d entries" using assms by simp
  then show ?thesis using saturating_add_one [of "ke_id e"] by (auto simp: antisym)
qed

lemma ids_below_mono: "ids_below n logs \<Longrightarrow> n \<le> n' \<Longrightarrow> ids_below n' logs"
  by (auto simp: ids_below_def list_all_iff antisym)

lemma ids_below_append:
  assumes "ids_below n logs" and "n \<le> n'" and "next_after 0 entries \<le> n'"
  shows "ids_below n' (logs @ entries)"
proof -
  have "ke_id e < n' \<or> ke_id e = - 1 \<and> n' = - 1" if "e \<in> set entries" for e
    using next_after_bound [OF that, of 0] assms(3) by (auto simp: antisym)
  then show ?thesis using ids_below_mono [OF assms(1,2)] by (auto simp: ids_below_def list_all_iff)
qed

lemma ms_append_wf:
  assumes "ms_wf s" and "ms_append now_ms entries s = (s', r)"
  shows "ms_wf s' \<and> ms_next_log_id s' = max (ms_next_log_id s) (next_after 0 entries)"
  using assms ids_below_append [of "ms_next_log_id s" "ms_logs s" "max (ms_next_log_id s) (next_after 0 entries)" entries]
  by (auto simp: ms_append_def ms_wf_def Let_def remember_all_wf max_def split: if_splits)

lemma values_keyed: "hm_wf m \<Longrightarrow> list_all (\<lambda>(k, v). P k v) m \<longleftrightarrow> (\<forall>k v. hm_get m k = Some v \<longrightarrow> P k v)"
  by (auto simp: list_all_iff hm_get_in_set)

lemma ms_meta_wf:
  assumes "ms_wf s"
  shows "ms_put_meta item s = (s', r) \<Longrightarrow> ms_wf s' \<and> ms_next_log_id s' = ms_next_log_id s"
    and "ms_delete_meta key s = (s', r') \<Longrightarrow> ms_wf s' \<and> ms_next_log_id s' = ms_next_log_id s"
  using assms
  by (auto simp: ms_wf_def ms_put_meta_def ms_delete_meta_def Let_def values_keyed hm.wf_ins hm.wf_rem hm_simps split: if_splits)

lemma insert_keyed:
  assumes "hm_wf m" and "list_all (\<lambda>(k, v). f v = k) m"
  shows "hm_wf (foldl (\<lambda>m item. hm_insert (f item) item m) m items)
    \<and> list_all (\<lambda>(k, v). f v = k) (foldl (\<lambda>m item. hm_insert (f item) item m) m items)"
  using assms
proof (induction items arbitrary: m)
  case (Cons item items)
  have "list_all (\<lambda>(k, v). f v = k) (hm_insert (f item) item m)"
    using Cons.prems by (auto simp: values_keyed hm.wf_ins hm_simps split: if_splits)
  then show ?case using Cons.IH [of "hm_insert (f item) item m"] Cons.prems by (simp add: hm.wf_ins)
qed simp

lemma ms_install_wf:
  assumes "ms_wf s" and "ms_install_snapshot codec data s = (s', r)"
  shows "ms_wf s'"
proof (cases "decode_snapshot_data codec data")
  case (Inr d)
  have ids: "ids_below (next_after 1 (sd_entries d)) (sd_entries d)"
    using next_after_bound by (auto simp: ids_below_def list_all_iff)
  have pos: "0 < next_after 1 (sd_entries d)"
  proof (cases "sd_entries d")
    case (Cons e es)
    then show ?thesis using next_after_bound [of e "sd_entries d" 1] by (auto simp: word_neq_0_conv [symmetric])
  qed (simp add: next_after_def)
  show ?thesis using assms Inr insert_keyed [of "[]" km_key "sd_meta_entries d"] ids pos
    by (auto simp: ms_install_snapshot_def ms_wf_def hm_wf_def)
qed (use assms in \<open>auto simp: ms_install_snapshot_def\<close>)

section \<open>The manager and the state machine\<close>

lemma advance_wf:
  assumes "ms_wf (mg_state_store m)" and "dedup_wf (mg_request_dedup m)"
    and "ms_next_log_id (mg_state_store m) \<le> max n (mg_next_log_id m)"
    and "advance_next_log_id (memory_ops codec) n m = (m', r)"
  shows "mg_wf m'"
  using assms ids_below_mono [of "ms_next_log_id (mg_state_store m)" "ms_logs (mg_state_store m)" n]
  by (auto simp: advance_next_log_id_def mg_wf_def ms_wf_def on_store_def memory_ops_def max_def split: if_splits)

lemma manager_append_wf:
  assumes m: "mg_wf m" and run: "manager_append (memory_ops codec) t entries m = (m', r)"
  shows "mg_wf m'"
proof -
  obtain s1 where s1: "ms_append (at_store t) entries (mg_state_store m) = (s1, Inr ())"
    by (simp add: ms_append_def Let_def)
  obtain m2 r2 where m2: "advance_next_log_id (memory_ops codec) (next_after 0 entries) (m\<lparr>mg_state_store := s1\<rparr>) = (m2, r2)"
    by force
  have "mg_wf m2"
    using advance_wf [OF _ _ _ m2] ms_append_wf [OF _ s1] m by (auto simp: mg_wf_def max_def split: if_splits)
  moreover have "m' = remember_request_ids (at_remember t) (request_id_pairs entries) m2 \<or> m' = m2"
    using run s1 m2 by (cases r2) (auto simp: manager_append_def sr_bind_def on_store_def memory_ops_def)
  ultimately show ?thesis by (auto simp: remember_request_ids_def mg_wf_def remember_all_wf)
qed

lemma find_recent_wf:
  assumes m: "mg_wf m" and run: "find_recent_request_id (memory_ops codec) now_ms r m = (m', i)"
  shows "mg_wf m'"
proof -
  have store: "ms_wf (s\<lparr>ms_request_dedup := d\<rparr>)" if "ms_wf s" "dedup_wf d" for s :: "('a, 'b) memory_state_store" and d
    using that by (simp add: ms_wf_def)
  have lookup: "dedup_wf d'" if "ms_wf s" "dedup_lookup r' now_ms (ms_request_dedup s) = (d', i')"
    for s :: "('a, 'b) memory_state_store" and d' r' i'
    using that dedup_lookup_wf by (auto simp: ms_wf_def)
  show ?thesis
    using run m
    by (auto simp: find_recent_request_id_def on_store_def memory_ops_def ms_lookup_recent_request_id_def mg_wf_def
        intro!: store dedup_remember_wf intro: lookup dedup_lookup_wf split: option.splits prod.splits sum.splits)
qed

lemma append_prepared_wf:
  assumes m: "mg_wf m" and run: "append_prepared_entry (memory_ops codec) t item m = (m', r)"
  shows "mg_wf m'"
  using assms
  by (auto simp: append_prepared_entry_def sr_bind_def intro: manager_append_wf find_recent_wf
      split: option.splits prod.splits sum.splits)

lemma put_meta_expected_wf:
  assumes "mg_wf m" and "put_meta_entry_with_expected_revision (memory_ops codec) item expected m = (m', r)"
  shows "mg_wf m'"
proof -
  obtain s' stored where s': "ms_put_meta item (mg_state_store m) = (s', Inr stored)"
    by (simp add: ms_put_meta_def Let_def)
  have "ms_wf s' \<and> ms_next_log_id s' = ms_next_log_id (mg_state_store m)"
    using ms_meta_wf(1) [OF _ s'] assms(1) by (simp add: mg_wf_def)
  moreover have "m' = m\<lparr>mg_state_store := s'\<rparr> \<or> m' = m"
    using assms(2) s'
    by (auto simp: put_meta_entry_with_expected_revision_def sr_bind_def on_store_def memory_ops_def ms_get_meta_def
        Let_def split: option.splits if_splits)
  ultimately show ?thesis using assms(1) by (auto simp: mg_wf_def)
qed

lemma process_request_wf:
  assumes "mg_wf m" and "process_request (memory_ops codec) t req m = (m', resp)"
  shows "mg_wf m'"
proof (cases req)
  case (AppendLog item)
  then show ?thesis using assms append_prepared_wf by (auto simp: process_request_def split: prod.splits sum.splits)
next
  case (PutMeta item expected)
  then show ?thesis using assms put_meta_expected_wf
    by (auto simp: process_request_def split: prod.splits sum.splits klog_meta_put_result.splits)
next
  case (DeleteMeta key)
  obtain s' r where s': "ms_delete_meta key (mg_state_store m) = (s', r)" by force
  have "ms_wf s' \<and> ms_next_log_id s' = ms_next_log_id (mg_state_store m)"
    using ms_meta_wf(2) [OF _ s'] assms(1) by (simp add: mg_wf_def)
  moreover have "m' = m\<lparr>mg_state_store := s'\<rparr>"
    using assms(2) DeleteMeta s'
    by (auto simp: process_request_def delete_meta_key_def on_store_def memory_ops_def split: sum.splits)
  ultimately show ?thesis using assms(1) by (simp add: mg_wf_def)
qed

lemma persist_wf:
  assumes "mg_wf (sm_state_store sm)" and "persist_state_machine_meta (memory_ops codec) l mem sm = (sm', r)"
  shows "mg_wf (sm_state_store sm')"
  using assms by (auto simp: persist_state_machine_meta_def on_store_def memory_ops_def mg_wf_def ms_wf_def)

lemma apply_loop_wf:
  assumes "mg_wf (sm_state_store sm)" and "apply_loop (memory_ops codec) es sm = (sm', replies)"
  shows "mg_wf (sm_state_store sm')"
  using assms
proof (induction es arbitrary: sm replies)
  case (Cons p es)
  obtain t e where p: "p = (t, e)" by force
  obtain sm1 resp where sm1: "apply_entry (memory_ops codec) t e sm = (sm1, resp)" by force
  have "mg_wf (sm_state_store sm1)"
    using sm1 Cons.prems(1) process_request_wf
    by (auto simp: apply_entry_def Let_def split: entry_payload.splits prod.splits)
  then show ?case using Cons.IH Cons.prems(2) p sm1 by (auto split: prod.splits)
qed simp

lemma apply_entries_wf:
  assumes "mg_wf (sm_state_store sm)" and "apply_entries (memory_ops codec) es sm = (sm', r)"
  shows "mg_wf (sm_state_store sm')"
proof -
  obtain sm1 replies where sm1: "apply_loop (memory_ops codec) es sm = (sm1, replies)" by force
  obtain sm2 r2 where sm2: "persist_state_machine_meta (memory_ops codec) (sm_last_applied_log_id sm1)
      (sm_last_membership sm1) sm1 = (sm2, r2)" by force
  have "sm' = sm2" using assms(2) sm1 sm2 by (auto simp: apply_entries_def sr_bind_def split: sum.splits)
  then show ?thesis using persist_wf [OF apply_loop_wf [OF assms(1) sm1] sm2] by simp
qed

lemma manager_install_wf:
  assumes "mg_wf m" and "manager_install_snapshot (memory_ops codec) data m = (m', r)"
  shows "mg_wf m'"
proof -
  obtain s1 r1 where s1: "ms_install_snapshot codec data (mg_state_store m) = (s1, r1)" by force
  have wf: "ms_wf s1" using ms_install_wf [OF _ s1] assms(1) by (simp add: mg_wf_def)
  have same: "s1 = mg_state_store m" if "r1 = Inl e" for e
    using s1 that by (auto simp: ms_install_snapshot_def split: sum.splits)
  show ?thesis using assms s1 wf same
    by (cases r1) (auto simp: manager_install_snapshot_def sr_bind_def on_store_def memory_ops_def mg_wf_def)
qed

lemma install_snapshot_wf:
  assumes "mg_wf (sm_state_store sm)" and "install_snapshot (memory_ops codec) received sm = (sm', r)"
  shows "mg_wf (sm_state_store sm')"
proof (cases received)
  case (Inr data)
  obtain m1 r1 where m1: "manager_install_snapshot (memory_ops codec) (snd_klog_data data) (sm_state_store sm) = (m1, r1)"
    by force
  define sm1 where "sm1 = sm\<lparr>sm_state_store := m1\<rparr>"
  obtain sm2 r2 where sm2: "persist_state_machine_meta (memory_ops codec) (sn_last_log_id (snd_meta data))
      (sn_last_membership (snd_meta data)) sm1 = (sm2, r2)" by force
  have m1_wf: "mg_wf (sm_state_store sm1)" using manager_install_wf [OF assms(1) m1] by (simp add: sm1_def)
  have "sm_state_store sm' = sm_state_store sm2 \<or> sm_state_store sm' = m1"
    using assms(2) m1 sm2 Inr
    by (cases r1; cases r2) (auto simp: install_snapshot_def sr_bind_def sm1_def)
  then show ?thesis using persist_wf [OF m1_wf sm2] m1_wf by (auto simp: sm1_def)
qed (use assms in \<open>auto simp: install_snapshot_def sr_bind_def\<close>)

section \<open>Reachable replicas\<close>

text \<open>What happens to a replica: it starts, applies entries, looks for a request, prepares an entry
  as the leader (while identifiers are left), installs a snapshot, and is rebuilt on its store.\<close>

inductive klog_reach :: "snapshot_codec \<Rightarrow> 'm
  \<Rightarrow> (('l, ('l, 'm) stored_membership) memory_state_store, 'l, 'm) state_machine \<Rightarrow> bool"
  for codec :: snapshot_codec and dm :: 'm where
  start: "start_replica codec dm = Inr sm \<Longrightarrow> klog_reach codec dm sm"
| applied: "\<lbrakk>klog_reach codec dm sm; apply_entries (memory_ops codec) es sm = (sm', r)\<rbrakk> \<Longrightarrow> klog_reach codec dm sm'"
| found: "\<lbrakk>klog_reach codec dm sm; find_recent_request_id (memory_ops codec) now_ms rid (sm_state_store sm) = (m, i)\<rbrakk>
    \<Longrightarrow> klog_reach codec dm (sm\<lparr>sm_state_store := m\<rparr>)"
| prepared: "\<lbrakk>klog_reach codec dm sm; mg_next_log_id (sm_state_store sm) \<noteq> - 1;
    prepare_append_entry item (sm_state_store sm) = (m, e)\<rbrakk> \<Longrightarrow> klog_reach codec dm (sm\<lparr>sm_state_store := m\<rparr>)"
| installed: "\<lbrakk>klog_reach codec dm sm; install_snapshot (memory_ops codec) received sm = (sm', r)\<rbrakk>
    \<Longrightarrow> klog_reach codec dm sm'"
| restarted: "\<lbrakk>klog_reach codec dm sm; new_manager (memory_ops codec) (mg_state_store (sm_state_store sm)) = Inr m;
    new_state_machine (memory_ops codec) dm m = Inr sm'\<rbrakk> \<Longrightarrow> klog_reach codec dm sm'"

lemma less_plus_one: "a \<noteq> - 1 \<Longrightarrow> a < a + 1" for a :: u64
  using unat_plus_one_less [of a] by (simp add: word_less_nat_alt unat_word_ariths)

lemma prepare_wf:
  assumes "mg_wf m" and "mg_next_log_id m \<noteq> - 1" and "prepare_append_entry item m = (m', e)"
  shows "mg_wf m'"
  using assms less_plus_one [of "mg_next_log_id m"]
  by (auto simp: prepare_append_entry_def alloc_log_id_def mg_wf_def split: if_splits)

lemma klog_reach_wf: "klog_reach codec dm sm \<Longrightarrow> mg_wf (sm_state_store sm)"
proof (induction rule: klog_reach.induct)
  case (start sm)
  then show ?case
    by (auto simp: start_replica_eq mg_wf_def ms_wf_def new_memory_store_def hm_wf_def ids_below_def)
next
  case (restarted sm m sm')
  then show ?case
    by (auto simp: new_manager_def new_state_machine_def memory_ops_def mg_wf_def split: option.splits)
qed (auto intro: apply_entries_wf find_recent_wf prepare_wf install_snapshot_wf)

end
