(* ===== verification/Klog_Snapshot.thy ===== *)
theory Klog_Snapshot
  imports Klog_Correct
begin

text \<open>
  Snapshots of \<open>klog\<close>, compare-and-set on metadata, the loop that advances the counter of log
  identifiers while other threads use it, and the executions in which replicas part.
\<close>

section \<open>Snapshots\<close>

lemma get_foldl_insert:
  "hm_get (foldl (\<lambda>m item. hm_insert (f item) item m) m xs) k
   = (case find (\<lambda>v. f v = k) (rev xs) of Some v \<Rightarrow> Some v | None \<Rightarrow> hm_get m k)"
  by (induction xs rule: rev_induct) (auto simp: hm_simps)

lemma get_rebuilt:
  assumes "hm_wf m" and "list_all (\<lambda>(k, v). f v = k) m" and "set xs = set (hm_values m)"
  shows "hm_get (foldl (\<lambda>m item. hm_insert (f item) item m) [] xs) = hm_get m"
proof
  fix k
  have elem: "v \<in> set xs \<and> f v = k \<longleftrightarrow> hm_get m k = Some v" for v
    using assms by (force simp: hm_values_def hm_get_in_set list_all_iff)
  show "hm_get (foldl (\<lambda>m item. hm_insert (f item) item m) [] xs) k = hm_get m k"
  proof (cases "find (\<lambda>v. f v = k) (rev xs)")
    case None
    have "hm_get m k = None"
    proof (cases "hm_get m k")
      case (Some v)
      then have "v \<in> set xs \<and> f v = k" using elem by blast
      then show ?thesis using None by (auto simp: find_None_iff)
    qed
    then show ?thesis using None by (simp add: get_foldl_insert)
  next
    case (Some v)
    then obtain i where "i < length (rev xs)" "f (rev xs ! i) = k" "v = rev xs ! i"
      unfolding find_Some_iff by blast
    then have "v \<in> set xs \<and> f v = k" using nth_mem [of i "rev xs"] by simp
    then show ?thesis using Some elem [of v] by (simp add: get_foldl_insert)
  qed
qed

text \<open>What the stores need of the encoding: a snapshot that was encoded decodes to itself.\<close>

definition codec_roundtrips :: "snapshot_codec \<Rightarrow> klog_state_snapshot_data \<Rightarrow> bool" where
  "codec_roundtrips codec d \<longleftrightarrow>
     (case enc_snapshot codec d of Inr b \<Rightarrow> dec_snapshot codec b = Inr d | Inl _ \<Rightarrow> False)"

definition snapshot_of :: "('l, 'sm) memory_state_store \<Rightarrow> klog_state_snapshot_data" where
  "snapshot_of s = \<lparr>sd_entries = ms_logs s, sd_meta_entries = sort_key km_key (hm_values (ms_metas s))\<rparr>"

lemma install_built:
  assumes "ms_wf s" and "codec_roundtrips codec (snapshot_of s)"
  shows "\<exists>b s2'. ms_build_snapshot codec s = Inr b \<and> ms_install_snapshot codec b s2 = (s2', Inr ())
    \<and> ms_logs s2' = ms_logs s \<and> hm_get (ms_metas s2') = hm_get (ms_metas s)
    \<and> ms_next_log_id s2' = next_after 1 (ms_logs s) \<and> ms_request_dedup s2' = empty_dedup"
proof -
  obtain b where b: "enc_snapshot codec (snapshot_of s) = Inr b" "dec_snapshot codec b = Inr (snapshot_of s)"
    using assms(2) by (auto simp: codec_roundtrips_def split: sum.splits)
  have "hm_get (foldl (\<lambda>m item. hm_insert (km_key item) item m) [] (sd_meta_entries (snapshot_of s))) = hm_get (ms_metas s)"
    using assms(1) by (intro get_rebuilt) (auto simp: ms_wf_def snapshot_of_def)
  moreover have "ms_build_snapshot codec s = Inr b" "decode_snapshot_data codec b = Inr (snapshot_of s)"
    using b by (simp_all add: ms_build_snapshot_def snapshot_of_def decode_snapshot_data_def)
  moreover have "sd_entries (snapshot_of s) = ms_logs s" by (simp add: snapshot_of_def)
  ultimately show ?thesis by (simp add: ms_install_snapshot_def)
qed

text \<open>A snapshot whose metadata was read in the state \<open>early\<close> and whose data was read in \<open>late\<close>,
  installed on \<open>dst\<close>.\<close>

lemma install_snapshot_built:
  assumes "mg_wf (sm_state_store late)"
    and "codec_roundtrips codec (snapshot_of (mg_state_store (sm_state_store late)))"
  shows "\<exists>data dst'. build_snapshot_data (memory_ops codec) (build_snapshot_meta sid early) late = Inr data
    \<and> install_snapshot (memory_ops codec) (Inr data) dst = (dst', Inr ())
    \<and> sm_last_applied_log_id dst' = sm_last_applied_log_id early \<and> sm_last_membership dst' = sm_last_membership early
    \<and> ms_logs (mg_state_store (sm_state_store dst')) = ms_logs (mg_state_store (sm_state_store late))
    \<and> hm_get (ms_metas (mg_state_store (sm_state_store dst'))) = hm_get (ms_metas (mg_state_store (sm_state_store late)))
    \<and> ms_state_machine_meta (mg_state_store (sm_state_store dst')) = Some \<lparr>
        smm_last_applied_log_id = sm_last_applied_log_id early, smm_last_membership = sm_last_membership early\<rparr>
    \<and> mg_next_log_id (sm_state_store dst') = next_after 1 (ms_logs (mg_state_store (sm_state_store late)))
    \<and> ms_request_dedup (mg_state_store (sm_state_store dst')) = empty_dedup
    \<and> mg_request_dedup (sm_state_store dst') = empty_dedup"
proof -
  obtain b s' where b: "ms_build_snapshot codec (mg_state_store (sm_state_store late)) = Inr b"
    and s': "ms_install_snapshot codec b (mg_state_store (sm_state_store dst)) = (s', Inr ())"
      "ms_logs s' = ms_logs (mg_state_store (sm_state_store late))"
      "hm_get (ms_metas s') = hm_get (ms_metas (mg_state_store (sm_state_store late)))"
      "ms_next_log_id s' = next_after 1 (ms_logs (mg_state_store (sm_state_store late)))" "ms_request_dedup s' = empty_dedup"
    using install_built [OF _ assms(2), of "mg_state_store (sm_state_store dst)"] assms(1) by (auto simp: mg_wf_def)
  show ?thesis
    by (simp add: build_snapshot_data_def memory_ops_def b s' install_snapshot_def sr_bind_def manager_install_snapshot_def
        on_store_def persist_state_machine_meta_def build_snapshot_meta_def)
qed

lemma demo_applied:
  assumes "ke_request_id item = None"
  shows "\<exists>sm. klog_reach codec () sm
    \<and> (\<exists>sm0. start_replica codec () = Inr sm0
      \<and> apply_entries (memory_ops codec) [(read_at 10, demo_entry 1 (AppendLog item))] sm0 = (sm, Inr [AppendOk (ke_id item)]))
    \<and> sm_last_applied_log_id sm = Some (1 :: nat) \<and> ms_logs (mg_state_store (sm_state_store sm)) = [item]
    \<and> ms_metas (mg_state_store (sm_state_store sm)) = []"
proof -
  obtain sm0 :: "((nat, (nat, unit) stored_membership) memory_state_store, nat, unit) state_machine"
    where sm0: "start_replica codec () = Inr sm0" by (simp add: start_replica_eq)
  obtain sm r where sm: "apply_entries (memory_ops codec) [(read_at 10, demo_entry 1 (AppendLog item))] sm0 = (sm, r)" by force
  have reach: "klog_reach codec () sm" by (rule klog_reach.applied [OF klog_reach.start [OF sm0] sm])
  have empty: "ms_logs (mg_state_store (sm_state_store sm0)) = []" "ms_metas (mg_state_store (sm_state_store sm0)) = []"
    using sm0 by (auto simp: start_replica_eq new_memory_store_def)
  have "r = Inr [AppendOk (ke_id item)] \<and> sm_last_applied_log_id sm = Some 1
      \<and> ms_logs (mg_state_store (sm_state_store sm)) = [item] \<and> ms_metas (mg_state_store (sm_state_store sm)) = []"
    using append_without_request_id [OF _ _ sm, of item] empty by (simp add: demo_entry_def assms demo_request_ids(2))
  then show ?thesis using sm0 sm reach by (intro exI conjI) auto
qed

text \<open>C37: a snapshot of a replica, built while nothing is applied and installed on any other replica,
  gives it the log, the metadata, the last applied entry and the membership of the first, also in
  the persisted metadata, and a counter above every identifier, unless it has saturated at the
  largest 64-bit number; the remembered request identifiers are gone.\<close>

theorem klog_snapshot_roundtrip:
  assumes "klog_reach codec dm src"
    and "codec_roundtrips codec (snapshot_of (mg_state_store (sm_state_store src)))"
  shows "\<exists>data dst'. build_snapshot_data (memory_ops codec) (build_snapshot_meta sid src) src = Inr data
    \<and> install_snapshot (memory_ops codec) (Inr data) dst = (dst', Inr ())
    \<and> sm_last_applied_log_id dst' = sm_last_applied_log_id src \<and> sm_last_membership dst' = sm_last_membership src
    \<and> ms_logs (mg_state_store (sm_state_store dst')) = ms_logs (mg_state_store (sm_state_store src))
    \<and> hm_get (ms_metas (mg_state_store (sm_state_store dst'))) = hm_get (ms_metas (mg_state_store (sm_state_store src)))
    \<and> ms_state_machine_meta (mg_state_store (sm_state_store dst')) = Some \<lparr>
        smm_last_applied_log_id = sm_last_applied_log_id src, smm_last_membership = sm_last_membership src\<rparr>
    \<and> ids_below (mg_next_log_id (sm_state_store dst')) (ms_logs (mg_state_store (sm_state_store src)))
    \<and> dc_records (mg_request_dedup (sm_state_store dst')) = []
    \<and> dc_records (ms_request_dedup (mg_state_store (sm_state_store dst'))) = []"
  using install_snapshot_built [OF klog_reach_wf [OF assms(1)] assms(2), of sid src dst] next_after_bound
  by (fastforce simp: ids_below_def list_all_iff empty_dedup_def)

theorem klog_snapshot_roundtrip_witness:
  "\<exists>src data dst'. klog_reach (demo_codec \<lparr>sd_entries = [demo_item None 4], sd_meta_entries = []\<rparr>) () src
    \<and> build_snapshot_data (memory_ops (demo_codec \<lparr>sd_entries = [demo_item None 4], sd_meta_entries = []\<rparr>))
        (build_snapshot_meta ''1_0_1'' src) src = Inr data
    \<and> install_snapshot (memory_ops (demo_codec \<lparr>sd_entries = [demo_item None 4], sd_meta_entries = []\<rparr>)) (Inr data) src = (dst', Inr ())
    \<and> sm_last_applied_log_id dst' = Some (1 :: nat)
    \<and> ms_logs (mg_state_store (sm_state_store dst')) = [demo_item None 4]"
proof -
  define codec where "codec = demo_codec \<lparr>sd_entries = [demo_item None 4], sd_meta_entries = []\<rparr>"
  have item: "ke_request_id (demo_item None 4) = None" by (simp add: demo_item_def)
  obtain src where src: "klog_reach codec () src" "sm_last_applied_log_id src = Some (1 :: nat)"
      "ms_logs (mg_state_store (sm_state_store src)) = [demo_item None 4]" "ms_metas (mg_state_store (sm_state_store src)) = []"
    using demo_applied [OF item, of codec] by blast
  have "codec_roundtrips codec (snapshot_of (mg_state_store (sm_state_store src)))"
    using src by (simp add: codec_def demo_codec_def codec_roundtrips_def snapshot_of_def hm_values_def)
  from klog_snapshot_roundtrip [OF src(1) this, of "''1_0_1''" src]
  obtain data dst' where "build_snapshot_data (memory_ops codec) (build_snapshot_meta ''1_0_1'' src) src = Inr data"
      "install_snapshot (memory_ops codec) (Inr data) src = (dst', Inr ())" "sm_last_applied_log_id dst' = Some 1"
      "ms_logs (mg_state_store (sm_state_store dst')) = [demo_item None 4]"
    unfolding src(2,3) by blast
  with src(1) show ?thesis unfolding codec_def by (intro exI conjI)
qed

text \<open>C38: the metadata and the data of a snapshot are read at different moments. When an entry is
  applied in between, the replica that installs the snapshot holds that entry but believes that it
  has not applied it; when consensus sends it the entry, the log contains it twice.\<close>

theorem klog_snapshot_race:
  assumes "klog_reach codec dm src"
    and "re_payload e = Normal (AppendLog item)" and "normalize_request_id (ke_request_id item) = None"
    and "apply_entries (memory_ops codec) [(t, e)] src = (src1, r1)"
    and "codec_roundtrips codec (snapshot_of (mg_state_store (sm_state_store src1)))"
    and "build_snapshot_data (memory_ops codec) (build_snapshot_meta sid src) src1 = Inr data"
    and "install_snapshot (memory_ops codec) (Inr data) dst = (dst1, r2)"
    and "apply_entries (memory_ops codec) [(t', e)] dst1 = (dst2, r3)"
  shows "sm_last_applied_log_id dst1 = sm_last_applied_log_id src
    \<and> sm_last_applied_log_id dst2 = sm_last_applied_log_id src1
    \<and> ms_logs (mg_state_store (sm_state_store src1)) = ms_logs (mg_state_store (sm_state_store src)) @ [item]
    \<and> ms_logs (mg_state_store (sm_state_store dst2)) = ms_logs (mg_state_store (sm_state_store src)) @ [item, item]"
proof -
  have wf: "mg_wf (sm_state_store src1)" by (rule apply_entries_wf [OF klog_reach_wf [OF assms(1)] assms(4)])
  obtain data' dst' where "build_snapshot_data (memory_ops codec) (build_snapshot_meta sid src) src1 = Inr data'"
      "install_snapshot (memory_ops codec) (Inr data') dst = (dst', Inr ())"
      "sm_last_applied_log_id dst' = sm_last_applied_log_id src"
      "ms_logs (mg_state_store (sm_state_store dst')) = ms_logs (mg_state_store (sm_state_store src1))"
    using install_snapshot_built [OF wf assms(5), of sid src dst] by blast
  then show ?thesis
    using append_without_request_id [OF assms(2,3,4)] append_without_request_id [OF assms(2,3,8)] assms(6,7) by simp
qed

theorem klog_snapshot_race_witness:
  "\<exists>src src1 data dst1 dst2 r1 r2 r3. start_replica (demo_codec \<lparr>sd_entries = [demo_item None 4], sd_meta_entries = []\<rparr>) () = Inr src
    \<and> apply_entries (memory_ops (demo_codec \<lparr>sd_entries = [demo_item None 4], sd_meta_entries = []\<rparr>))
        [(read_at 10, demo_entry 1 (AppendLog (demo_item None 4)))] src = (src1, r1)
    \<and> build_snapshot_data (memory_ops (demo_codec \<lparr>sd_entries = [demo_item None 4], sd_meta_entries = []\<rparr>))
        (build_snapshot_meta ''1_0_0'' src) src1 = Inr data
    \<and> install_snapshot (memory_ops (demo_codec \<lparr>sd_entries = [demo_item None 4], sd_meta_entries = []\<rparr>)) (Inr data) src = (dst1, r2)
    \<and> apply_entries (memory_ops (demo_codec \<lparr>sd_entries = [demo_item None 4], sd_meta_entries = []\<rparr>))
        [(read_at 20, demo_entry 1 (AppendLog (demo_item None 4)))] dst1 = (dst2, r3)
    \<and> ms_logs (mg_state_store (sm_state_store src1)) = [demo_item None 4]
    \<and> ms_logs (mg_state_store (sm_state_store dst2)) = [demo_item None 4, demo_item None 4]"
proof -
  define codec where "codec = demo_codec \<lparr>sd_entries = [demo_item None 4], sd_meta_entries = []\<rparr>"
  define e where "e = demo_entry 1 (AppendLog (demo_item None 4))"
  have item: "ke_request_id (demo_item None 4) = None" "ke_id (demo_item None 4) = 4" by (simp_all add: demo_item_def)
  obtain src src1 where src: "start_replica codec () = Inr src"
      "apply_entries (memory_ops codec) [(read_at 10, e)] src = (src1, Inr [AppendOk 4])" "klog_reach codec () src1"
      "ms_logs (mg_state_store (sm_state_store src1)) = [demo_item None 4]" "ms_metas (mg_state_store (sm_state_store src1)) = []"
    using demo_applied [OF item(1), of codec] unfolding item(2) e_def by blast
  have codec: "codec_roundtrips codec (snapshot_of (mg_state_store (sm_state_store src1)))"
    using src by (simp add: codec_def demo_codec_def codec_roundtrips_def snapshot_of_def hm_values_def)
  obtain data dst1 where data: "build_snapshot_data (memory_ops codec) (build_snapshot_meta ''1_0_0'' src) src1 = Inr data"
      "install_snapshot (memory_ops codec) (Inr data) src = (dst1, Inr ())"
    using install_snapshot_built [OF klog_reach_wf [OF src(3)] codec, of "''1_0_0''" src src] by blast
  obtain dst2 r3 where dst2: "apply_entries (memory_ops codec) [(read_at 20, e)] dst1 = (dst2, r3)" by force
  have "ms_logs (mg_state_store (sm_state_store src)) = []" using src(1) by (auto simp: start_replica_eq new_memory_store_def)
  with klog_snapshot_race [OF klog_reach.start [OF src(1)] _ _ src(2) codec data dst2, of "demo_item None 4"] demo_request_ids(2)
  have "ms_logs (mg_state_store (sm_state_store dst2)) = [demo_item None 4, demo_item None 4]"
    by (simp add: e_def demo_entry_def item)
  with src(1,2,4) data dst2 show ?thesis unfolding codec_def e_def by (intro exI conjI)
qed

section \<open>Compare-and-set on metadata\<close>

definition metas_of :: "('l, 'sm) memory_state_store manager \<Rightarrow> string \<rightharpoonup> klog_meta_entry" where
  "metas_of m = hm_get (ms_metas (mg_state_store m))"

lemma put_meta_metas:
  "put_meta_entry_with_expected_revision (memory_ops codec) item expected m = (m', r) \<Longrightarrow>
     (if spec_expected expected (metas_of m (km_key item))
      then metas_of m' = (metas_of m)(km_key item \<mapsto> spec_stored item (ms_view (mg_state_store m)))
        \<and> r = Inr (Stored (spec_stored item (ms_view (mg_state_store m))))
      else m' = m \<and> r = Inr (VersionConflict (the expected) (map_option km_revision (metas_of m (km_key item)))))"
  by (auto simp: put_meta_entry_with_expected_revision_def sr_bind_def on_store_def memory_ops_def ms_get_meta_def
      ms_put_meta_def metas_of_def spec_expected_def spec_stored_def ms_view_def hm_simps Let_def fun_eq_iff
      split: option.splits if_splits)

lemma append_prepared_metas:
  "append_prepared_entry (memory_ops codec) t item m = (m', r) \<Longrightarrow> metas_of m' = metas_of m"
  by (auto simp: append_prepared_entry_def find_recent_request_id_def sr_bind_def on_store_def memory_ops_def metas_of_def
      manager_append_def ms_append_def ms_lookup_recent_request_id_def advance_next_log_id_def remember_request_ids_def Let_def
      split: option.splits prod.splits sum.splits if_splits)

definition kept_or_newer :: "string \<Rightarrow> klog_meta_entry \<Rightarrow> ('l, 'sm) memory_state_store manager \<Rightarrow> bool" where
  "kept_or_newer k old m \<longleftrightarrow> metas_of m k = Some old
     \<or> (\<exists>v. metas_of m k = Some v \<and> km_revision old < km_revision v)"

lemma stored_newer:
  assumes "kept_or_newer k old m" and "km_revision old \<noteq> - 1"
  shows "km_revision old < km_revision (spec_stored (item\<lparr>km_key := k\<rparr>) (ms_view (mg_state_store m)))"
proof -
  obtain v where v: "metas_of m k = Some v" "km_revision old \<le> km_revision v"
    using assms(1) by (auto simp: kept_or_newer_def)
  have "km_revision old < saturating_add (km_revision v) 1"
    using saturating_add_one [of "km_revision v"] v(2) assms(2) by (auto simp: order_le_less)
  then show ?thesis using v(1) by (simp add: spec_stored_def ms_view_def metas_of_def)
qed

lemma process_kept_or_newer:
  assumes "kept_or_newer k old m" and "km_revision old \<noteq> - 1" and "req \<noteq> DeleteMeta k"
    and "process_request (memory_ops codec) t req m = (m', resp)"
  shows "kept_or_newer k old m'"
proof (cases req)
  case (AppendLog item)
  then show ?thesis using assms append_prepared_metas [of codec t item m]
    by (auto simp: process_request_def kept_or_newer_def split: prod.splits sum.splits)
next
  case (PutMeta item expected)
  obtain m1 r1 where m1: "put_meta_entry_with_expected_revision (memory_ops codec) item expected m = (m1, r1)" by force
  then have "m' = m1" using assms(4) PutMeta
    by (auto simp: process_request_def split: sum.splits klog_meta_put_result.splits)
  then show ?thesis using put_meta_metas [OF m1] assms(1) stored_newer [OF assms(1,2), of item]
    by (cases "km_key item = k") (auto simp: kept_or_newer_def split: if_splits)
next
  case (DeleteMeta key)
  then show ?thesis using assms
    by (auto simp: process_request_def delete_meta_key_def on_store_def memory_ops_def ms_delete_meta_def kept_or_newer_def
        metas_of_def hm_get_def hm_remove_def delete_conv')
qed

lemma apply_loop_kept_or_newer:
  assumes "kept_or_newer k old (sm_state_store sm)" and "km_revision old \<noteq> - 1"
    and "\<forall>(t, e) \<in> set es. re_payload e \<noteq> Normal (DeleteMeta k)"
    and "apply_loop (memory_ops codec) es sm = (sm', replies)"
  shows "kept_or_newer k old (sm_state_store sm')"
  using assms
proof (induction es arbitrary: sm replies)
  case (Cons p es)
  obtain t e where p: "p = (t, e)" by force
  obtain sm1 resp where sm1: "apply_entry (memory_ops codec) t e sm = (sm1, resp)" by force
  have "kept_or_newer k old (sm_state_store sm1)"
    using sm1 Cons.prems(1,2,3) p process_kept_or_newer [of k old "sm_state_store sm"]
    by (auto simp: apply_entry_def Let_def split: entry_payload.splits prod.splits)
  then show ?case using Cons.IH [of sm1] Cons.prems(2,3,4) p sm1 by (auto split: prod.splits)
qed simp

text \<open>C9: a writer that read a key at some revision and puts a new value with that revision as the
  expected one never overwrites a value it has not read. Whatever entries are applied in between,
  deletions of the key apart, the put succeeds exactly when the value is still the one that was
  read, and stores the next revision; otherwise it answers a conflict with the greater current
  revision and changes nothing.\<close>

theorem meta_cas_no_lost_update:
  assumes "metas_of (sm_state_store sm) k = Some old" and "km_revision old \<noteq> 0" and "km_revision old \<noteq> - 1"
    and "\<forall>(t, e) \<in> set es. re_payload e \<noteq> Normal (DeleteMeta k)"
    and "apply_loop (memory_ops codec) es sm = (sm', replies)"
    and "process_request (memory_ops codec) t (PutMeta item (Some (km_revision old))) (sm_state_store sm') = (m, resp)"
    and "km_key item = k"
  shows "if metas_of (sm_state_store sm') k = Some old
     then resp = MetaPutOk k (km_revision old + 1)
       \<and> metas_of m = (metas_of (sm_state_store sm'))(k \<mapsto> item\<lparr>km_revision := km_revision old + 1\<rparr>)
     else m = sm_state_store sm'
       \<and> (\<exists>current. resp = MetaPutConflict k (km_revision old) (Some current) \<and> km_revision old < current)"
proof -
  have kept: "kept_or_newer k old (sm_state_store sm')"
    using apply_loop_kept_or_newer [OF _ assms(3,4,5)] assms(1) by (simp add: kept_or_newer_def)
  obtain m1 r1 where m1: "put_meta_entry_with_expected_revision (memory_ops codec) item (Some (km_revision old))
      (sm_state_store sm') = (m1, r1)" by force
  have next_rev: "saturating_add (km_revision old) 1 = km_revision old + 1"
    using unat_plus_one_less [OF assms(3)] by (simp add: saturating_add_def)
  show ?thesis
    using kept put_meta_metas [OF m1] m1 assms(2,6,7) next_rev
    by (auto simp: process_request_def kept_or_newer_def spec_expected_def spec_stored_def metas_of_def ms_view_def split: if_splits)
qed

lemma demo_store_meta:
  "\<exists>sm0 sm1 replies. start_replica codec () = Inr (sm0 :: ((nat, (nat, unit) stored_membership) memory_state_store, nat, unit) state_machine)
    \<and> apply_loop (memory_ops codec) [(read_at 1, demo_entry 1 (PutMeta (demo_meta ''a'') None))] sm0 = (sm1, replies)
    \<and> metas_of (sm_state_store sm1) ''k'' = Some (demo_meta ''a''\<lparr>km_revision := 1\<rparr>)"
  by (simp add: start_replica_eq apply_entry_def demo_entry_def process_request_def put_meta_entry_with_expected_revision_def
      sr_bind_def on_store_def memory_ops_def ms_put_meta_def new_memory_store_def metas_of_def demo_meta_def hm_insert_def
      hm_get_def Let_def)

theorem meta_cas_no_lost_update_witness:
  "\<exists>sm0 sm1 sm2 replies replies' m current. start_replica (demo_codec demo_empty) () = Inr sm0
    \<and> apply_loop (memory_ops (demo_codec demo_empty)) [(read_at 1, demo_entry 1 (PutMeta (demo_meta ''a'') None))] sm0 = (sm1, replies)
    \<and> apply_loop (memory_ops (demo_codec demo_empty)) [(read_at 2, demo_entry 2 (PutMeta (demo_meta ''b'') None))] sm1 = (sm2, replies')
    \<and> process_request (memory_ops (demo_codec demo_empty)) (read_at 3) (PutMeta (demo_meta ''c'') (Some 1)) (sm_state_store sm2)
        = (m, MetaPutConflict ''k'' 1 (Some current)) \<and> 1 < current \<and> m = sm_state_store sm2"
proof -
  define codec where "codec = demo_codec demo_empty"
  define old where "old = demo_meta ''a''\<lparr>km_revision := 1\<rparr>"
  obtain sm0 sm1 :: "((nat, (nat, unit) stored_membership) memory_state_store, nat, unit) state_machine" and replies
    where sm1: "start_replica codec () = Inr sm0"
      "apply_loop (memory_ops codec) [(read_at 1, demo_entry 1 (PutMeta (demo_meta ''a'') None))] sm0 = (sm1, replies)"
      "metas_of (sm_state_store sm1) ''k'' = Some old"
    using demo_store_meta [of codec] unfolding old_def by blast
  obtain sm2 replies' where sm2: "apply_loop (memory_ops codec) [(read_at 2, demo_entry 2 (PutMeta (demo_meta ''b'') None))] sm1
      = (sm2, replies')" by force
  obtain m resp where m: "process_request (memory_ops codec) (read_at 3) (PutMeta (demo_meta ''c'') (Some (km_revision old)))
      (sm_state_store sm2) = (m, resp)" by force
  have "metas_of (sm_state_store sm2) ''k'' \<noteq> Some old"
    using sm2 by (auto simp: apply_entry_def demo_entry_def process_request_def put_meta_entry_with_expected_revision_def
        sr_bind_def on_store_def memory_ops_def ms_put_meta_def metas_of_def demo_meta_def old_def hm_simps Let_def)
  moreover have "km_revision old = 1" "km_key (demo_meta ''c'') = ''k''" by (simp_all add: old_def demo_meta_def)
  ultimately obtain current where "resp = MetaPutConflict ''k'' 1 (Some current)" "1 < current" "m = sm_state_store sm2"
    using meta_cas_no_lost_update [OF sm1(3) _ _ _ sm2 m] by (auto simp: demo_entry_def)
  with sm1(1,2) sm2 m show ?thesis unfolding codec_def old_def by (intro exI conjI) (simp_all add: demo_meta_def)
qed

section \<open>The counter of log identifiers\<close>

lemma advance_cas_ends:
  assumes "\<And>n. actual n \<le> actual (Suc n)" and "current \<le> actual n"
  shows "\<exists>v w. advance_cas candidate_next actual current n = Some (v, w) \<and> candidate_next \<le> v"
  using assms(2)
proof (induction "unat candidate_next - unat current" arbitrary: current n rule: less_induct)
  case less
  show ?case
  proof (cases "candidate_next > current \<and> actual n \<noteq> current")
    case True
    then have "current < actual n" using less.prems by auto
    then have "unat candidate_next - unat (actual n) < unat candidate_next - unat current"
      using True by (simp add: word_less_nat_alt) linarith
    then show ?thesis using less.hyps [of "actual n" "Suc n"] assms(1) True by (simp add: advance_cas.simps [of _ _ current])
  next
    case False
    then show ?thesis by (auto simp: advance_cas.simps [of _ _ current] not_less)
  qed
qed

text \<open>The compare-and-exchange loop that raises the counter of log identifiers ends, however
  often other threads get in between, as long as they only raise the counter; when it ends the
  counter is at least the candidate.\<close>

theorem advance_next_log_id_ends:
  assumes "\<And>n. actual n \<le> actual (Suc n)" and "current \<le> actual 0"
  shows "\<exists>v written. advance_cas candidate_next actual current 0 = Some (v, written) \<and> candidate_next \<le> v"
  using assms by (rule advance_cas_ends)

theorem advance_next_log_id_ends_witness:
  "\<exists>v written. advance_cas 7 (\<lambda>n. of_nat (min n 3)) 0 0 = Some (v, written) \<and> 7 \<le> v"
proof (rule advance_next_log_id_ends)
  show "(of_nat (min n 3) :: u64) \<le> of_nat (min (Suc n) 3)" for n
    by (simp add: word_le_nat_alt unat_of_nat_small min_def)
qed simp

section \<open>Executions in which replicas part\<close>

lemma remember_first:
  "dedup_remember r i t empty_dedup = \<lparr>dc_records = [(r, \<lparr>dr_log_id = i, dr_seen_at_ms = t\<rparr>)], dc_order = [(t, r)]\<rparr>"
  by (simp add: dedup_remember_def dedup_cleanup_def empty_dedup_def hm_insert_def saturating_sub_def Let_def
      REQUEST_DEDUP_MAX_ITEMS_def)

lemma lookup_expired:
  assumes "saturating_sub now_ms t > REQUEST_DEDUP_WINDOW_MS"
  shows "dedup_lookup r now_ms \<lparr>dc_records = [(r, \<lparr>dr_log_id = i, dr_seen_at_ms = t\<rparr>)], dc_order = [(t, r)]\<rparr>
    = (empty_dedup, None)"
  using assms by (simp add: dedup_lookup_def dedup_cleanup_def empty_dedup_def hm_get_def hm_remove_def Let_def)

lemma first_append:
  assumes "start_replica codec dm = Inr sm"
    and "re_payload e = Normal (AppendLog item)" and "normalize_request_id (ke_request_id item) = Some r"
  shows "\<exists>sm'. apply_entries (memory_ops codec) [(read_at t, e)] sm = (sm', Inr [AppendOk (ke_id item)])
    \<and> ms_logs (mg_state_store (sm_state_store sm')) = [item]
    \<and> mg_request_dedup (sm_state_store sm') = dedup_remember r (ke_id item) t empty_dedup
    \<and> ms_request_dedup (mg_state_store (sm_state_store sm')) = dedup_remember r (ke_id item) t empty_dedup"
proof -
  have none: "dedup_lookup x now_ms empty_dedup = (empty_dedup, None)" for x now_ms
    by (simp add: dedup_lookup_def dedup_cleanup_def empty_dedup_def)
  show ?thesis
    using assms normalize_request_id_idem [OF assms(3)]
    by (auto simp: start_replica_eq apply_entries_def apply_entry_def process_request_def append_prepared_entry_def
        find_recent_request_id_def none manager_append_def sr_bind_def on_store_def memory_ops_def ms_append_def Let_def
        ms_lookup_recent_request_id_def advance_next_log_id_def remember_request_ids_def persist_state_machine_meta_def
        request_id_pairs_def List.map_filter_def remember_all_def read_at_def new_memory_store_def split: if_splits)
qed

lemma expired_append:
  assumes "re_payload e = Normal (AppendLog item)" and "normalize_request_id (ke_request_id item) = Some r"
    and "mg_request_dedup (sm_state_store sm) = dedup_remember r i t empty_dedup"
    and "ms_request_dedup (mg_state_store (sm_state_store sm)) = dedup_remember r i t empty_dedup"
    and "saturating_sub now_ms t > REQUEST_DEDUP_WINDOW_MS"
  shows "\<exists>sm'. apply_entries (memory_ops codec) [(read_at now_ms, e)] sm = (sm', Inr [AppendOk (ke_id item)])
    \<and> ms_logs (mg_state_store (sm_state_store sm')) = ms_logs (mg_state_store (sm_state_store sm)) @ [item]"
  using assms normalize_request_id_idem [OF assms(2)]
  by (auto simp: apply_entries_def apply_entry_def process_request_def append_prepared_entry_def remember_first
      find_recent_request_id_def lookup_expired manager_append_def sr_bind_def on_store_def memory_ops_def ms_append_def Let_def
      ms_lookup_recent_request_id_def advance_next_log_id_def remember_request_ids_def persist_state_machine_meta_def
      read_at_def split: if_splits)

text \<open>C39: two replicas that apply the same two entries with one request identifier part when one of
  them reaches the second entry only after the window, because it was down or slow: the first
  replica drops the second entry and answers with the identifier of the first, the other appends
  it and answers with its own. Applying depends on the local clock.\<close>

theorem klog_replicas_diverge:
  assumes "start_replica codec dm = Inr sm"
    and "re_payload e1 = Normal (AppendLog item1)" and "normalize_request_id (ke_request_id item1) = Some r"
    and "re_payload e2 = Normal (AppendLog item2)" and "normalize_request_id (ke_request_id item2) = Some r"
    and "in_window t u" and "saturating_sub u' t' > REQUEST_DEDUP_WINDOW_MS"
  shows "\<exists>a b. apply_batches (memory_ops codec) [[(read_at t, e1)], [(read_at u, e2)]] sm
      = (a, Inr [AppendOk (ke_id item1), AppendOk (ke_id item1)])
    \<and> ms_logs (mg_state_store (sm_state_store a)) = [item1]
    \<and> apply_batches (memory_ops codec) [[(read_at t', e1)], [(read_at u', e2)]] sm
      = (b, Inr [AppendOk (ke_id item1), AppendOk (ke_id item2)])
    \<and> ms_logs (mg_state_store (sm_state_store b)) = [item1, item2]"
proof -
  obtain S replies where S: "spec_apply_batches [[e1], [e2]] (spec_start dm) = (S, replies)" by force
  then have S_eq: "sv_logs (sp_view S) = [item1]" "replies = [AppendOk (ke_id item1), AppendOk (ke_id item1)]"
    using assms(2-5) by (auto simp: spec_apply_def spec_apply_entry_def spec_start_def answered_def spec_append_def
        spec_remember_def spec_persist_def)
  have times: "\<forall>(x, e) \<in> set (concat [[(read_at t, e1)], [(read_at u, e2)]]). times_in t x"
    using assms(6) by (simp add: times_in_def read_at_def in_window_def)
  obtain a where a: "apply_batches (memory_ops codec) [[(read_at t, e1)], [(read_at u, e2)]] sm = (a, Inr replies)"
      "memory.replica_rel t a S"
    using apply_batches_rel [OF start_replica_rel [OF assms(1)] times] S by (auto simp: REQUEST_DEDUP_MAX_ITEMS_def)
  obtain b1 where b1: "apply_entries (memory_ops codec) [(read_at t', e1)] sm = (b1, Inr [AppendOk (ke_id item1)])"
      "ms_logs (mg_state_store (sm_state_store b1)) = [item1]"
      "mg_request_dedup (sm_state_store b1) = dedup_remember r (ke_id item1) t' empty_dedup"
      "ms_request_dedup (mg_state_store (sm_state_store b1)) = dedup_remember r (ke_id item1) t' empty_dedup"
    using first_append [OF assms(1-3)] by blast
  obtain b where "apply_entries (memory_ops codec) [(read_at u', e2)] b1 = (b, Inr [AppendOk (ke_id item2)])"
      "ms_logs (mg_state_store (sm_state_store b)) = [item1, item2]"
    using expired_append [OF assms(4,5) b1(3,4) assms(7)] b1(2) by auto
  then show ?thesis using a(1) replica_rel_views(3) [OF a(2)] S_eq b1(1) by (auto simp: sr_bind_def)
qed

theorem klog_replicas_diverge_witness:
  "\<exists>sm a b. start_replica (demo_codec demo_empty) () = Inr sm
    \<and> apply_batches (memory_ops (demo_codec demo_empty)) [[(read_at 10, demo_entry 1 (AppendLog (demo_item (Some ''r'') 1)))],
        [(read_at 20, demo_entry 2 (AppendLog (demo_item (Some ''r'') 2)))]] sm = (a, Inr [AppendOk 1, AppendOk 1])
    \<and> ms_logs (mg_state_store (sm_state_store a)) = [demo_item (Some ''r'') 1]
    \<and> apply_batches (memory_ops (demo_codec demo_empty)) [[(read_at 10, demo_entry 1 (AppendLog (demo_item (Some ''r'') 1)))],
        [(read_at 400000, demo_entry 2 (AppendLog (demo_item (Some ''r'') 2)))]] sm = (b, Inr [AppendOk 1, AppendOk 2])
    \<and> ms_logs (mg_state_store (sm_state_store b)) = [demo_item (Some ''r'') 1, demo_item (Some ''r'') 2]"
proof -
  have items: "ke_id (demo_item x i) = i" "ke_request_id (demo_item x i) = x" for x i by (simp_all add: demo_item_def)
  have window: "in_window 10 20" by (simp add: in_window_def window_length)
  have late: "saturating_sub 400000 10 > REQUEST_DEDUP_WINDOW_MS"
    by (simp add: word_less_nat_alt window_length unat_saturating_sub)
  show ?thesis
    using klog_replicas_diverge [OF start_replica_eq [of "demo_codec demo_empty" "()"], of
        "demo_entry 1 (AppendLog (demo_item (Some ''r'') 1))" "demo_item (Some ''r'') 1" "''r''"
        "demo_entry 2 (AppendLog (demo_item (Some ''r'') 2))" "demo_item (Some ''r'') 2", OF _ _ _ _ window late]
    by (simp add: start_replica_eq items demo_request_ids demo_entry_def)
qed

text \<open>C40: identifiers are counted by what a replica has applied. Two replicas with the same counter
  that lead one after the other, the second before it has applied what the first proposed, give
  one identifier to two different entries, and a replica that applies both keeps both under it.\<close>

theorem klog_identifier_reused:
  assumes "mg_next_log_id m1 = mg_next_log_id m2"
    and "ke_id item1 = 0" and "prepare_append_entry item1 m1 = (m1', p1)" and "normalize_request_id (ke_request_id item1) = None"
    and "ke_id item2 = 0" and "prepare_append_entry item2 m2 = (m2', p2)" and "normalize_request_id (ke_request_id item2) = None"
    and "re_payload e1 = Normal (AppendLog p1)" and "re_payload e2 = Normal (AppendLog p2)"
    and "apply_batches (memory_ops codec) [[(t, e1)], [(u, e2)]] sm = (sm', replies)"
  shows "ke_id p1 = ke_id p2 \<and> replies = Inr [AppendOk (ke_id p1), AppendOk (ke_id p1)]
    \<and> ms_logs (mg_state_store (sm_state_store sm')) = ms_logs (mg_state_store (sm_state_store sm)) @ [p1, p2]"
proof -
  have p: "ke_id p1 = mg_next_log_id m1" "ke_id p2 = mg_next_log_id m1" "ke_request_id p1 = ke_request_id item1"
      "ke_request_id p2 = ke_request_id item2"
    using assms(1-3,5,6) by (auto simp: prepare_append_entry_def alloc_log_id_def)
  obtain s1 r1 where s1: "apply_entries (memory_ops codec) [(t, e1)] sm = (s1, r1)" by force
  obtain s2 r2 where s2: "apply_entries (memory_ops codec) [(u, e2)] s1 = (s2, r2)" by force
  show ?thesis
    using append_without_request_id [OF assms(8) _ s1] append_without_request_id [OF assms(9) _ s2] assms(4,7,10) p s1 s2
    by (simp add: sr_bind_def)
qed

theorem klog_identifier_reused_witness:
  "\<exists>sm sm'. start_replica (demo_codec demo_empty) () = Inr sm
    \<and> prepare_append_entry (demo_item None 0) (sm_state_store sm)
      = ((sm_state_store sm)\<lparr>mg_next_log_id := 2\<rparr>, demo_item None 1)
    \<and> apply_batches (memory_ops (demo_codec demo_empty)) [[(read_at 10, demo_entry 1 (AppendLog (demo_item None 1)))],
        [(read_at 20, demo_entry 2 (AppendLog (demo_item None 1)))]] sm = (sm', Inr [AppendOk 1, AppendOk 1])
    \<and> map ke_id (ms_logs (mg_state_store (sm_state_store sm'))) = [1, 1]"
proof -
  define codec where "codec = demo_codec demo_empty"
  obtain sm :: "((nat, (nat, unit) stored_membership) memory_state_store, nat, unit) state_machine"
    where sm: "start_replica codec () = Inr sm" by (simp add: start_replica_eq)
  have items: "ke_id (demo_item x i) = i" "ke_request_id (demo_item x i) = x" for x i by (simp_all add: demo_item_def)
  have prep: "prepare_append_entry (demo_item None 0) (sm_state_store sm)
      = ((sm_state_store sm)\<lparr>mg_next_log_id := 2\<rparr>, demo_item None 1)"
    using sm by (auto simp: start_replica_eq prepare_append_entry_def alloc_log_id_def demo_item_def)
  obtain sm' replies where run: "apply_batches (memory_ops codec) [[(read_at 10, demo_entry 1 (AppendLog (demo_item None 1)))],
        [(read_at 20, demo_entry 2 (AppendLog (demo_item None 1)))]] sm = (sm', replies)" by force
  have "replies = Inr [AppendOk 1, AppendOk 1]" "ms_logs (mg_state_store (sm_state_store sm')) = [demo_item None 1, demo_item None 1]"
    using klog_identifier_reused [OF refl items(1) prep _ items(1) prep _ _ _ run] sm
    by (auto simp: items demo_request_ids demo_entry_def start_replica_eq new_memory_store_def)
  then show ?thesis using sm prep run unfolding codec_def by (intro exI conjI) (auto simp: items)
qed

end
