(* ===== verification/Spec2Isabelle.thy ===== *)
theory Spec2Isabelle
  imports Event_Pattern Event_Ring_Correct Event_Ring_Seqlock Event_Service_Correct Event_Client_Correct
    Scheduler_Correct Msg_Queue_Correct Msg_Queue_Rpc Klog_Snapshot
begin

text \<open>
  A verification library for five parts of the BuckyOS kernel services: the event bus
  (\<open>kevent\<close>), the service scheduler, the message queue (\<open>kmsg\<close>), the replicated log (\<open>klog\<close>) and
  what they share. Paths below are relative to \<^verbatim>\<open>src/src/kernel/\<close>.

  \<^bold>\<open>The program and how its parts interact.\<close> Processes on one host exchange events through rings in a
  shared memory file; processes without shared memory, and other hosts, go through a daemon that
  keeps one bounded queue per reader, and clients reach the daemon through a bridge over TCP. The
  scheduler reads the state of nodes and services and decides which instances run where. The
  message queue keeps named queues and subscriptions in an embedded database and is called in its
  own process or through RPC. The replicated log applies the entries that consensus has ordered to
  a store of log entries and metadata. The library follows this structure; what one component
  relies on in another is a locale, interpreted on the definitions of the provider.

  \<^bold>\<open>Shared.\<close> \<open>Prelude\<close>: machine integers as words with \<open>saturating_sub\<close>, \<open>saturating_add\<close> and
  \<open>checked_add\<close>; \<open>Result\<close> as a sum with \<open>rbind\<close>; methods that change a state and may fail
  (\<open>state_result\<close>); strings as lists of UTF-8 bytes; \<open>trim\<close>, \<open>split\<close>, decimal numbers; hash maps as
  association lists behind the locale \<open>hash_map\<close>.

  \<^bold>\<open>Event bus.\<close>
  \<^item> \<open>Event_Pattern\<close> (\<^verbatim>\<open>buckyos-api/src/kevent_client.rs\<close>): identifiers and patterns. The recursive
    matchers are equal to the language of a pattern, containment is sound, normalisation keeps the
    language, validation accepts exactly the grammar.
  \<^item> \<open>Event_Ring\<close> (\<^verbatim>\<open>kevent_ringbuffer.rs\<close>): the region, its directory and its rings, with every
    operation of \<open>SharedKEventRingBuffer\<close>. \<open>Event_Ring_Log\<close> reads a ring as a log (locale
    \<open>lossy_log\<close>), \<open>Event_Ring_Region\<close> keeps the region well-formed, \<open>Event_Ring_Correct\<close> proves that
    draining returns what is pending, once and in order, and that two processes that reclaim a ring,
    one memory access at a time (\<open>race\<close>), can both end up with it. \<open>Event_Ring_Seqlock\<close> splits writer and
    reader into single memory accesses and proves that no interleaving returns a torn payload.
  \<^item> \<open>Event_Reader\<close>, \<open>Event_Service\<close>, \<open>Event_Service_Correct\<close> (\<^verbatim>\<open>kevent/src/service.rs\<close> and
    \<^verbatim>\<open>native_server.rs\<close>): the queues (locale \<open>bounded_queue\<close>), requests and connections of the daemon. A
    connection reads and writes a \<open>socket\<close>, which says what arrives, with which error reading ends and
    which frames can be sent. The lemmas show the invariant of the daemon, the readers, ring and
    peers that an event reaches from each entry, and what is left of a closed connection.
  \<^item> \<open>Event_Bridge\<close>, \<open>Event_Bridge_Correct\<close> (\<^verbatim>\<open>kevent_bridge.rs\<close>): frames, the publisher with its backoff
    gate, the gauges of the readers and the reader loop; an event is sent at most once per publish,
    and every failure of the channel, in connecting or in the request, closes the gate.
  \<^item> \<open>Event_Client\<close>, \<open>Event_Client_Correct\<close> (\<^verbatim>\<open>kevent_client.rs\<close>): readers, publishing and importing; an
    event published over shared memory reaches every matching reader of every process exactly once.

  \<^bold>\<open>Scheduler.\<close> \<open>Scheduler\<close> (\<^verbatim>\<open>scheduler/src/scheduler.rs\<close>) holds the data and one round;
  \<open>Scheduler_Lemmas\<close> the accounting of a resource (locale \<open>resource_ledger\<close>, interpreted for CPU,
  memory and GPU); \<open>Scheduler_Steps\<close> the loops; \<open>Scheduler_Correct\<close> that a round never gives away more
  than a node has, where services are placed, their life cycle, and when a round fails. The placement
  is stated with \<open>suitable\<close> and \<open>open_nodes\<close>, which say on their own terms what the filter of the code
  must let through, and the life cycle with \<open>announced\<close>, the instances that the actions create.
  Floating point numbers of the source are rational numbers, and the scores are rounded after each
  operation by a parameter \<open>rd\<close>; infinities and NaN are not represented.

  \<^bold>\<open>Message queue.\<close> \<open>Msg_Queue\<close> (\<^verbatim>\<open>kmsg/src/sled_msg_queue.rs\<close>, \<^verbatim>\<open>buckyos-api/src/msg_queue.rs\<close>) holds
  every handler on the five trees of the database. \<open>Msg_Queue_Spec\<close> is the abstract service and
  \<open>Msg_Queue_Store\<close> the locale \<open>kmsg_store\<close> of what the database and the encoding promise;
  \<open>Msg_Queue_Lemmas\<close>, \<open>Msg_Queue_Refine\<close>, \<open>Msg_Queue_Handlers\<close> and \<open>Msg_Queue_Trim\<close> prove that every
  request implements the abstract service. \<open>Msg_Queue_Client\<close> derives delivery exactly once from the
  abstract service alone (locale \<open>queue_service\<close>). \<open>Msg_Queue_Instance\<close> interprets the locale on
  red-black trees, \<open>Msg_Queue_Correct\<close> states the properties, and \<open>Msg_Queue_Rpc\<close> that the RPC client
  behaves as the client in process (locale \<open>kmsg_rpc\<close>).

  \<^bold>\<open>Replicated log.\<close> \<open>Klog\<close> (\<^verbatim>\<open>klog/src/lib.rs\<close>, \<^verbatim>\<open>state_store/store.rs\<close>, \<^verbatim>\<open>state_store/memory.rs\<close>) holds
  entries, the cache of recent request identifiers and the store in memory; \<open>Klog_Machine\<close> the manager
  and the state machine (\<^verbatim>\<open>state_machine/machine.rs\<close>). \<open>Klog_Store\<close> is about the cache inside its window;
  \<open>Klog_Refine\<close> has the specification, the locales \<open>klog_store\<close> and \<open>klog_replica\<close> and the refinement;
  \<open>Klog_Memory\<close> interprets them on the store in memory. \<open>Klog_Wf\<close> has the reachable replicas and their
  well-formedness. \<open>Klog_Correct\<close> and \<open>Klog_Snapshot\<close> state the properties: replicas implement the
  specification and agree while their clocks stay inside the window; compare-and-set on metadata;
  snapshots; and the executions in which replicas part, an entry is applied twice or an identifier is
  given twice.

  \<^bold>\<open>Loops and bounds.\<close> Loops over data are structural recursion or have a termination proof.
  Compare-and-exchange loops (\<open>next_id_loop\<close>, \<open>advance_cas\<close>), which other threads can prolong, are partial
  functions with the interference as a parameter, and that they return is proved under the stated
  conditions. The constants of the sources (ring sizes, capacities, the window of five minutes and
  the 10000 remembered requests) have their values. Counters keep their width; where wrap-around
  could matter, it is a hypothesis or a branch.

  \<^bold>\<open>Parameters.\<close> The clock, the operating system (mapping of files, process identifiers), the network,
  the database \<open>sled\<close>, the JSON and \<open>bincode\<close> encodings, and consensus (\<open>openraft\<close>) are parameters; what
  is assumed of them is documented behaviour, stated in the locales and hypotheses and shown to be
  satisfiable by concrete instances.

  \<^bold>\<open>Not modelled.\<close> Of the bridge and the client: reconnection after the reader loop gives up, the timer
  thread and the dispatch thread. Of the log: the stores in RocksDB and SQLite, the HTTP service and
  the forwarding between nodes, the files of snapshots. The processes around the modelled services
  (\<open>main.rs\<close>, HTTP framing), and the components whose work is effects outside the program or external
  services: the node daemon, activation, logging, verification of tokens, the system configuration
  service, the task manager and workflow, the agents and their tools, the web interfaces and the
  command lines.
\<close>

end
